(* ===== verification/Prelude.thy ===== *)
theory Prelude
  imports Main "HOL-Library.Word"
begin

text \<open>
  Shared vocabulary of the development: the machine types of the C sources as word types,
  big-endian loads and stores, byte-wise exclusive or, and the list lemmas the components
  share.  \<open>wbits\<close> collects the facts that turn a goal on words into a goal on bits;
  \<open>qdefs\<close> collects the definitions of a component that its evaluation lemmas unfold.
\<close>

unbundle bit_operations_syntax

named_theorems wbits \<open>word equations decided bit by bit\<close>
named_theorems qdefs \<open>definitions unfolded when a closed term is evaluated\<close>

section \<open>Types\<close>

type_synonym u8 = "8 word"
type_synonym u32 = "32 word"
type_synonym u64 = "64 word"
type_synonym bytes = "u8 list"

section \<open>Words as bit sequences\<close>

lemmas [wbits] = bit_eq_iff bit_and_iff bit_or_iff bit_xor_iff bit_not_iff

lemma mask_FF: "(0xFF :: 'a::len word) = mask 8"
  by (simp add: mask_eq_exp_minus_1)

lemma bit_and_FF [simp]: "bit ((w :: 'a::len word) AND 0xFF) n \<longleftrightarrow> n < 8 \<and> bit w n"
  unfolding mask_FF by (auto simp: bit_and_iff bit_mask_iff dest: bit_imp_le_length)

section \<open>Big-endian words\<close>

text \<open>
  \<open>be32 b0 b1 b2 b3\<close> is the value C computes as
  \<open>(b0 << 24) ^ (b1 << 16) ^ (b2 << 8) ^ b3\<close>; \<open>byte_of k w\<close> is \<open>(uint8_t)(w >> k)\<close>.
\<close>

definition be32 :: "u8 \<Rightarrow> u8 \<Rightarrow> u8 \<Rightarrow> u8 \<Rightarrow> u32" where
  "be32 b0 b1 b2 b3 =
     push_bit 24 (ucast b0) XOR push_bit 16 (ucast b1) XOR push_bit 8 (ucast b2) XOR ucast b3"

definition byte_of :: "nat \<Rightarrow> u32 \<Rightarrow> u8" where
  "byte_of k w = ucast (drop_bit k w)"

definition be32_bytes :: "u32 \<Rightarrow> bytes" where
  "be32_bytes w = [byte_of 24 w, byte_of 16 w, byte_of 8 w, byte_of 0 w]"

text \<open>A byte list read as consecutive big-endian 32-bit words; a ragged tail is dropped.\<close>

fun be32_words :: "bytes \<Rightarrow> u32 list" where
  "be32_words (a # b # c # d # xs) = be32 a b c d # be32_words xs"
| "be32_words _ = []"

lemma bit_u8_ge [simp]: "8 \<le> n \<Longrightarrow> \<not> bit (b::u8) n"
  using bit_imp_le_length [of b n] by auto

lemma bit_be32:
  "bit (be32 a b c d) n =
     (if n < 8 then bit d n else if n < 16 then bit c (n - 8)
      else if n < 24 then bit b (n - 16) else bit a (n - 24))"
  by (cases "n < 32") (auto simp: be32_def bit_simps bit_push_bit_iff)

lemma byte_of_be32 [simp]:
  shows "byte_of 24 (be32 a b c d) = a" and "byte_of 16 (be32 a b c d) = b"
    and "byte_of 8 (be32 a b c d) = c" and "byte_of 0 (be32 a b c d) = d"
  by (rule bit_word_eqI, simp add: byte_of_def bit_be32 bit_ucast_iff bit_drop_bit_eq)+

lemma be32_bytes_be32 [simp]: "be32_bytes (be32 a b c d) = [a, b, c, d]"
  by (simp add: be32_bytes_def)

lemma length_be32_bytes [simp]: "length (be32_bytes w) = 4"
  by (simp add: be32_bytes_def)

lemma be32_of_bytes [simp]: "be32 (byte_of 24 w) (byte_of 16 w) (byte_of 8 w) (byte_of 0 w) = w"
  by (rule bit_word_eqI) (simp add: bit_be32 byte_of_def bit_ucast_iff bit_drop_bit_eq, linarith)

lemma byte_of_xor: "byte_of k (v XOR w) = byte_of k v XOR byte_of k w"
  by (rule bit_word_eqI) (simp add: byte_of_def bit_simps)

lemma be32_xor: "be32 a b c d XOR be32 a' b' c' d' = be32 (a XOR a') (b XOR b') (c XOR c') (d XOR d')"
  by (rule bit_word_eqI) (simp add: bit_be32 bit_xor_iff)

lemma be32_inject: "be32 a b c d = be32 a' b' c' d' \<longleftrightarrow> a = a' \<and> b = b' \<and> c = c' \<and> d = d'"
proof
  assume eq: "be32 a b c d = be32 a' b' c' d'"
  have "be32_bytes (be32 a b c d) = be32_bytes (be32 a' b' c' d')"
    by (simp only: eq)
  then show "a = a' \<and> b = b' \<and> c = c' \<and> d = d'" by simp
qed simp

lemma be32_words_be32_bytes [simp]: "be32_words (be32_bytes w @ xs) = w # be32_words xs"
  by (simp add: be32_bytes_def)

lemma be32_words_concat: "be32_words (concat (map be32_bytes ws)) = ws"
  by (induction ws) simp_all

lemma length_concat_be32_bytes: "length (concat (map be32_bytes ws)) = 4 * length ws"
  by (induction ws) simp_all

lemma length_be32_words: "length (be32_words xs) = length xs div 4"
  by (induction xs rule: be32_words.induct) simp_all

lemma be32_words_append:
  "4 dvd length xs \<Longrightarrow> be32_words (xs @ ys) = be32_words xs @ be32_words ys"
proof (induction xs rule: be32_words.induct)
  case (1 a b c d xs)
  from "1.prems" have "4 dvd length xs" by (simp add: nat_dvd_not_less dvd_def) presburger
  with "1.IH" show ?case by simp
qed (auto dest: dvd_imp_le)

section \<open>Byte strings\<close>

text \<open>\<open>xor_bytes xs ys\<close> is the byte-wise exclusive or, as long as the shorter of the two.\<close>

definition xor_bytes :: "bytes \<Rightarrow> bytes \<Rightarrow> bytes" where
  "xor_bytes xs ys = map2 (XOR) xs ys"

lemma length_xor_bytes [simp]: "length (xor_bytes xs ys) = min (length xs) (length ys)"
  by (simp add: xor_bytes_def)

lemma xor_bytes_simps [simp]:
  "xor_bytes [] ys = []" "xor_bytes xs [] = []"
  "xor_bytes (x # xs) (y # ys) = (x XOR y) # xor_bytes xs ys"
  by (simp_all add: xor_bytes_def)

lemma nth_xor_bytes: "i < length xs \<Longrightarrow> i < length ys \<Longrightarrow> xor_bytes xs ys ! i = xs ! i XOR ys ! i"
  by (simp add: xor_bytes_def)

lemma xor_bytes_zero [simp]: "length xs \<le> n \<Longrightarrow> xor_bytes xs (replicate n 0) = xs"
  by (rule nth_equalityI) (auto simp: nth_xor_bytes)

lemma xor_bytes_append:
  "length xs = length ys \<Longrightarrow> xor_bytes (xs @ xs') (ys @ ys') = xor_bytes xs ys @ xor_bytes xs' ys'"
  by (simp add: xor_bytes_def)

text \<open>
  The number a byte string denotes in big-endian order.
\<close>

primrec be_nat :: "bytes \<Rightarrow> nat" where
  "be_nat [] = 0"
| "be_nat (x # xs) = unat x * 256 ^ length xs + be_nat xs"

lemma be_nat_append: "be_nat (xs @ ys) = be_nat xs * 256 ^ length ys + be_nat ys"
  by (induction xs) (simp_all add: algebra_simps power_add)

lemma unat_u8_less [simp]: "unat (x::u8) < 256"
  using unsigned_less [of x] by simp

lemma be_nat_less: "be_nat xs < 256 ^ length xs"
proof (induction xs)
  case (Cons x xs)
  have "unat x \<le> 255" using unat_u8_less [of x] by linarith
  then have "unat x * 256 ^ length xs \<le> 255 * 256 ^ length xs" by (rule mult_le_mono1)
  from add_le_less_mono [OF this Cons.IH] show ?case by simp
qed simp

section \<open>Lists\<close>

lemma take_append_exact [simp]: "length xs = n \<Longrightarrow> take n (xs @ ys) = xs"
  by simp

lemma drop_append_exact [simp]: "length xs = n \<Longrightarrow> drop n (xs @ ys) = ys"
  by simp

text \<open>
  \<open>blit dst i src\<close> is \<open>memcpy(dst + i, src, length src)\<close> on a buffer of fixed size; the
  callers stay inside the buffer.
\<close>

definition blit :: "'a list \<Rightarrow> nat \<Rightarrow> 'a list \<Rightarrow> 'a list" where
  "blit dst i src = take i dst @ src @ drop (i + length src) dst"

lemma length_blit [simp]: "i + length src \<le> length dst \<Longrightarrow> length (blit dst i src) = length dst"
  by (simp add: blit_def)

lemma take_blit: "i \<le> length dst \<Longrightarrow> take (i + length src) (blit dst i src) = take i dst @ src"
  by (simp add: blit_def)

lemma take_blit_start: "i \<le> length dst \<Longrightarrow> k \<le> i \<Longrightarrow> take k (blit dst i src) = take k dst"
  by (simp add: blit_def)

lemma blit_all: "length src = length dst \<Longrightarrow> blit dst 0 src = src"
  by (simp add: blit_def)

text \<open>Checking a table entry by entry; the predicate sees the index.\<close>

primrec all_from :: "(nat \<Rightarrow> 'a \<Rightarrow> bool) \<Rightarrow> nat \<Rightarrow> 'a list \<Rightarrow> bool" where
  "all_from P i [] \<longleftrightarrow> True"
| "all_from P i (x # xs) \<longleftrightarrow> P i x \<and> all_from P (i + 1) xs"

lemma all_from_nth: "all_from P i xs \<Longrightarrow> k < length xs \<Longrightarrow> P (i + k) (xs ! k)"
proof (induction xs arbitrary: i k)
  case (Cons x xs)
  then show ?case by (cases k) (use Cons.IH [of "i + 1"] in auto)
qed simp

lemma foldl_all_from:
  assumes "all_from Q k xs" "P k s" "\<And>j s x. Q j x \<Longrightarrow> P j s \<Longrightarrow> P (Suc j) (f s x)"
  shows "P (k + length xs) (foldl f s xs)"
  using assms(1,2)
proof (induction xs arbitrary: k s)
  case (Cons x xs)
  then show ?case using Cons.IH [of "k + 1" "f s x"] assms(3) [of k x s] by simp
qed simp

text \<open>Exclusive or and zero extension.\<close>

lemma xor_eq_0_iff: "(a :: 'a::len word) XOR b = 0 \<longleftrightarrow> a = b"
  by (simp add: bit_eq_iff bit_xor_iff)

lemma unat_ucast_u8 [simp]: "unat (ucast (b::u8) :: u32) = unat b"
proof -
  have "unat b < 2 ^ 32" by (rule less_trans [OF unat_u8_less]) simp
  from take_bit_nat_eq_self [OF this] have "take_bit 32 (unat b) = unat b" .
  then show ?thesis by (simp add: unsigned_ucast_eq)
qed

section \<open>Little-endian words\<close>

fun le_word :: "bytes \<Rightarrow> u64" where
  "le_word [] = 0"
| "le_word (b # bs) = ucast b OR push_bit 8 (le_word bs)"

definition le64_bytes :: "u64 \<Rightarrow> bytes" where
  "le64_bytes w = map (\<lambda>k. ucast (drop_bit (8 * k) w)) [0..<8]"

definition le64_words :: "bytes \<Rightarrow> u64 list" where
  "le64_words b = map (\<lambda>i. le_word (take 8 (drop (8 * i) b))) [0..<length b div 8]"

definition words_bytes :: "u64 list \<Rightarrow> bytes" where
  "words_bytes ws = concat (map le64_bytes ws)"

lemma bit_le_word:
  "bit (le_word bs) n \<longleftrightarrow> n < 64 \<and> n div 8 < length bs \<and> bit (bs ! (n div 8)) (n mod 8)"
proof (induction bs arbitrary: n)
  case (Cons b bs)
  show ?case
  proof (cases "n < 8")
    case True
    then show ?thesis by (simp add: bit_or_iff bit_ucast_iff bit_push_bit_iff)
  next
    case False
    then obtain k where n: "n = k + 8" using le_Suc_ex [of 8 n] by (auto simp: add.commute)
    have "(k + 8) div 8 = Suc (k div 8)" "(k + 8) mod 8 = k mod 8" by simp_all
    then show ?thesis unfolding n by (auto simp: bit_or_iff bit_ucast_iff bit_push_bit_iff Cons.IH)
  qed
qed simp

lemma length_le64_bytes [simp]: "length (le64_bytes w) = 8"
  by (simp add: le64_bytes_def)

lemma le_word_bytes [simp]: "le_word (le64_bytes w) = w"
  by (rule bit_word_eqI) (auto simp: bit_le_word le64_bytes_def bit_ucast_iff bit_drop_bit_eq)

lemma le64_bytes_word: "length bs = 8 \<Longrightarrow> le64_bytes (le_word bs) = bs"
  by (rule nth_equalityI)
    (auto intro!: bit_word_eqI simp: le64_bytes_def bit_ucast_iff bit_drop_bit_eq bit_le_word)

lemma length_words_bytes [simp]: "length (words_bytes ws) = 8 * length ws"
  by (induction ws) (simp_all add: words_bytes_def)

lemma words_bytes_Cons: "words_bytes (w # ws) = le64_bytes w @ words_bytes ws"
  by (simp add: words_bytes_def)

lemma words_bytes_append: "words_bytes (xs @ ys) = words_bytes xs @ words_bytes ys"
  by (simp add: words_bytes_def)

lemma length_le64_words [simp]: "length (le64_words b) = length b div 8"
  by (simp add: le64_words_def)

lemma le64_words_Nil [simp]: "le64_words [] = []"
  by (simp add: le64_words_def)

lemma le64_words_8: "length a = 8 \<Longrightarrow> le64_words (a @ b) = le_word a # le64_words b"
  by (rule nth_equalityI) (auto simp: le64_words_def nth_Cons' diff_mult_distrib2 intro!: arg_cong [where f = le_word])

lemma le64_words_bytes [simp]: "le64_words (words_bytes ws @ b) = ws @ le64_words b"
  by (induction ws) (simp_all add: words_bytes_Cons le64_words_8, simp add: words_bytes_def)

lemma words_bytes_words:
  assumes "8 dvd length b"
  shows "words_bytes (le64_words b) = b"
  using assms
proof (induction "length b" arbitrary: b rule: less_induct)
  case less
  show ?case
  proof (cases "b = []")
    case False
    with less.prems have "8 \<le> length b" by (simp add: dvd_imp_le)
    then have l: "length (take 8 b) = 8" by simp
    have "words_bytes (le64_words (drop 8 b)) = drop 8 b"
      using less.prems \<open>8 \<le> length b\<close> by (intro less.hyps) auto
    with le64_words_8 [OF l, of "drop 8 b"] show ?thesis
      by (simp add: words_bytes_Cons le64_bytes_word [OF l])
  qed (simp add: words_bytes_def)
qed

lemma le64_words_append:
  assumes "8 dvd length a"
  shows "le64_words (a @ b) = le64_words a @ le64_words b"
  by (metis assms le64_words_bytes words_bytes_words)

lemma or_eq_0_iff_word: "(a :: 'a::len word) OR b = 0 \<longleftrightarrow> a = 0 \<and> b = 0"
  by (auto simp: bit_eq_iff bit_or_iff)

end
