(* ===== verification/Sha2.thy ===== *)
theory Sha2
  imports Prelude
begin

text \<open>
  The incremental interface that \<open>sha2_256.c\<close> and \<open>sha2_512.c\<close> of
  \<open>src/qudo-pqc-lib/qudo-slhdsa/slhdsa-native\<close> share: the two files have the same text up to the
  size of a block, the position of the length field and the compression function, which are the
  parameters \<open>B\<close>, \<open>P\<close> and \<open>C\<close> here.  A context holds the chaining value, the block buffer, the
  number of bytes in the buffer and the number of bytes taken so far.

  The compression functions share the order of their steps as well, with the macros as parameters;
  the locale \<open>sha2_macros\<close> relates them to the rounds of FIPS 180-4.  The locale \<open>md_stream\<close> proves once what the hashes need: \<open>update\<close> appends to the message a context
  stands for, however it is cut, and finalisation runs the compression function over the padded message.
\<close>

section \<open>The code\<close>

record md_state =
  hs :: bytes
  mp :: bytes
  sha_i :: nat
  sha_len :: u64

text \<open>The contents of the block buffer before the first write are whatever memory held.\<close>

definition md_init_h0 :: "md_state \<Rightarrow> bytes \<Rightarrow> md_state" where
  "md_init_h0 sha h0 = sha\<lparr>hs := h0, sha_i := 0, sha_len := 0\<rparr>"

definition md_copy :: "md_state \<Rightarrow> md_state \<Rightarrow> md_state" where
  "md_copy dst src =
     dst\<lparr>sha_i := sha_i src, sha_len := sha_len src, hs := hs src,
         mp := blit (mp dst) 0 (take (sha_i src) (mp src))\<rparr>"

text \<open>
  \<open>while (m_sz >= B) { memcpy(mp, m, B); compress; ... }; memcpy(mp, m, m_sz); i = m_sz\<close>
\<close>

function md_absorb :: "nat \<Rightarrow> (bytes \<Rightarrow> bytes \<Rightarrow> bytes) \<Rightarrow> md_state \<Rightarrow> bytes \<Rightarrow> md_state" where
  "md_absorb B C sha m =
     (if B > 0 \<and> length m \<ge> B
      then (let mp' = blit (mp sha) 0 (take B m)
            in md_absorb B C (sha\<lparr>mp := mp', hs := C (hs sha) mp'\<rparr>) (drop B m))
      else sha\<lparr>mp := blit (mp sha) 0 m, sha_i := length m\<rparr>)"
  by pat_completeness auto
termination
  by (relation "measure (\<lambda>(B, C, sha, m). length m)") auto

declare md_absorb.simps [simp del]

definition md_update :: "nat \<Rightarrow> (bytes \<Rightarrow> bytes \<Rightarrow> bytes) \<Rightarrow> md_state \<Rightarrow> bytes \<Rightarrow> md_state" where
  "md_update B C sha m =
     (let sha1 = sha\<lparr>sha_len := sha_len sha + of_nat (length m)\<rparr>;
          l = B - sha_i sha
      in if length m < l
         then sha1\<lparr>mp := blit (mp sha) (sha_i sha) m, sha_i := sha_i sha + length m\<rparr>
         else if sha_i sha > 0
         then (let mp' = blit (mp sha) (sha_i sha) (take l m)
               in md_absorb B C (sha1\<lparr>mp := mp', hs := C (hs sha) mp', sha_i := 0\<rparr>) (drop l m))
         else md_absorb B C sha1 m)"

text \<open>\<open>i = B; while (x > 0) { mp[--i] = x & 0xFF; x >>= 8; }\<close>\<close>

function md_put_len :: "bytes \<Rightarrow> nat \<Rightarrow> u64 \<Rightarrow> bytes" where
  "md_put_len buf i x =
     (if x > 0
      then md_put_len (buf[i - 1 := ucast (x AND 0xFF)]) (i - 1) (drop_bit 8 x)
      else buf)"
  by pat_completeness auto
termination
proof (relation "measure (\<lambda>(buf, i, x). unat x)")
  fix buf :: bytes and i and x :: u64
  assume "x > 0"
  then have "0 < unat x" by (simp add: word_less_nat_alt)
  then have "unat x div 256 < unat x" by simp
  then show "((buf[i - 1 := ucast (x AND 0xFF)], i - 1, drop_bit 8 x), buf, i, x)
               \<in> measure (\<lambda>(buf, i, x). unat x)"
    by (simp add: unat_drop_bit_eq drop_bit_nat_def)
qed simp

declare md_put_len.simps [simp del]

definition md_final_pad :: "nat \<Rightarrow> nat \<Rightarrow> (bytes \<Rightarrow> bytes \<Rightarrow> bytes) \<Rightarrow> md_state \<Rightarrow> md_state" where
  "md_final_pad B P C sha =
     (let i = sha_i sha;
          mp1 = (mp sha)[i := 0x80];
          i = i + 1;
          (hs2, mp2, i) =
            (if i > P
             then (let mp1' = blit mp1 i (replicate (B - i) 0)
                   in (C (hs sha) mp1', mp1', 0))
             else (hs sha, mp1, i));
          mp3 = blit mp2 i (replicate (B - i) 0);
          mp4 = md_put_len mp3 B (push_bit 3 (sha_len sha))
      in sha\<lparr>hs := hs2, mp := mp4\<rparr>)"

definition md_final_len :: "nat \<Rightarrow> nat \<Rightarrow> (bytes \<Rightarrow> bytes \<Rightarrow> bytes) \<Rightarrow> md_state \<Rightarrow> nat \<Rightarrow> md_state \<times> bytes" where
  "md_final_len B P C sha h_sz =
     (let sha1 = md_final_pad B P C sha;
          sha2 = sha1\<lparr>hs := C (hs sha1) (mp sha1)\<rparr>
      in (sha2, take h_sz (hs sha2)))"

section \<open>Blocks and padding\<close>

definition be64_bytes :: "u64 \<Rightarrow> bytes" where
  "be64_bytes x = map (\<lambda>k. ucast (drop_bit (8 * k) x)) [7, 6, 5, 4, 3, 2, 1, 0]"

fun blocks :: "nat \<Rightarrow> bytes \<Rightarrow> bytes list" where
  "blocks B m = (if B = 0 \<or> length m < B then [] else take B m # blocks B (drop B m))"

declare blocks.simps [simp del]

text \<open>A one bit, the least number of zero bits, the length in bits up to the end of a block.\<close>

definition md_pad :: "nat \<Rightarrow> nat \<Rightarrow> bytes \<Rightarrow> bytes" where
  "md_pad B P m =
     m @ 0x80 # replicate ((B + P - 1 - length m mod B) mod B) 0
       @ replicate (B - P - 8) 0 @ be64_bytes (of_nat (8 * length m))"

lemma upt_8: "[0..<8] = [0, 1, 2, 3, 4, 5, 6, 7::nat]"
  by (simp add: upt_rec)

definition be_bytes :: "nat \<Rightarrow> u64 \<Rightarrow> bytes" where
  "be_bytes n x = map (\<lambda>k. ucast (drop_bit (8 * k) x)) (rev [0..<n])"

lemma be_bytes_Suc: "be_bytes (Suc n) x = be_bytes n (drop_bit 8 x) @ [ucast x]"
  by (simp add: be_bytes_def upt_conv_Cons map_Suc_upt [symmetric] rev_map drop_bit_drop_bit
      add.commute del: upt_Suc)

lemma be_bytes_zero: "be_bytes n 0 = replicate n 0"
  by (simp add: be_bytes_def map_replicate_const)

lemma be64_bytes_eq: "be64_bytes x = be_bytes 8 x"
  by (simp add: be64_bytes_def be_bytes_def upt_8)

lemma length_be64_bytes [simp]: "length (be64_bytes x) = 8"
  by (simp add: be64_bytes_def)

lemma ucast_low_byte: "(ucast (x AND 0xFF) :: u8) = ucast (x :: u64)"
  by (rule bit_word_eqI) (simp add: bit_ucast_iff)

text \<open>The length field: the loop of the finalisation writes the big-endian bit count.\<close>

lemma md_put_len_spec:
  "unat x < 256 ^ n \<Longrightarrow>
     md_put_len (pre @ replicate n 0 @ post) (length pre + n) x = pre @ be_bytes n x @ post"
proof (induction n arbitrary: x post)
  case 0
  then have "x = 0" by (simp add: unat_eq_zero)
  then show ?case by (simp add: md_put_len.simps be_bytes_zero)
next
  case (Suc n)
  show ?case
  proof (cases "x = 0")
    case True
    then show ?thesis by (simp add: md_put_len.simps be_bytes_zero)
  next
    case False
    let ?buf = "pre @ replicate (Suc n) 0 @ post"
    have upd: "?buf[length pre + n := ucast x] = pre @ replicate n 0 @ (ucast x # post)"
    proof -
      have "?buf = (pre @ replicate n 0) @ 0 # post"
        by (simp add: replicate_app_Cons_same)
      then have "?buf[length (pre @ replicate n (0::u8)) := ucast x] = (pre @ replicate n 0) @ ucast x # post"
        by (simp only: list_update_length)
      then show ?thesis by simp
    qed
    have "unat (drop_bit 8 x) < 256 ^ n"
      using Suc.prems by (simp add: unat_drop_bit_eq drop_bit_nat_def div_less_iff_less_mult mult.commute)
    then have "md_put_len (pre @ replicate n 0 @ (ucast x # post)) (length pre + n) (drop_bit 8 x)
        = pre @ be_bytes n (drop_bit 8 x) @ ucast x # post" by (rule Suc.IH)
    moreover have "md_put_len ?buf (length pre + Suc n) x
        = md_put_len (?buf[length pre + n := ucast x]) (length pre + n) (drop_bit 8 x)"
      using False by (subst md_put_len.simps) (simp add: ucast_low_byte word_gt_0 del: replicate_Suc)
    ultimately show ?thesis unfolding upd by (simp only: be_bytes_Suc) simp
  qed
qed

lemma md_put_len_block:
  assumes "length pre = n"
  shows "md_put_len (pre @ replicate 8 0) (n + 8) x = pre @ be64_bytes x"
proof -
  have "unat x < 256 ^ 8" using unsigned_less [of x] by simp
  from md_put_len_spec [OF this, of pre "[]"] show ?thesis
    by (simp add: assms be64_bytes_eq)
qed

section \<open>The incremental interface\<close>

locale md_stream =
  fixes B P :: nat and C :: "bytes \<Rightarrow> bytes \<Rightarrow> bytes"
  assumes P_pos: "0 < P" and field: "P + 8 \<le> B"
begin

lemma B_pos: "0 < B"
  using P_pos field by simp

lemma blocks_short [simp]: "length m < B \<Longrightarrow> blocks B m = []"
  by (simp add: blocks.simps [of B m])

lemma blocks_block [simp]: "length b = B \<Longrightarrow> blocks B (b @ m) = b # blocks B m"
  using B_pos by (simp add: blocks.simps [of B "b @ m"])

lemma blocks_single [simp]: "length b = B \<Longrightarrow> blocks B b = [b]"
  using blocks_block [of b "[]"] B_pos by simp

lemma blocks_append: "B dvd length a \<Longrightarrow> blocks B (a @ m) = blocks B a @ blocks B m"
proof (induction "length a" arbitrary: a rule: less_induct)
  case less
  show ?case
  proof (cases "length a < B")
    case True
    with less.prems have "a = []" by (auto dest: dvd_imp_le)
    then show ?thesis using B_pos by simp
  next
    case False
    then have split: "a = take B a @ drop B a" and len: "length (take B a) = B" by simp_all
    have "B dvd length (drop B a)" using False less.prems by (simp add: dvd_diff_nat)
    moreover have "length (drop B a) < length a" using False B_pos by simp
    ultimately have IH: "blocks B (drop B a @ m) = blocks B (drop B a) @ blocks B m"
      using less.hyps by blast
    have "blocks B (take B a @ drop B a @ m) = take B a # blocks B (drop B a) @ blocks B m"
      using len IH by (simp only: blocks_block)
    moreover have "blocks B a = take B a # blocks B (drop B a)"
      using False B_pos by (simp add: blocks.simps [of B a])
    ultimately show ?thesis using split by (metis append_Cons append_assoc)
  qed
qed

lemma set_blocks: "b \<in> set (blocks B m) \<Longrightarrow> length b = B"
proof (induction B m rule: blocks.induct)
  case (1 B m)
  then show ?case by (cases "B = 0 \<or> length m < B") (auto simp: blocks.simps [of B m])
qed

text \<open>
  A message is its whole blocks and a tail; \<open>rep h0 sha m\<close> says that the context \<open>sha\<close>,
  started from the chaining value \<open>h0\<close>, has absorbed exactly the message \<open>m\<close>.
\<close>

definition whole :: "bytes \<Rightarrow> bytes" where
  "whole m = take (B * (length m div B)) m"

definition tail :: "bytes \<Rightarrow> bytes" where
  "tail m = drop (B * (length m div B)) m"

definition rep :: "bytes \<Rightarrow> md_state \<Rightarrow> bytes \<Rightarrow> bool" where
  "rep h0 sha m \<longleftrightarrow>
     length (mp sha) = B \<and> sha_i sha = length m mod B \<and> take (length m mod B) (mp sha) = tail m
     \<and> hs sha = foldl C h0 (blocks B (whole m)) \<and> sha_len sha = of_nat (length m)"

lemma whole_tail: "whole m @ tail m = m"
  by (simp add: whole_def tail_def)

lemma whole_tail_more: "whole m @ tail m @ x = m @ x"
  by (metis append_assoc whole_tail)

lemma length_whole: "length (whole m) = B * (length m div B)"
  using times_div_less_eq_dividend [of B "length m"] by (simp add: whole_def min_absorb2)

lemma length_tail: "length (tail m) = length m mod B"
  by (simp add: tail_def minus_mult_div_eq_mod)

lemma dvd_whole [simp]: "B dvd length (whole m)"
  by (simp add: length_whole)

lemma whole_tail_append:
  assumes "B dvd length a"
  shows "whole (a @ m) = a @ whole m" "tail (a @ m) = tail m"
proof -
  from assms obtain k where k: "length a = B * k" by auto
  have "B * ((B * k + length m) div B) = B * k + B * (length m div B)"
    using B_pos by (simp add: distrib_left)
  then show "whole (a @ m) = a @ whole m" "tail (a @ m) = tail m"
    by (simp_all add: whole_def tail_def k)
qed

lemma whole_tail_short: "length m < B \<Longrightarrow> whole m = [] \<and> tail m = m"
  by (simp add: whole_def tail_def)

lemma absorb_spec:
  "length (mp sha) = B \<Longrightarrow>
     length (mp (md_absorb B C sha m)) = B \<and> sha_i (md_absorb B C sha m) = length m mod B
     \<and> take (length m mod B) (mp (md_absorb B C sha m)) = tail m
     \<and> hs (md_absorb B C sha m) = foldl C (hs sha) (blocks B (whole m))
     \<and> sha_len (md_absorb B C sha m) = sha_len sha"
proof (induction "length m" arbitrary: sha m rule: less_induct)
  case less
  show ?case
  proof (cases "length m \<ge> B")
    case True
    define b where "b = take B m"
    have b: "length b = B" "m = b @ drop B m" using True by (simp_all add: b_def)
    have blit: "blit (mp sha) 0 b = b" using b(1) less.prems by (simp add: blit_all)
    define sha' where "sha' = sha\<lparr>mp := b, hs := C (hs sha) b\<rparr>"
    have rec: "md_absorb B C sha m = md_absorb B C sha' (drop B m)"
      using True blit B_pos by (simp add: md_absorb.simps [of B C sha m] sha'_def b_def Let_def)
    have "length (drop B m) < length m" "length (mp sha') = B"
      using True B_pos b(1) by (simp_all add: sha'_def)
    note IH = less.hyps [OF this]
    have "length m mod B = length (drop B m) mod B" using True by (simp add: le_mod_geq)
    moreover have "whole m = b @ whole (drop B m)" "tail m = tail (drop B m)"
      using whole_tail_append [of b "drop B m"] b by simp_all
    ultimately show ?thesis using IH rec b(1) by (simp add: sha'_def)
  next
    case False
    then show ?thesis using less.prems whole_tail_short [of m] take_blit [of 0 "mp sha" m]
      by (simp add: md_absorb.simps [of B C sha m])
  qed
qed

lemma rep_init: "length (mp sha) = B \<Longrightarrow> rep h0 (md_init_h0 sha h0) []"
  using B_pos by (simp add: rep_def md_init_h0_def whole_def tail_def)

lemma rep_update_short:
  assumes "rep h0 sha m" "length x < B - sha_i sha"
  shows "rep h0 (md_update B C sha x) (m @ x)"
proof -
  have m: "m @ x = whole m @ (tail m @ x)" by (simp add: whole_tail_more)
  have short: "length (tail m @ x) < B" using assms by (simp add: rep_def length_tail)
  have wt: "whole (m @ x) = whole m" "tail (m @ x) = tail m @ x"
    unfolding m using whole_tail_append [of "whole m" "tail m @ x"] whole_tail_short [OF short]
    by simp_all
  have i: "length (m @ x) mod B = sha_i sha + length x"
    using length_tail [of "m @ x"] wt(2) assms by (simp add: rep_def length_tail)
  have i': "(length m + length x) mod B = sha_i sha + length x" using i by simp
  have lt: "sha_i sha \<le> length (mp sha)" using assms B_pos by (simp add: rep_def less_imp_le)
  show ?thesis
    using assms wt i' take_blit [OF lt, of x]
    by (simp add: md_update_def rep_def Let_def)
qed

lemma rep_update_long:
  assumes rep: "rep h0 sha m" and long: "\<not> length x < B - sha_i sha"
  shows "rep h0 (md_update B C sha x) (m @ x)"
proof -
  define l where "l = B - sha_i sha"
  define b where "b = tail m @ take l x"
  have i: "sha_i sha = length m mod B" "sha_i sha < B" using rep B_pos by (simp_all add: rep_def)
  have b: "length b = B" using i long by (simp add: b_def l_def length_tail)
  have m: "m @ x = (whole m @ b) @ drop l x"
    by (simp add: b_def whole_tail_more)
  have dvd: "B dvd length (whole m @ b)" using b by simp
  have wt: "whole (m @ x) = (whole m @ b) @ whole (drop l x)" "tail (m @ x) = tail (drop l x)"
    unfolding m using whole_tail_append [OF dvd, of "drop l x"] by simp_all
  have blk: "blocks B (whole (m @ x)) = blocks B (whole m) @ b # blocks B (whole (drop l x))"
    using b by (simp add: wt blocks_append dvd)
  have len: "length (m @ x) mod B = length (drop l x) mod B"
    using wt(2) length_tail [of "m @ x"] length_tail [of "drop l x"] by simp
  define sha1 where "sha1 = sha\<lparr>sha_len := sha_len sha + of_nat (length x)\<rparr>"
  show ?thesis
  proof (cases "sha_i sha > 0")
    case True
    have bl: "blit (mp sha) (sha_i sha) (take l x) = b"
      using rep long i by (simp add: blit_def rep_def b_def l_def)
    define sha2 where "sha2 = sha1\<lparr>mp := b, hs := C (hs sha) b, sha_i := 0\<rparr>"
    have "md_update B C sha x = md_absorb B C sha2 (drop l x)"
      using True long bl by (simp add: md_update_def sha1_def sha2_def l_def Let_def)
    then show ?thesis
      using absorb_spec [of sha2 "drop l x"] b rep blk wt len
      by (simp add: rep_def sha2_def sha1_def)
  next
    case False
    then have tm: "tail m = []" "l = B" using i length_tail [of m] by (simp_all add: l_def)
    have "x = b @ drop l x" by (simp add: b_def tm)
    then have wx: "whole x = b @ whole (drop l x)" "tail x = tail (drop l x)"
      using whole_tail_append [of b "drop l x"] b by simp_all
    have lx: "length x mod B = length (drop l x) mod B"
      using wx(2) length_tail [of x] length_tail [of "drop l x"] by simp
    have "md_update B C sha x = md_absorb B C sha1 x"
      using False long by (simp add: md_update_def sha1_def Let_def)
    then show ?thesis
      using absorb_spec [of sha1 x] b rep blk wt len wx lx
      by (simp add: rep_def sha1_def)
  qed
qed

lemma rep_update: "rep h0 sha m \<Longrightarrow> rep h0 (md_update B C sha x) (m @ x)"
  by (cases "length x < B - sha_i sha") (simp_all add: rep_update_short rep_update_long)

lemma rep_copy: "rep h0 src m \<Longrightarrow> length (mp dst) = B \<Longrightarrow> rep h0 (md_copy dst src) m"
  using B_pos less_imp_le [OF mod_less_divisor, of B "length m"]
  by (simp add: rep_def md_copy_def blit_def length_tail)

lemma pad_tail:
  "md_pad B P m = whole m @ tail m @ 0x80 # replicate ((B + P - 1 - length (tail m)) mod B) 0
     @ replicate (B - P - 8) 0 @ be64_bytes (of_nat (8 * length m))"
  by (simp add: md_pad_def length_tail whole_tail_more)

lemma put_len_tail:
  assumes "length pre = P"
  shows "md_put_len (pre @ replicate (B - P) 0) B x = pre @ replicate (B - P - 8) 0 @ be64_bytes x"
proof -
  have z: "replicate (B - P) (0 :: u8) = replicate (B - P - 8) 0 @ replicate 8 0"
    using field by (simp add: replicate_add [symmetric])
  show ?thesis
    using md_put_len_block [of "pre @ replicate (B - P - 8) 0" "B - 8" x] assms field
    by (simp add: z)
qed

lemma rep_facts:
  assumes "rep h0 sha m"
  shows "length (mp sha) = B" "sha_i sha = length (tail m)" "length (tail m) < B"
    "hs sha = foldl C h0 (blocks B (whole m))" "push_bit 3 (sha_len sha) = of_nat (8 * length m)"
    "take (Suc (length (tail m))) ((mp sha)[length (tail m) := 0x80]) = tail m @ [0x80]"
proof -
  show *: "length (mp sha) = B" "sha_i sha = length (tail m)" "length (tail m) < B"
    "hs sha = foldl C h0 (blocks B (whole m))" "push_bit 3 (sha_len sha) = of_nat (8 * length m)"
    using assms B_pos by (simp_all add: rep_def length_tail push_bit_eq_mult)
  have "take (length (tail m)) (mp sha) = tail m" using assms by (simp add: rep_def length_tail)
  with * show "take (Suc (length (tail m))) ((mp sha)[length (tail m) := 0x80]) = tail m @ [0x80]"
    by (simp add: take_Suc_conv_app_nth)
qed

text \<open>When the rest of the message leaves room for the length, the padding stays in one block.\<close>

lemma final_pad_short:
  assumes rep: "rep h0 sha m" and short: "length (tail m) + 1 \<le> P"
  shows "hs (md_final_pad B P C sha) = hs sha"
    "mp (md_final_pad B P C sha) = tail m @ 0x80 # replicate (P - 1 - length (tail m)) 0
       @ replicate (B - P - 8) 0 @ be64_bytes (of_nat (8 * length m))"
proof -
  let ?t = "tail m"
  define b where "b = ?t @ 0x80 # replicate (P - 1 - length ?t) 0"
  have len: "length b = P" using short by (simp add: b_def)
  note r = rep_facts [OF rep]
  have "replicate (B - Suc (length ?t)) (0::u8) = replicate (P - 1 - length ?t) 0 @ replicate (B - P) 0"
    using short field by (simp add: replicate_add [symmetric])
  then have "blit ((mp sha)[length ?t := 0x80]) (Suc (length ?t)) (replicate (B - Suc (length ?t)) 0)
      = b @ replicate (B - P) 0"
    using r short field by (simp add: blit_def b_def)
  then show "hs (md_final_pad B P C sha) = hs sha"
    "mp (md_final_pad B P C sha) = tail m @ 0x80 # replicate (P - 1 - length (tail m)) 0
       @ replicate (B - P - 8) 0 @ be64_bytes (of_nat (8 * length m))"
    using short r put_len_tail [OF len] by (simp_all add: md_final_pad_def Let_def b_def)
qed

lemma final_blocks:
  assumes rep: "rep h0 sha m"
  shows "foldl C h0 (blocks B (md_pad B P m))
     = C (hs (md_final_pad B P C sha)) (mp (md_final_pad B P C sha))"
proof -
  let ?t = "tail m" and ?L = "replicate (B - P - 8) 0 @ be64_bytes (of_nat (8 * length m))"
  note r = rep_facts [OF rep]
  show ?thesis
  proof (cases "length ?t + 1 > P")
    case True
    define b1 where "b1 = ?t @ 0x80 # replicate (B - 1 - length ?t) 0"
    define b2 where "b2 = replicate P 0 @ ?L"
    have len: "length b1 = B" "length b2 = B" using r field by (simp_all add: b1_def b2_def)
    have "(B + P - 1 - length ?t) mod B = (B - 1 - length ?t) + P"
    proof -
      have "B + P - 1 - length ?t = (B - 1 - length ?t) + P" "(B - 1 - length ?t) + P < B"
        using True r(3) by linarith+
      then show ?thesis by simp
    qed
    then have "replicate ((B + P - 1 - length ?t) mod B) (0::u8) = replicate (B - 1 - length ?t) 0 @ replicate P 0"
      by (simp only: replicate_add)
    then have "md_pad B P m = whole m @ b1 @ b2"
      unfolding pad_tail b1_def b2_def by simp
    then have blk: "blocks B (md_pad B P m) = blocks B (whole m) @ [b1, b2]"
      using len by (simp add: blocks_append)
    have bl1: "blit ((mp sha)[length ?t := 0x80]) (Suc (length ?t)) (replicate (B - Suc (length ?t)) 0) = b1"
      using r by (simp add: blit_def b1_def)
    have "blit b1 0 (replicate B 0) = replicate P 0 @ replicate (B - P) 0"
      using len field by (simp add: blit_all replicate_add [symmetric])
    then have "hs (md_final_pad B P C sha) = C (hs sha) b1 \<and> mp (md_final_pad B P C sha) = b2"
      using True r bl1 put_len_tail [of "replicate P 0"]
      by (simp add: md_final_pad_def Let_def b2_def)
    then show ?thesis using blk r(4) by simp
  next
    case False
    define b where "b = ?t @ 0x80 # replicate (P - 1 - length ?t) 0"
    have len: "length b = P" using False by (simp add: b_def)
    have "(B + P - 1 - length ?t) mod B = P - 1 - length ?t"
    proof -
      have "B + P - 1 - length ?t = (P - 1 - length ?t) + B" "P - 1 - length ?t < B"
        using False field by linarith+
      then show ?thesis by (simp only: mod_add_self2 mod_less)
    qed
    then have "md_pad B P m = whole m @ (b @ ?L)" by (simp add: pad_tail b_def)
    moreover have "length (b @ ?L) = B" using len field by simp
    ultimately have "blocks B (md_pad B P m) = blocks B (whole m) @ [b @ ?L]"
      by (simp only: blocks_append [OF dvd_whole] blocks_single)
    then show ?thesis using False r(4) final_pad_short [OF rep] by (simp add: b_def)
  qed
qed

lemma rep_final:
  "rep h0 sha m \<Longrightarrow> snd (md_final_len B P C sha k) = take k (foldl C h0 (blocks B (md_pad B P m)))"
  by (simp add: md_final_len_def Let_def final_blocks)

end

section \<open>The rounds of the compression functions\<close>

text \<open>
  The two compression functions have the same sixteen lines
  \<open>STEP_R(a, b, ..., m0, kp[0]); STEP_R(h, a, ..., m1, kp[1]); ...\<close>: line \<open>i\<close> passes the registers
  \<open>a\<close> to \<open>h\<close> (here a list of eight) rotated by \<open>i\<close>, and the macro assigns its fourth and eighth
  argument.  \<open>R\<close> and \<open>K\<close> are the macros, \<open>ck\<close> the constants, \<open>N\<close> their number.
\<close>

type_synonym 'w sha2_step = "'w \<Rightarrow> 'w \<Rightarrow> 'w \<Rightarrow> 'w \<Rightarrow> 'w \<Rightarrow> 'w \<Rightarrow> 'w \<Rightarrow> 'w \<Rightarrow> 'w \<Rightarrow> 'w \<Rightarrow> 'w \<times> 'w"
type_synonym 'w sha2_keying = "'w \<Rightarrow> 'w \<Rightarrow> 'w \<Rightarrow> 'w \<Rightarrow> 'w"

definition reg_arg :: "nat \<Rightarrow> nat \<Rightarrow> nat" where
  "reg_arg i j = (j + (8 - i mod 8)) mod 8"

definition sha2_line :: "'w sha2_step \<Rightarrow> 'w list \<Rightarrow> nat \<Rightarrow> 'w \<Rightarrow> 'w \<Rightarrow> 'w list" where
  "sha2_line R v i mi ki =
     (let (d, h) = R (v ! reg_arg i 0) (v ! reg_arg i 1) (v ! reg_arg i 2)
                     (v ! reg_arg i 3) (v ! reg_arg i 4) (v ! reg_arg i 5) (v ! reg_arg i 6)
                     (v ! reg_arg i 7) mi ki
      in v[reg_arg i 3 := d, reg_arg i 7 := h])"

definition sha2_rounds :: "'w sha2_step \<Rightarrow> 'w list \<Rightarrow> nat \<Rightarrow> 'w list \<Rightarrow> 'w list \<Rightarrow> 'w list" where
  "sha2_rounds R ck kp m v = foldl (\<lambda>v i. sha2_line R v i (m ! i) (ck ! (kp + i))) v [0..<16]"

text \<open>
  The sixteen lines \<open>STEP_K(m0, m1, m9, me); ...\<close>, which extend the schedule in place.
\<close>

definition keying_line :: "'w sha2_keying \<Rightarrow> 'w list \<Rightarrow> nat \<Rightarrow> 'w list" where
  "keying_line K m i =
     m[i := K (m ! i) (m ! ((i + 1) mod 16)) (m ! ((i + 9) mod 16)) (m ! ((i + 14) mod 16))]"

definition sha2_keying_all :: "'w sha2_keying \<Rightarrow> 'w list \<Rightarrow> 'w list" where
  "sha2_keying_all K m = foldl (keying_line K) m [0..<16]"

text \<open>\<open>while (1) { rounds; if (kp == &ck[N - 16]) break; kp += 16; keying }\<close>\<close>

function sha2_loop ::
  "'w sha2_step \<Rightarrow> 'w sha2_keying \<Rightarrow> 'w list \<Rightarrow> nat \<Rightarrow> nat \<Rightarrow> 'w list \<Rightarrow> 'w list \<Rightarrow> 'w list" where
  "sha2_loop R K ck N kp m v =
     (let v' = sha2_rounds R ck kp m v
      in if kp \<ge> N - 16 then v' else sha2_loop R K ck N (kp + 16) (sha2_keying_all K m) v')"
  by pat_completeness auto
termination
  by (relation "measure (\<lambda>(R, K, ck, N, kp, m, v). N - kp)") auto

declare sha2_loop.simps [simp del]

text \<open>The functions of FIPS 180-4 section 4.1, the message schedule and the rounds of section 6.\<close>

definition Ch :: "'a::len word \<Rightarrow> 'a word \<Rightarrow> 'a word \<Rightarrow> 'a word" where
  "Ch x y z = (x AND y) XOR (NOT x AND z)"

definition Maj :: "'a::len word \<Rightarrow> 'a word \<Rightarrow> 'a word \<Rightarrow> 'a word" where
  "Maj x y z = (x AND y) XOR (x AND z) XOR (y AND z)"

fun fips_schedule :: "('a::len word \<Rightarrow> 'a word) \<Rightarrow> ('a word \<Rightarrow> 'a word) \<Rightarrow> 'a word list \<Rightarrow> nat \<Rightarrow> 'a word" where
  "fips_schedule s0 s1 m t =
     (if t < 16 then m ! t
      else s1 (fips_schedule s0 s1 m (t - 2)) + fips_schedule s0 s1 m (t - 7)
           + s0 (fips_schedule s0 s1 m (t - 15)) + fips_schedule s0 s1 m (t - 16))"

declare fips_schedule.simps [simp del]

fun fips_round ::
  "('a::len word \<Rightarrow> 'a word) \<Rightarrow> ('a word \<Rightarrow> 'a word) \<Rightarrow> 'a word list \<Rightarrow> 'a word \<Rightarrow> 'a word \<Rightarrow> 'a word list" where
  "fips_round S0 S1 [a, b, c, d, e, f, g, h] k w =
     (let T1 = h + S1 e + Ch e f g + k + w; T2 = S0 a + Maj a b c
      in [T1 + T2, a, b, c, d + T1, e, f, g])"
| "fips_round S0 S1 v k w = v"

lemma Ch_code: "g XOR (e AND (f XOR g)) = Ch e f g"
  by (rule bit_word_eqI) (auto simp: Ch_def bit_simps)

lemma Maj_code: "((a OR c) AND b) OR (c AND a) = Maj a b c"
  by (rule bit_word_eqI) (auto simp: Maj_def bit_simps)

text \<open>
  \<open>reg_view i v\<close> reads the registers in the roles they have on line \<open>i\<close>; one line is one
  round of the standard in that reading.
\<close>

definition reg_view :: "nat \<Rightarrow> 'w list \<Rightarrow> 'w list" where
  "reg_view i v = map (\<lambda>j. v ! reg_arg i j) [0..<8]"

lemma list8_cases:
  assumes "length v = 8"
  obtains a b c d e f g h where "v = [a, b, c, d, e, f, g, h]"
  using assms by (auto simp: numeral_eq_Suc length_Suc_conv)

lemma mod8_cases:
  obtains "(i::nat) mod 8 = 0" | "i mod 8 = 1" | "i mod 8 = 2" | "i mod 8 = 3"
    | "i mod 8 = 4" | "i mod 8 = 5" | "i mod 8 = 6" | "i mod 8 = 7"
  by linarith

lemma length_sha2_line [simp]: "length (sha2_line R v i w k) = length v"
  by (simp add: sha2_line_def split_def Let_def)

lemma reg_view_multiple: "length v = 8 \<Longrightarrow> n mod 8 = 0 \<Longrightarrow> reg_view n v = v"
  by (erule list8_cases) (simp add: reg_view_def reg_arg_def upt_8)

lemma length_fips_round [simp]: "length (fips_round S0 S1 v k w) = length v"
  by (cases "(S0, S1, v, k, w)" rule: fips_round.cases) (simp_all add: Let_def)

lemma length_foldl_fips_round [simp]:
  "length (foldl (\<lambda>v t. fips_round S0 S1 v (k t) (w t)) v ts) = length v"
  by (induction ts arbitrary: v) simp_all

lemma foldl_shift: "foldl (\<lambda>v i. f v (b + i)) v [0..<n] = foldl f v [b..<b + n]"
  by (induction n) simp_all

lemma keying_index:
  assumes "n < 16" "k < 16" and "\<And>i. i < 16 \<Longrightarrow> m ! i = (if i < n then w (b + 16 + i) else w (b + i))"
  shows "m ! ((n + k) mod 16) = w (b + n + k)"
proof (cases "n + k < 16")
  case True
  then show ?thesis using assms(3) [of "n + k"] by (simp add: add.assoc)
next
  case False
  then have "(n + k) mod 16 = n + k - 16" using assms(1,2) by (simp add: mod_if)
  moreover have "m ! (n + k - 16) = w (b + 16 + (n + k - 16))"
  proof -
    have "n + k - 16 < n" "n + k - 16 < 16" using assms(1,2) False by linarith+
    then show ?thesis using assms(3) by simp
  qed
  ultimately show ?thesis using False by (simp add: add.assoc)
qed

text \<open>A pair of macros computes a round and a schedule step of the standard.\<close>

locale sha2_macros =
  fixes R :: "'a::len word sha2_step" and K :: "'a word sha2_keying"
    and S0 S1 s0 s1 :: "'a word \<Rightarrow> 'a word"
  assumes R_eq: "R a b c d e f g h w k =
     (d + (h + S1 e + Ch e f g + k + w), (h + S1 e + Ch e f g + k + w) + (S0 a + Maj a b c))"
    and K_eq: "K x0 x1 x9 xe = s1 xe + x9 + s0 x1 + x0"
begin

lemma line_round:
  assumes "length v = 8"
  shows "reg_view (Suc i) (sha2_line R v i w k) = fips_round S0 S1 (reg_view i v) k w"
proof -
  obtain a b c d e f g h where v: "v = [a, b, c, d, e, f, g, h]"
    using assms by (rule list8_cases)
  show ?thesis
    by (cases i rule: mod8_cases)
      (simp_all add: v sha2_line_def reg_view_def reg_arg_def R_eq mod_Suc upt_8 Let_def)
qed

lemma foldl_line_rounds:
  assumes "length v = 8"
  shows "length (foldl (\<lambda>v i. sha2_line R v i (w i) (k i)) v [0..<n]) = 8
     \<and> reg_view n (foldl (\<lambda>v i. sha2_line R v i (w i) (k i)) v [0..<n])
       = foldl (\<lambda>v i. fips_round S0 S1 v (k i) (w i)) (reg_view 0 v) [0..<n]"
  by (induction n) (simp_all add: assms line_round)

lemma rounds_eq:
  assumes "length v = 8"
  shows "sha2_rounds R ck kp m v = foldl (\<lambda>v i. fips_round S0 S1 v (ck ! (kp + i)) (m ! i)) v [0..<16]"
    and "length (sha2_rounds R ck kp m v) = 8"
  using foldl_line_rounds [OF assms, of "\<lambda>i. m ! i" "\<lambda>i. ck ! (kp + i)" 16]
  by (auto simp: sha2_rounds_def reg_view_multiple assms simp del: upt_rec_numeral)

lemma schedule_step:
  "16 \<le> t \<Longrightarrow> fips_schedule s0 s1 m t
     = s1 (fips_schedule s0 s1 m (t - 2)) + fips_schedule s0 s1 m (t - 7)
       + s0 (fips_schedule s0 s1 m (t - 15)) + fips_schedule s0 s1 m (t - 16)"
  by (subst fips_schedule.simps) simp

lemma foldl_keying:
  assumes "length m = 16" "\<And>i. i < 16 \<Longrightarrow> m ! i = fips_schedule s0 s1 M (b + i)" "n \<le> 16"
  shows "length (foldl (keying_line K) m [0..<n]) = 16
     \<and> (\<forall>i<16. foldl (keying_line K) m [0..<n] ! i
          = (if i < n then fips_schedule s0 s1 M (b + 16 + i) else fips_schedule s0 s1 M (b + i)))"
  using assms(3)
proof (induction n)
  case 0
  then show ?case by (simp add: assms)
next
  case (Suc n)
  define m' where "m' = foldl (keying_line K) m [0..<n]"
  from Suc have len: "length m' = 16"
    and nth: "\<And>i. i < 16 \<Longrightarrow> m' ! i
      = (if i < n then fips_schedule s0 s1 M (b + 16 + i) else fips_schedule s0 s1 M (b + i))"
    by (simp_all add: m'_def)
  have idx: "m' ! ((n + k) mod 16) = fips_schedule s0 s1 M (b + n + k)" if "k < 16" for k
    using Suc.prems that by (intro keying_index nth) simp_all
  have "keying_line K m' n = m'[n := fips_schedule s0 s1 M (b + 16 + n)]"
    unfolding keying_line_def
    using nth [of n] Suc.prems idx [of 1] idx [of 9] idx [of 14] schedule_step [of "b + 16 + n" M]
    by (simp add: K_eq add.commute add.left_commute)
  with len nth Suc.prems show ?case
    by (auto simp: m'_def [symmetric] nth_list_update less_Suc_eq)
qed

lemma keying_all:
  assumes "length m = 16" "\<And>i. i < 16 \<Longrightarrow> m ! i = fips_schedule s0 s1 M (b + i)"
  shows "length (sha2_keying_all K m) = 16"
    and "i < 16 \<Longrightarrow> sha2_keying_all K m ! i = fips_schedule s0 s1 M (b + 16 + i)"
  using foldl_keying [OF assms, of 16] by (simp_all add: sha2_keying_all_def del: upt_rec_numeral)

lemma rounds_schedule:
  assumes "length v = 8" "\<And>i. i < 16 \<Longrightarrow> m ! i = fips_schedule s0 s1 M (kp + i)"
  shows "sha2_rounds R ck kp m v
     = foldl (\<lambda>v t. fips_round S0 S1 v (ck ! t) (fips_schedule s0 s1 M t)) v [kp..<kp + 16]"
proof -
  have "sha2_rounds R ck kp m v
      = foldl (\<lambda>v i. fips_round S0 S1 v (ck ! (kp + i)) (fips_schedule s0 s1 M (kp + i))) v [0..<16]"
    unfolding rounds_eq(1) [OF assms(1)]
    by (rule foldl_cong) (simp_all add: assms(2) del: upt_rec_numeral)
  also have "\<dots> = foldl (\<lambda>v t. fips_round S0 S1 v (ck ! t) (fips_schedule s0 s1 M t)) v [kp..<kp + 16]"
    by (rule foldl_shift)
  finally show ?thesis .
qed

lemma loop_from:
  assumes "length v = 8" "length m = 16" "\<And>i. i < 16 \<Longrightarrow> m ! i = fips_schedule s0 s1 M (kp + i)"
    "kp + 16 * n + 16 = N"
  shows "sha2_loop R K ck N kp m v
     = foldl (\<lambda>v t. fips_round S0 S1 v (ck ! t) (fips_schedule s0 s1 M t)) v [kp..<N]"
  using assms
proof (induction n arbitrary: kp m v)
  case 0
  then have N: "N = kp + 16" by simp
  show ?case
    unfolding N using rounds_schedule [OF "0.prems"(1,3), of ck]
    by (simp add: sha2_loop.simps [of R K ck "kp + 16" kp])
next
  case (Suc n)
  have v': "length (sha2_rounds R ck kp m v) = 8" by (rule rounds_eq(2)) fact
  have "sha2_loop R K ck N kp m v = sha2_loop R K ck N (kp + 16) (sha2_keying_all K m) (sha2_rounds R ck kp m v)"
  proof -
    have "\<not> kp \<ge> N - 16" using Suc.prems(4) by simp
    then show ?thesis by (simp add: sha2_loop.simps [of R K ck N kp] Let_def)
  qed
  also have "\<dots> = foldl (\<lambda>v t. fips_round S0 S1 v (ck ! t) (fips_schedule s0 s1 M t))
      (sha2_rounds R ck kp m v) [kp + 16..<N]"
    using Suc.prems keying_all [OF Suc.prems(2,3)] v' by (intro Suc.IH) simp_all
  also have "\<dots> = foldl (\<lambda>v t. fips_round S0 S1 v (ck ! t) (fips_schedule s0 s1 M t)) v
      ([kp..<kp + 16] @ [kp + 16..<N])"
    using Suc.prems by (simp add: rounds_schedule)
  also have "[kp..<kp + 16] @ [kp + 16..<N] = [kp..<N]"
    using Suc.prems(4) upt_add_eq_append [of kp "kp + 16" "N - (kp + 16)"] by simp
  finally show ?case .
qed

lemma loop_schedule:
  assumes "length v = 8" "length m = 16" "16 * n + 16 = N"
  shows "sha2_loop R K ck N 0 m v
     = foldl (\<lambda>v t. fips_round S0 S1 v (ck ! t) (fips_schedule s0 s1 m t)) v [0..<N]"
  by (rule loop_from [where n = n]) (simp_all add: assms fips_schedule.simps)

end

end
