(* ===== verification/Sha256.thy ===== *)
theory Sha256
  imports Sha2
begin

text \<open>
  SHA-256 of \<open>qudo-slhdsa/slhdsa-native/sha2_256.c\<close>, the hash below HMAC, the module integrity
  check and the power-on self-tests.  The first part translates the file: the macros
  \<open>STEP_SHA256_R\<close> and \<open>STEP_SHA256_K\<close>, the compression function with its sixteen unrolled
  steps over rotating registers, and the incremental interface
  \<open>init\<close>/\<open>update\<close>/\<open>final\<close>.  The second part is FIPS 180-4 written from the standard's
  equations; the third proves that the translated code computes it, for every way of
  cutting the message into \<open>update\<close> calls.

  The context \<open>sha2_256_t\<close> is modelled at the level of bytes: the C code reads and writes its
  words through \<open>rev8_be32\<close>, so on every host the eight state words and the sixteen block
  words are big-endian byte strings in memory.  Words 24 to 31 of \<open>s[8 + 24]\<close> are never
  accessed and are left out.
\<close>

section \<open>The code\<close>

definition ror32 :: "u32 \<Rightarrow> nat \<Rightarrow> u32" where
  "ror32 x n = drop_bit n x OR push_bit (32 - n) x"

definition STEP_SHA256_R ::
  "u32 \<Rightarrow> u32 \<Rightarrow> u32 \<Rightarrow> u32 \<Rightarrow> u32 \<Rightarrow> u32 \<Rightarrow> u32 \<Rightarrow> u32 \<Rightarrow> u32 \<Rightarrow> u32 \<Rightarrow> u32 \<times> u32" where
  "STEP_SHA256_R a b c d e f g h mi ki =
     (let h1 = h + ((g XOR (e AND (f XOR g))) + mi + ki
                    + (ror32 e 6 XOR ror32 e 11 XOR ror32 e 25));
          d1 = d + h1;
          h2 = h1 + ((((a OR c) AND b) OR (c AND a))
                     + (ror32 a 2 XOR ror32 a 13 XOR ror32 a 22))
      in (d1, h2))"

definition STEP_SHA256_K :: "u32 \<Rightarrow> u32 \<Rightarrow> u32 \<Rightarrow> u32 \<Rightarrow> u32" where
  "STEP_SHA256_K x0 x1 x9 xe =
     x0 + (x9 + (ror32 x1 7 XOR ror32 x1 18 XOR drop_bit 3 x1)
              + (ror32 xe 17 XOR ror32 xe 19 XOR drop_bit 10 xe))"

definition ck :: "u32 list" where
  "ck = [
      0x428A2F98, 0x71374491, 0xB5C0FBCF, 0xE9B5DBA5, 0x3956C25B, 0x59F111F1,
      0x923F82A4, 0xAB1C5ED5, 0xD807AA98, 0x12835B01, 0x243185BE, 0x550C7DC3,
      0x72BE5D74, 0x80DEB1FE, 0x9BDC06A7, 0xC19BF174, 0xE49B69C1, 0xEFBE4786,
      0x0FC19DC6, 0x240CA1CC, 0x2DE92C6F, 0x4A7484AA, 0x5CB0A9DC, 0x76F988DA,
      0x983E5152, 0xA831C66D, 0xB00327C8, 0xBF597FC7, 0xC6E00BF3, 0xD5A79147,
      0x06CA6351, 0x14292967, 0x27B70A85, 0x2E1B2138, 0x4D2C6DFC, 0x53380D13,
      0x650A7354, 0x766A0ABB, 0x81C2C92E, 0x92722C85, 0xA2BFE8A1, 0xA81A664B,
      0xC24B8B70, 0xC76C51A3, 0xD192E819, 0xD6990624, 0xF40E3585, 0x106AA070,
      0x19A4C116, 0x1E376C08, 0x2748774C, 0x34B0BCB5, 0x391C0CB3, 0x4ED8AA4A,
      0x5B9CCA4F, 0x682E6FF3, 0x748F82EE, 0x78A5636F, 0x84C87814, 0x8CC70208,
      0x90BEFFFA, 0xA4506CEB, 0xBEF9A3F7, 0xC67178F2]"

definition sha2_256_compress :: "bytes \<Rightarrow> bytes \<Rightarrow> bytes" where
  "sha2_256_compress h blk =
     (let sp = be32_words h; m = be32_words blk; v = sha2_loop STEP_SHA256_R STEP_SHA256_K ck 64 0 m sp
      in concat (map be32_bytes (map2 (+) sp v)))"

type_synonym sha2_256_t = md_state

definition sha2_256_h0 :: bytes where
  "sha2_256_h0 = [
      0x6A, 0x09, 0xE6, 0x67, 0xBB, 0x67, 0xAE, 0x85, 0x3C, 0x6E, 0xF3,
      0x72, 0xA5, 0x4F, 0xF5, 0x3A, 0x51, 0x0E, 0x52, 0x7F, 0x9B, 0x05,
      0x68, 0x8C, 0x1F, 0x83, 0xD9, 0xAB, 0x5B, 0xE0, 0xCD, 0x19]"

definition sha2_224_h0 :: bytes where
  "sha2_224_h0 = [
      0xC1, 0x05, 0x9E, 0xD8, 0x36, 0x7C, 0xD5, 0x07, 0x30, 0x70, 0xDD,
      0x17, 0xF7, 0x0E, 0x59, 0x39, 0xFF, 0xC0, 0x0B, 0x31, 0x68, 0x58,
      0x15, 0x11, 0x64, 0xF9, 0x8F, 0xA7, 0xBE, 0xFA, 0x4F, 0xA4]"

definition sha2_256_init :: "sha2_256_t \<Rightarrow> sha2_256_t" where
  "sha2_256_init sha = md_init_h0 sha sha2_256_h0"

definition sha2_224_init :: "sha2_256_t \<Rightarrow> sha2_256_t" where
  "sha2_224_init sha = md_init_h0 sha sha2_224_h0"

definition sha2_256_copy :: "sha2_256_t \<Rightarrow> sha2_256_t \<Rightarrow> sha2_256_t" where
  "sha2_256_copy dst src = md_copy dst src"

definition sha2_256_update :: "sha2_256_t \<Rightarrow> bytes \<Rightarrow> sha2_256_t" where
  "sha2_256_update sha m = md_update 64 sha2_256_compress sha m"

definition sha2_256_final_pad :: "sha2_256_t \<Rightarrow> sha2_256_t" where
  "sha2_256_final_pad sha = md_final_pad 64 56 sha2_256_compress sha"

definition sha2_256_final_len :: "sha2_256_t \<Rightarrow> nat \<Rightarrow> sha2_256_t \<times> bytes" where
  "sha2_256_final_len sha h_sz =
     (let sha1 = sha2_256_final_pad sha;
          sha2 = sha1\<lparr>hs := sha2_256_compress (hs sha1) (mp sha1)\<rparr>
      in (sha2, take h_sz (hs sha2)))"

text \<open>The single-call interfaces; \<open>sha\<close> is the uninitialised local context.\<close>

definition sha2_256 :: "sha2_256_t \<Rightarrow> bytes \<Rightarrow> bytes" where
  "sha2_256 sha m = snd (sha2_256_final_len (sha2_256_update (sha2_256_init sha) m) 32)"

definition sha2_224 :: "sha2_256_t \<Rightarrow> bytes \<Rightarrow> bytes" where
  "sha2_224 sha m = snd (sha2_256_final_len (sha2_256_update (sha2_224_init sha) m) 28)"

section \<open>FIPS 180-4\<close>

text \<open>The functions of section 4.1.2; the schedule and the rounds are in theory \<open>Sha2\<close>.\<close>

definition Sigma0 :: "u32 \<Rightarrow> u32" where
  "Sigma0 x = word_rotr 2 x XOR word_rotr 13 x XOR word_rotr 22 x"

definition Sigma1 :: "u32 \<Rightarrow> u32" where
  "Sigma1 x = word_rotr 6 x XOR word_rotr 11 x XOR word_rotr 25 x"

definition sigma0 :: "u32 \<Rightarrow> u32" where
  "sigma0 x = word_rotr 7 x XOR word_rotr 18 x XOR drop_bit 3 x"

definition sigma1 :: "u32 \<Rightarrow> u32" where
  "sigma1 x = word_rotr 17 x XOR word_rotr 19 x XOR drop_bit 10 x"

definition fips_compress :: "u32 list \<Rightarrow> u32 list \<Rightarrow> u32 list" where
  "fips_compress H m =
     map2 (+) H (foldl (\<lambda>v t. fips_round Sigma0 Sigma1 v (ck ! t) (fips_schedule sigma0 sigma1 m t)) H [0..<64])"

text \<open>Section 5.1.1: a one bit, the least number of zero bits, the length in bits.\<close>

definition fips_pad :: "bytes \<Rightarrow> bytes" where
  "fips_pad m =
     m @ 0x80 # replicate ((119 - length m mod 64) mod 64) 0 @ be64_bytes (of_nat (8 * length m))"

definition fips_sha2 :: "u32 list \<Rightarrow> bytes \<Rightarrow> bytes" where
  "fips_sha2 H0 m =
     concat (map be32_bytes (foldl (\<lambda>H b. fips_compress H (be32_words b)) H0 (blocks 64 (fips_pad m))))"

definition sha256_H0 :: "u32 list" where
  "sha256_H0 = [0x6a09e667, 0xbb67ae85, 0x3c6ef372, 0xa54ff53a, 0x510e527f, 0x9b05688c, 0x1f83d9ab, 0x5be0cd19]"

definition sha224_H0 :: "u32 list" where
  "sha224_H0 = [0xc1059ed8, 0x367cd507, 0x3070dd17, 0xf70e5939, 0xffc00b31, 0x68581511, 0x64f98fa7, 0xbefa4fa4]"

definition SHA256 :: "bytes \<Rightarrow> bytes" where
  "SHA256 m = fips_sha2 sha256_H0 m"

definition SHA224 :: "bytes \<Rightarrow> bytes" where
  "SHA224 m = take 28 (fips_sha2 sha224_H0 m)"

text \<open>
  Section 4.2.2 and 5.3.3 define the constants: the first 32 bits of the fractional part of the
  cube roots of the first 64 primes, and of the square roots of the first 8.
  \<open>root_frac32 k p w\<close> states it over the naturals: with \<open>a\<close> the integer part of the \<open>k\<close>-th root
  of \<open>p\<close>, the number \<open>x = a * 2 ^ 32 + w\<close> is the \<open>k\<close>-th root of \<open>p * 2 ^ (32 * k)\<close>
  rounded down.
\<close>

definition primes64 :: "nat list" where
  "primes64 =
    [2, 3, 5, 7, 11, 13, 17, 19, 23, 29, 31, 37, 41, 43, 47, 53,
     59, 61, 67, 71, 73, 79, 83, 89, 97, 101, 103, 107, 109, 113, 127, 131,
     137, 139, 149, 151, 157, 163, 167, 173, 179, 181, 191, 193, 197, 199, 211, 223,
     227, 229, 233, 239, 241, 251, 257, 263, 269, 271, 277, 281, 283, 293, 307, 311]"

definition root_frac32 :: "nat \<Rightarrow> nat \<Rightarrow> u32 \<Rightarrow> bool" where
  "root_frac32 k p w \<longleftrightarrow>
     (let x = length (filter (\<lambda>a. a ^ k \<le> p) [1, 2, 3, 4, 5, 6]) * 2 ^ 32 + unat w
      in x ^ k \<le> p * 2 ^ (32 * k) \<and> p * 2 ^ (32 * k) < (x + 1) ^ k)"

section \<open>The compression function\<close>

lemma ror32_word_rotr:
  assumes "0 < n" "n < 32"
  shows "ror32 x n = word_rotr n x"
proof (rule bit_word_eqI)
  fix k assume "k < LENGTH(32)"
  then have k: "k < 32" by simp
  show "bit (ror32 x n) k = bit (word_rotr n x) k"
  proof (cases "k + n < 32")
    case True
    then have "\<not> 32 - n \<le> k" by linarith
    with True k show ?thesis
      by (simp add: ror32_def bit_word_rotr_iff bit_or_iff bit_drop_bit_eq bit_push_bit_iff add.commute)
  next
    case False
    with assms k have "(k + n) mod 32 = k + n - 32" "k - (32 - n) = k + n - 32"
      by (simp_all add: mod_if)
    moreover have "32 - n \<le> k" using False by linarith
    moreover have "\<not> bit x (n + k)" using False bit_imp_le_length [of x "n + k"] by auto
    ultimately show ?thesis using False k assms
      by (simp add: ror32_def bit_word_rotr_iff bit_or_iff bit_drop_bit_eq bit_push_bit_iff)
  qed
qed

lemma STEP_SHA256_R_eq:
  "STEP_SHA256_R a b c d e f g h w k =
     (d + (h + Sigma1 e + Ch e f g + k + w),
      (h + Sigma1 e + Ch e f g + k + w) + (Sigma0 a + Maj a b c))"
  by (simp add: STEP_SHA256_R_def Ch_code Maj_code Let_def Sigma0_def Sigma1_def ror32_word_rotr
      algebra_simps)

lemma STEP_SHA256_K_eq: "STEP_SHA256_K x0 x1 x9 xe = sigma1 xe + x9 + sigma0 x1 + x0"
  by (simp add: STEP_SHA256_K_def sigma0_def sigma1_def ror32_word_rotr algebra_simps)

interpretation sha256m: sha2_macros STEP_SHA256_R STEP_SHA256_K Sigma0 Sigma1 sigma0 sigma1
  by unfold_locales (rule STEP_SHA256_R_eq, rule STEP_SHA256_K_eq)

lemma length_fips_compress [simp]: "length (fips_compress H m) = length H"
  by (simp add: fips_compress_def)

lemma compress_fips:
  assumes "length h = 32" "length blk = 64"
  shows "sha2_256_compress h blk
     = concat (map be32_bytes (fips_compress (be32_words h) (be32_words blk)))"
  using sha256m.loop_schedule [of "be32_words h" "be32_words blk" 3 64 ck] assms
  by (simp add: sha2_256_compress_def fips_compress_def Let_def length_be32_words)

section \<open>The incremental interface\<close>

interpretation sha256s: md_stream 64 56 sha2_256_compress
  by unfold_locales simp_all

abbreviation sha_rep :: "bytes \<Rightarrow> sha2_256_t \<Rightarrow> bytes \<Rightarrow> bool" where
  "sha_rep \<equiv> sha256s.rep"

lemma fips_pad_md: "fips_pad m = md_pad 64 56 m"
  by (simp add: fips_pad_def md_pad_def)

lemma sha2_256_final_len_md: "sha2_256_final_len sha k = md_final_len 64 56 sha2_256_compress sha k"
  by (simp add: sha2_256_final_len_def md_final_len_def sha2_256_final_pad_def)

lemma foldl_compress_fips:
  assumes "length H = 8" "\<forall>b\<in>set bs. length b = 64"
  shows "foldl sha2_256_compress (concat (map be32_bytes H)) bs
     = concat (map be32_bytes (foldl (\<lambda>H b. fips_compress H (be32_words b)) H bs))"
  using assms
  by (induction bs arbitrary: H)
    (simp_all add: compress_fips length_concat_be32_bytes be32_words_concat)

lemma sha_rep_final:
  assumes "sha_rep (concat (map be32_bytes H0)) sha m" "length H0 = 8"
  shows "snd (sha2_256_final_len sha n) = take n (fips_sha2 H0 m)"
proof -
  have "foldl sha2_256_compress (concat (map be32_bytes H0)) (blocks 64 (fips_pad m)) = fips_sha2 H0 m"
    unfolding fips_sha2_def by (rule foldl_compress_fips) (auto simp: assms(2) dest: sha256s.set_blocks)
  then show ?thesis
    by (simp add: sha2_256_final_len_md sha256s.rep_final [OF assms(1)] fips_pad_md)
qed

lemma length_fips_sha2: "length H0 = 8 \<Longrightarrow> length (fips_sha2 H0 m) = 32"
proof -
  have "length (foldl (\<lambda>H b. fips_compress H (be32_words b)) H0 bs) = length H0" for bs
    by (induction bs arbitrary: H0) simp_all
  then show "length H0 = 8 \<Longrightarrow> length (fips_sha2 H0 m) = 32"
    by (simp add: fips_sha2_def length_concat_be32_bytes)
qed

lemma h0_words:
  "sha2_256_h0 = concat (map be32_bytes sha256_H0)"
  "sha2_224_h0 = concat (map be32_bytes sha224_H0)"
  by (simp_all add: sha2_256_h0_def sha256_H0_def sha2_224_h0_def sha224_H0_def be32_bytes_def byte_of_def)

lemma length_H0 [simp]: "length sha256_H0 = 8" "length sha224_H0 = 8"
  by (simp_all add: sha256_H0_def sha224_H0_def)

lemma length_SHA256 [simp]: "length (SHA256 m) = 32"
  by (simp add: SHA256_def length_fips_sha2)

lemma length_SHA224 [simp]: "length (SHA224 m) = 28"
  by (simp add: SHA224_def length_fips_sha2)

section \<open>The contract of an incremental hash\<close>

text \<open>
  What the clients of the hash (the HMAC, the integrity test) rely on: a context obtained by
  \<open>ini\<close> represents the empty message, \<open>upd\<close> appends to the message represented, and \<open>fin\<close>
  returns the hash \<open>H\<close> of it.  \<open>fresh\<close> is the type invariant of an uninitialised context.
\<close>

locale stream_hash =
  fixes ini :: "'c \<Rightarrow> 'c"
    and upd :: "'c \<Rightarrow> bytes \<Rightarrow> 'c"
    and fin :: "'c \<Rightarrow> bytes"
    and fresh :: "'c \<Rightarrow> bool"
    and rep :: "'c \<Rightarrow> bytes \<Rightarrow> bool"
    and H :: "bytes \<Rightarrow> bytes"
  assumes rep_ini: "fresh c \<Longrightarrow> rep (ini c) []"
    and rep_upd: "rep c m \<Longrightarrow> rep (upd c x) (m @ x)"
    and rep_fin: "rep c m \<Longrightarrow> fin c = H m"
begin

lemma rep_chunks: "rep c m \<Longrightarrow> rep (foldl upd c xs) (m @ concat xs)"
proof (induction xs arbitrary: c m)
  case (Cons x xs)
  from Cons.IH [OF rep_upd [OF Cons.prems]] show ?case by simp
qed simp

lemma fin_chunks: "fresh c \<Longrightarrow> fin (foldl upd (ini c) xs) = H (concat xs)"
  using rep_fin [OF rep_chunks [OF rep_ini, of c xs]] by simp

lemma one_shot: "fresh c \<Longrightarrow> fin (upd (ini c) x) = H x"
  using fin_chunks [of c "[x]"] by simp

lemma rep_prefix: "fresh c \<Longrightarrow> rep (upd (ini c) x) x"
  using rep_upd [OF rep_ini, of c x] by simp

lemma nested: "rep ci a \<Longrightarrow> rep co b \<Longrightarrow> fin (upd co (fin ci)) = H (b @ H a)"
  using rep_fin rep_upd by metis

end

abbreviation sha_fresh :: "sha2_256_t \<Rightarrow> bool" where
  "sha_fresh sha \<equiv> length (mp sha) = 64"

definition sha256_fin :: "sha2_256_t \<Rightarrow> bytes" where
  "sha256_fin sha = snd (sha2_256_final_len sha 32)"

definition sha224_fin :: "sha2_256_t \<Rightarrow> bytes" where
  "sha224_fin sha = snd (sha2_256_final_len sha 28)"

interpretation sha256: stream_hash sha2_256_init sha2_256_update sha256_fin sha_fresh
  "sha_rep sha2_256_h0" SHA256
  by unfold_locales
    (simp_all add: sha2_256_init_def sha2_256_update_def sha256s.rep_init sha256s.rep_update sha256_fin_def sha_rep_final SHA256_def
      h0_words length_fips_sha2)

interpretation sha224: stream_hash sha2_224_init sha2_256_update sha224_fin sha_fresh
  "sha_rep sha2_224_h0" SHA224
  by unfold_locales
    (simp_all add: sha2_224_init_def sha2_256_update_def sha256s.rep_init sha256s.rep_update sha224_fin_def sha_rep_final SHA224_def
      h0_words)

section \<open>Properties\<close>

text \<open>
  C6: however a message is cut into calls of \<open>sha2_256_update\<close>, empty ones included, the digest
  that \<open>sha2_256_final\<close> writes is SHA-256 of FIPS 180-4 of the whole message, whatever the
  context held before \<open>sha2_256_init\<close>.
\<close>

theorem sha2_256_streaming:
  assumes "length (mp sha) = 64"
  shows "snd (sha2_256_final_len (foldl sha2_256_update (sha2_256_init sha) xs) 32) = SHA256 (concat xs)"
  using sha256.fin_chunks [OF assms, of xs] by (simp add: sha256_fin_def)

theorem sha2_256_streaming_witness:
  "snd (sha2_256_final_len (foldl sha2_256_update
      (sha2_256_init \<lparr>hs = [], mp = replicate 64 7, sha_i = 5, sha_len = 9\<rparr>) [[0x61], [], [0x62, 0x63]]) 32)
    = SHA256 [0x61, 0x62, 0x63]"
  using sha2_256_streaming [of "\<lparr>hs = [], mp = replicate 64 7, sha_i = 5, sha_len = 9\<rparr>" "[[0x61], [], [0x62, 0x63]]"]
  by simp

text \<open>
  The unrolled compression function, which extends the message schedule in place in sixteen
  words and rotates the roles of the registers instead of moving them, computes the compression
  function of FIPS 180-4 section 6.2.2 on big-endian words.
\<close>

theorem sha2_256_compress_is_fips:
  assumes "length h = 32" "length blk = 64"
  shows "sha2_256_compress h blk
     = concat (map be32_bytes (fips_compress (be32_words h) (be32_words blk)))"
  by (rule compress_fips [OF assms])

theorem sha2_256_compress_is_fips_witness:
  "sha2_256_compress sha2_256_h0 (replicate 64 1)
     = concat (map be32_bytes (fips_compress (be32_words sha2_256_h0) (be32_words (replicate 64 1))))"
  by (rule sha2_256_compress_is_fips) (simp_all add: sha2_256_h0_def)

lemma sha2_224_is_fips:
  assumes "length (mp sha) = 64"
  shows "sha2_224 sha m = SHA224 m"
  using sha224.one_shot [OF assms, of m] by (simp add: sha2_224_def sha224_fin_def)

end
