(* ===== verification/Hmac.thy ===== *)
theory Hmac
  imports Sha256
begin

text \<open>
  HMAC-SHA-256 as \<open>src/qudo-pqc-lib/src/fips/qudo_fips_hmac.c\<close> computes it: the context record,
  \<open>init\<close>, \<open>update\<close>, \<open>final\<close> and the single-call interface, with NULL pointers as
  \<^const>\<open>None\<close>.  The reference is the definition of RFC 2104 / FIPS 198-1 over
  \<^const>\<open>SHA256\<close>; a keyed context is shown to be an incremental hash in the sense of the
  locale \<open>stream_hash\<close>.
\<close>

record qudo_fips_hmac_ctx_t =
  i_ctx :: sha2_256_t
  o_ctx :: sha2_256_t
  md_ctx :: sha2_256_t
  block_size :: nat
  digest_size :: nat
  hmac_initialized :: bool

text \<open>What \<open>qudo_secure_clear\<close> leaves of a context.\<close>

definition sha_cleared :: sha2_256_t where
  "sha_cleared = \<lparr>hs = replicate 32 0, mp = replicate 64 0, sha_i = 0, sha_len = 0\<rparr>"

definition hmac_cleared :: qudo_fips_hmac_ctx_t where
  "hmac_cleared = \<lparr>i_ctx = sha_cleared, o_ctx = sha_cleared, md_ctx = sha_cleared,
     block_size = 0, digest_size = 0, hmac_initialized = False\<rparr>"

text \<open>
  The key block \<open>keytmp[0..63]\<close>; \<open>sha0\<close> is the context local to the call of \<open>sha2_256\<close>.
  Both branches write a prefix of the buffer and the \<open>memset\<close> clears the rest of the block.
\<close>

definition hmac_keytmp :: "sha2_256_t \<Rightarrow> bytes \<Rightarrow> bytes" where
  "hmac_keytmp sha0 key =
     (let k = (if length key > 64 then sha2_256 sha0 key else key)
      in if length k \<noteq> 64 then k @ replicate (64 - length k) 0 else k)"

definition qudo_fips_hmac_init ::
  "sha2_256_t \<Rightarrow> qudo_fips_hmac_ctx_t option \<Rightarrow> bytes option \<Rightarrow> qudo_fips_hmac_ctx_t option" where
  "qudo_fips_hmac_init sha0 ctx key =
     (case ctx of None \<Rightarrow> None
      | Some c \<Rightarrow>
        (case key of None \<Rightarrow> Some (c\<lparr>hmac_initialized := False\<rparr>)
         | Some k \<Rightarrow>
           (let keytmp = hmac_keytmp sha0 k;
                i = sha2_256_update (sha2_256_init (i_ctx c)) (map ((XOR) 0x36) keytmp);
                o' = sha2_256_update (sha2_256_init (o_ctx c)) (map ((XOR) 0x5c) keytmp)
            in Some (c\<lparr>block_size := 64, digest_size := 32, i_ctx := i, o_ctx := o', md_ctx := i,
                       hmac_initialized := True\<rparr>))))"

definition qudo_fips_hmac_update ::
  "qudo_fips_hmac_ctx_t option \<Rightarrow> bytes \<Rightarrow> qudo_fips_hmac_ctx_t option" where
  "qudo_fips_hmac_update ctx data =
     (case ctx of None \<Rightarrow> None
      | Some c \<Rightarrow> if hmac_initialized c then Some (c\<lparr>md_ctx := sha2_256_update (md_ctx c) data\<rparr>)
                 else Some c)"

text \<open>The second component is the tag written to \<open>out\<close>, \<^const>\<open>None\<close> when \<open>out\<close> is left alone.\<close>

definition qudo_fips_hmac_final ::
  "qudo_fips_hmac_ctx_t option \<Rightarrow> qudo_fips_hmac_ctx_t option \<times> bytes option" where
  "qudo_fips_hmac_final ctx =
     (case ctx of None \<Rightarrow> (None, None)
      | Some c \<Rightarrow>
        if hmac_initialized c
        then (let buf = snd (sha2_256_final_len (md_ctx c) 32);
                  md = sha2_256_update (o_ctx c) (take (digest_size c) buf);
                  out = snd (sha2_256_final_len md 32)
              in (Some hmac_cleared, Some out))
        else (Some c, None))"

text \<open>The single-call interface; \<open>c\<close> is the uninitialised local context.\<close>

definition qudo_fips_hmac_sha256 ::
  "sha2_256_t \<Rightarrow> qudo_fips_hmac_ctx_t \<Rightarrow> bytes option \<Rightarrow> bytes \<Rightarrow> bytes option" where
  "qudo_fips_hmac_sha256 sha0 c key data =
     snd (qudo_fips_hmac_final (qudo_fips_hmac_update (qudo_fips_hmac_init sha0 (Some c) key) data))"

section \<open>RFC 2104\<close>

definition hmac_K0 :: "bytes \<Rightarrow> bytes" where
  "hmac_K0 key = (let k = (if length key > 64 then SHA256 key else key) in k @ replicate (64 - length k) 0)"

definition HMAC_SHA256 :: "bytes \<Rightarrow> bytes \<Rightarrow> bytes" where
  "HMAC_SHA256 key m =
     SHA256 (xor_bytes (hmac_K0 key) (replicate 64 0x5c)
       @ SHA256 (xor_bytes (hmac_K0 key) (replicate 64 0x36) @ m))"

section \<open>A keyed context is an incremental hash\<close>

definition hmac_fresh :: "qudo_fips_hmac_ctx_t \<Rightarrow> bool" where
  "hmac_fresh c \<longleftrightarrow> sha_fresh (i_ctx c) \<and> sha_fresh (o_ctx c) \<and> sha_fresh (md_ctx c)"

definition hmac_rep :: "bytes \<Rightarrow> qudo_fips_hmac_ctx_t option \<Rightarrow> bytes \<Rightarrow> bool" where
  "hmac_rep key ctx m \<longleftrightarrow>
     (case ctx of None \<Rightarrow> False
      | Some c \<Rightarrow> hmac_initialized c \<and> digest_size c = 32
         \<and> sha_rep sha2_256_h0 (md_ctx c) (xor_bytes (hmac_K0 key) (replicate 64 0x36) @ m)
         \<and> sha_rep sha2_256_h0 (o_ctx c) (xor_bytes (hmac_K0 key) (replicate 64 0x5c)))"

lemma hmac_keytmp_K0: "sha_fresh sha0 \<Longrightarrow> hmac_keytmp sha0 key = hmac_K0 key"
  using sha256.one_shot [of sha0 key]
  by (auto simp: hmac_keytmp_def hmac_K0_def sha2_256_def sha256_fin_def Let_def)

lemma length_hmac_K0 [simp]: "length (hmac_K0 key) = 64"
  by (simp add: hmac_K0_def Let_def)

lemma map_xor_pad: "length xs = 64 \<Longrightarrow> map ((XOR) w) xs = xor_bytes xs (replicate 64 w)"
  by (rule nth_equalityI) (simp_all add: nth_xor_bytes xor.commute)

lemma hmac_rep_init:
  "sha_fresh sha0 \<Longrightarrow> hmac_fresh c \<Longrightarrow> hmac_rep key (qudo_fips_hmac_init sha0 (Some c) (Some key)) []"
  by (simp add: hmac_rep_def qudo_fips_hmac_init_def hmac_keytmp_K0 map_xor_pad hmac_fresh_def
      sha256.rep_prefix Let_def)

lemma hmac_rep_update:
  "hmac_rep key ctx m \<Longrightarrow> hmac_rep key (qudo_fips_hmac_update ctx x) (m @ x)"
  using sha256.rep_upd [of _ "xor_bytes (hmac_K0 key) (replicate 64 0x36) @ m" x]
  by (auto simp: hmac_rep_def qudo_fips_hmac_update_def split: option.splits)

lemma hmac_rep_final:
  assumes "hmac_rep key ctx m"
  shows "qudo_fips_hmac_final ctx = (Some hmac_cleared, Some (HMAC_SHA256 key m))"
proof -
  obtain c where c: "ctx = Some c" and i: "hmac_initialized c" "digest_size c = 32"
    and r: "sha_rep sha2_256_h0 (md_ctx c) (xor_bytes (hmac_K0 key) (replicate 64 0x36) @ m)"
           "sha_rep sha2_256_h0 (o_ctx c) (xor_bytes (hmac_K0 key) (replicate 64 0x5c))"
    using assms by (auto simp: hmac_rep_def split: option.splits)
  have "length (sha256_fin (md_ctx c)) = 32" by (simp add: sha256.rep_fin [OF r(1)])
  then show ?thesis using sha256.nested [OF r] i
    by (simp add: qudo_fips_hmac_final_def c Let_def HMAC_SHA256_def sha256_fin_def)
qed

definition hmac_fin :: "qudo_fips_hmac_ctx_t option \<Rightarrow> bytes" where
  "hmac_fin ctx = (case snd (qudo_fips_hmac_final ctx) of None \<Rightarrow> [] | Some out \<Rightarrow> out)"

definition hmac_ini :: "sha2_256_t \<Rightarrow> bytes \<Rightarrow> qudo_fips_hmac_ctx_t option \<Rightarrow> qudo_fips_hmac_ctx_t option" where
  "hmac_ini sha0 key ctx = qudo_fips_hmac_init sha0 ctx (Some key)"

definition hmac_ready :: "sha2_256_t \<Rightarrow> qudo_fips_hmac_ctx_t option \<Rightarrow> bool" where
  "hmac_ready sha0 ctx \<longleftrightarrow> sha_fresh sha0 \<and> (case ctx of None \<Rightarrow> False | Some c \<Rightarrow> hmac_fresh c)"

interpretation hmac: stream_hash "hmac_ini sha0 key" qudo_fips_hmac_update hmac_fin "hmac_ready sha0"
  "hmac_rep key" "HMAC_SHA256 key" for sha0 key
  by unfold_locales
    (auto simp: hmac_ini_def hmac_ready_def hmac_rep_init hmac_rep_update hmac_fin_def hmac_rep_final
      split: option.splits)

lemma hmac_sha256_eq:
  assumes "sha_fresh sha0" "hmac_fresh c"
  shows "qudo_fips_hmac_sha256 sha0 c (Some key) data = Some (HMAC_SHA256 key data)"
  using hmac_rep_final [OF hmac_rep_update [OF hmac_rep_init [OF assms]]]
  by (simp add: qudo_fips_hmac_sha256_def)

lemma length_HMAC_SHA256 [simp]: "length (HMAC_SHA256 key m) = 32"
  by (simp add: HMAC_SHA256_def)

section \<open>Properties\<close>

text \<open>
  C10: after \<open>qudo_fips_hmac_init\<close> with any key, shorter or longer than a block, any sequence of
  updates followed by \<open>qudo_fips_hmac_final\<close> writes the HMAC-SHA-256 of RFC 2104 of the
  concatenated data, and the context is left cleared.
\<close>

theorem hmac_streaming:
  assumes "length (mp sha0) = 64" "hmac_fresh c"
  shows "qudo_fips_hmac_final (foldl qudo_fips_hmac_update (qudo_fips_hmac_init sha0 (Some c) (Some key)) xs)
    = (Some hmac_cleared, Some (HMAC_SHA256 key (concat xs)))"
  using hmac_rep_final [OF hmac.rep_chunks [OF hmac_rep_init [OF assms]]] by simp

theorem hmac_streaming_witness:
  "qudo_fips_hmac_final (foldl qudo_fips_hmac_update
      (qudo_fips_hmac_init sha_cleared (Some hmac_cleared) (Some (replicate 70 3))) [[1], [2]])
    = (Some hmac_cleared, Some (HMAC_SHA256 (replicate 70 3) (concat [[1], [2]])))"
  by (rule hmac_streaming) (simp_all add: hmac_fresh_def hmac_cleared_def sha_cleared_def)

text \<open>
  A context that was never keyed, or that was keyed with a NULL key, or whose tag was already
  taken, is left unchanged by \<open>update\<close> and \<open>final\<close>, and no tag is written.
\<close>

theorem hmac_uninitialised:
  assumes "\<not> hmac_initialized c"
  shows "qudo_fips_hmac_update (Some c) data = Some c \<and> qudo_fips_hmac_final (Some c) = (Some c, None)
    \<and> qudo_fips_hmac_sha256 sha0 c' None data = None \<and> \<not> hmac_initialized hmac_cleared"
  using assms
  by (simp add: qudo_fips_hmac_update_def qudo_fips_hmac_final_def qudo_fips_hmac_sha256_def
      qudo_fips_hmac_init_def hmac_cleared_def)

theorem hmac_uninitialised_witness:
  "qudo_fips_hmac_update (Some hmac_cleared) [1] = Some hmac_cleared
    \<and> qudo_fips_hmac_final (Some hmac_cleared) = (Some hmac_cleared, None)"
  using hmac_uninitialised [of hmac_cleared "[1]" sha_cleared hmac_cleared] by (simp add: hmac_cleared_def)

end
