(* ===== verification/Sha512.thy ===== *)
theory Sha512
  imports Sha256
begin

text \<open>
  SHA-384, SHA-512, SHA-512/224 and SHA-512/256 of
  \<open>src/qudo-pqc-lib/qudo-slhdsa/slhdsa-native/sha2_512.c\<close>, over the interface of theory \<open>Sha2\<close>, and
  the functions of FIPS 180-4.  As for SHA-256 the words of a context are big-endian byte strings in
  memory; the 64-bit length of the code fills the lower half of the 128-bit length field.
\<close>

section \<open>The code\<close>

definition ror64 :: "u64 \<Rightarrow> nat \<Rightarrow> u64" where
  "ror64 x n = drop_bit n x OR push_bit (64 - n) x"

definition STEP_SHA512_R :: "u64 sha2_step" where
  "STEP_SHA512_R a b c d e f g h mi ki =
     (let h1 = h + ((g XOR (e AND (f XOR g))) + mi + ki
                    + (ror64 e 14 XOR ror64 e 18 XOR ror64 e 41));
          d1 = d + h1;
          h2 = h1 + ((((a OR c) AND b) OR (c AND a))
                     + (ror64 a 28 XOR ror64 a 34 XOR ror64 a 39))
      in (d1, h2))"

definition STEP_SHA512_K :: "u64 sha2_keying" where
  "STEP_SHA512_K x0 x1 x9 xe =
     x0 + (x9 + (ror64 x1 1 XOR ror64 x1 8 XOR drop_bit 7 x1)
              + (ror64 xe 19 XOR ror64 xe 61 XOR drop_bit 6 xe))"

definition ck512 :: "u64 list" where
  "ck512 = [
      0x428A2F98D728AE22, 0x7137449123EF65CD, 0xB5C0FBCFEC4D3B2F, 0xE9B5DBA58189DBBC,
      0x3956C25BF348B538, 0x59F111F1B605D019, 0x923F82A4AF194F9B, 0xAB1C5ED5DA6D8118,
      0xD807AA98A3030242, 0x12835B0145706FBE, 0x243185BE4EE4B28C, 0x550C7DC3D5FFB4E2,
      0x72BE5D74F27B896F, 0x80DEB1FE3B1696B1, 0x9BDC06A725C71235, 0xC19BF174CF692694,
      0xE49B69C19EF14AD2, 0xEFBE4786384F25E3, 0x0FC19DC68B8CD5B5, 0x240CA1CC77AC9C65,
      0x2DE92C6F592B0275, 0x4A7484AA6EA6E483, 0x5CB0A9DCBD41FBD4, 0x76F988DA831153B5,
      0x983E5152EE66DFAB, 0xA831C66D2DB43210, 0xB00327C898FB213F, 0xBF597FC7BEEF0EE4,
      0xC6E00BF33DA88FC2, 0xD5A79147930AA725, 0x06CA6351E003826F, 0x142929670A0E6E70,
      0x27B70A8546D22FFC, 0x2E1B21385C26C926, 0x4D2C6DFC5AC42AED, 0x53380D139D95B3DF,
      0x650A73548BAF63DE, 0x766A0ABB3C77B2A8, 0x81C2C92E47EDAEE6, 0x92722C851482353B,
      0xA2BFE8A14CF10364, 0xA81A664BBC423001, 0xC24B8B70D0F89791, 0xC76C51A30654BE30,
      0xD192E819D6EF5218, 0xD69906245565A910, 0xF40E35855771202A, 0x106AA07032BBD1B8,
      0x19A4C116B8D2D0C8, 0x1E376C085141AB53, 0x2748774CDF8EEB99, 0x34B0BCB5E19B48A8,
      0x391C0CB3C5C95A63, 0x4ED8AA4AE3418ACB, 0x5B9CCA4F7763E373, 0x682E6FF3D6B2B8A3,
      0x748F82EE5DEFB2FC, 0x78A5636F43172F60, 0x84C87814A1F0AB72, 0x8CC702081A6439EC,
      0x90BEFFFA23631E28, 0xA4506CEBDE82BDE9, 0xBEF9A3F7B2C67915, 0xC67178F2E372532B,
      0xCA273ECEEA26619C, 0xD186B8C721C0C207, 0xEADA7DD6CDE0EB1E, 0xF57D4F7FEE6ED178,
      0x06F067AA72176FBA, 0x0A637DC5A2C898A6, 0x113F9804BEF90DAE, 0x1B710B35131C471B,
      0x28DB77F523047D84, 0x32CAAB7B40C72493, 0x3C9EBE0A15C9BEBC, 0x431D67C49C100D4C,
      0x4CC5D4BECB3E42B6, 0x597F299CFC657E2A, 0x5FCB6FAB3AD6FAEC, 0x6C44198C4A475817]"

definition be64_words :: "bytes \<Rightarrow> u64 list" where
  "be64_words b = map (\<lambda>i. le_word (rev (take 8 (drop (8 * i) b)))) [0..<length b div 8]"

definition sha2_512_compress :: "bytes \<Rightarrow> bytes \<Rightarrow> bytes" where
  "sha2_512_compress h blk =
     (let sp = be64_words h; m = be64_words blk; v = sha2_loop STEP_SHA512_R STEP_SHA512_K ck512 80 0 m sp
      in concat (map be64_bytes (map2 (+) sp v)))"

type_synonym sha2_512_t = md_state

definition sha2_512_h0 :: bytes where
  "sha2_512_h0 = [
      0x6A, 0x09, 0xE6, 0x67, 0xF3, 0xBC, 0xC9, 0x08, 0xBB, 0x67, 0xAE,
      0x85, 0x84, 0xCA, 0xA7, 0x3B, 0x3C, 0x6E, 0xF3, 0x72, 0xFE, 0x94,
      0xF8, 0x2B, 0xA5, 0x4F, 0xF5, 0x3A, 0x5F, 0x1D, 0x36, 0xF1, 0x51,
      0x0E, 0x52, 0x7F, 0xAD, 0xE6, 0x82, 0xD1, 0x9B, 0x05, 0x68, 0x8C,
      0x2B, 0x3E, 0x6C, 0x1F, 0x1F, 0x83, 0xD9, 0xAB, 0xFB, 0x41, 0xBD,
      0x6B, 0x5B, 0xE0, 0xCD, 0x19, 0x13, 0x7E, 0x21, 0x79]"

definition sha2_384_h0 :: bytes where
  "sha2_384_h0 = [
      0xCB, 0xBB, 0x9D, 0x5D, 0xC1, 0x05, 0x9E, 0xD8, 0x62, 0x9A, 0x29,
      0x2A, 0x36, 0x7C, 0xD5, 0x07, 0x91, 0x59, 0x01, 0x5A, 0x30, 0x70,
      0xDD, 0x17, 0x15, 0x2F, 0xEC, 0xD8, 0xF7, 0x0E, 0x59, 0x39, 0x67,
      0x33, 0x26, 0x67, 0xFF, 0xC0, 0x0B, 0x31, 0x8E, 0xB4, 0x4A, 0x87,
      0x68, 0x58, 0x15, 0x11, 0xDB, 0x0C, 0x2E, 0x0D, 0x64, 0xF9, 0x8F,
      0xA7, 0x47, 0xB5, 0x48, 0x1D, 0xBE, 0xFA, 0x4F, 0xA4]"

definition sha2_512_224_h0 :: bytes where
  "sha2_512_224_h0 = [
      0x8C, 0x3D, 0x37, 0xC8, 0x19, 0x54, 0x4D, 0xA2, 0x73, 0xE1, 0x99,
      0x66, 0x89, 0xDC, 0xD4, 0xD6, 0x1D, 0xFA, 0xB7, 0xAE, 0x32, 0xFF,
      0x9C, 0x82, 0x67, 0x9D, 0xD5, 0x14, 0x58, 0x2F, 0x9F, 0xCF, 0x0F,
      0x6D, 0x2B, 0x69, 0x7B, 0xD4, 0x4D, 0xA8, 0x77, 0xE3, 0x6F, 0x73,
      0x04, 0xC4, 0x89, 0x42, 0x3F, 0x9D, 0x85, 0xA8, 0x6A, 0x1D, 0x36,
      0xC8, 0x11, 0x12, 0xE6, 0xAD, 0x91, 0xD6, 0x92, 0xA1]"

definition sha2_512_256_h0 :: bytes where
  "sha2_512_256_h0 = [
      0x22, 0x31, 0x21, 0x94, 0xFC, 0x2B, 0xF7, 0x2C, 0x9F, 0x55, 0x5F,
      0xA3, 0xC8, 0x4C, 0x64, 0xC2, 0x23, 0x93, 0xB8, 0x6B, 0x6F, 0x53,
      0xB1, 0x51, 0x96, 0x38, 0x77, 0x19, 0x59, 0x40, 0xEA, 0xBD, 0x96,
      0x28, 0x3E, 0xE2, 0xA8, 0x8E, 0xFF, 0xE3, 0xBE, 0x5E, 0x1E, 0x25,
      0x53, 0x86, 0x39, 0x92, 0x2B, 0x01, 0x99, 0xFC, 0x2C, 0x85, 0xB8,
      0xAA, 0x0E, 0xB7, 0x2D, 0xDC, 0x81, 0xC5, 0x2C, 0xA2]"

definition sha2_512_init :: "sha2_512_t \<Rightarrow> sha2_512_t" where
  "sha2_512_init sha = md_init_h0 sha sha2_512_h0"

definition sha2_384_init :: "sha2_512_t \<Rightarrow> sha2_512_t" where
  "sha2_384_init sha = md_init_h0 sha sha2_384_h0"

definition sha2_512_224_init :: "sha2_512_t \<Rightarrow> sha2_512_t" where
  "sha2_512_224_init sha = md_init_h0 sha sha2_512_224_h0"

definition sha2_512_256_init :: "sha2_512_t \<Rightarrow> sha2_512_t" where
  "sha2_512_256_init sha = md_init_h0 sha sha2_512_256_h0"

definition sha2_512_copy :: "sha2_512_t \<Rightarrow> sha2_512_t \<Rightarrow> sha2_512_t" where
  "sha2_512_copy dst src = md_copy dst src"

definition sha2_512_update :: "sha2_512_t \<Rightarrow> bytes \<Rightarrow> sha2_512_t" where
  "sha2_512_update sha m = md_update 128 sha2_512_compress sha m"

definition sha2_512_final_pad :: "sha2_512_t \<Rightarrow> sha2_512_t" where
  "sha2_512_final_pad sha = md_final_pad 128 112 sha2_512_compress sha"

definition sha2_512_final_len :: "sha2_512_t \<Rightarrow> nat \<Rightarrow> sha2_512_t \<times> bytes" where
  "sha2_512_final_len sha h_sz =
     (let sha1 = sha2_512_final_pad sha;
          sha2 = sha1\<lparr>hs := sha2_512_compress (hs sha1) (mp sha1)\<rparr>
      in (sha2, take h_sz (hs sha2)))"

text \<open>The single-call interfaces; \<open>sha\<close> is the uninitialised local context.\<close>

definition sha2_512 :: "sha2_512_t \<Rightarrow> bytes \<Rightarrow> bytes" where
  "sha2_512 sha m = snd (sha2_512_final_len (sha2_512_update (sha2_512_init sha) m) 64)"

definition sha2_384 :: "sha2_512_t \<Rightarrow> bytes \<Rightarrow> bytes" where
  "sha2_384 sha m = snd (sha2_512_final_len (sha2_512_update (sha2_384_init sha) m) 48)"

definition sha2_512_224 :: "sha2_512_t \<Rightarrow> bytes \<Rightarrow> bytes" where
  "sha2_512_224 sha m = snd (sha2_512_final_len (sha2_512_update (sha2_512_224_init sha) m) 28)"

definition sha2_512_256 :: "sha2_512_t \<Rightarrow> bytes \<Rightarrow> bytes" where
  "sha2_512_256 sha m = snd (sha2_512_final_len (sha2_512_update (sha2_512_256_init sha) m) 32)"

section \<open>FIPS 180-4\<close>

definition Sigma0_512 :: "u64 \<Rightarrow> u64" where
  "Sigma0_512 x = word_rotr 28 x XOR word_rotr 34 x XOR word_rotr 39 x"

definition Sigma1_512 :: "u64 \<Rightarrow> u64" where
  "Sigma1_512 x = word_rotr 14 x XOR word_rotr 18 x XOR word_rotr 41 x"

definition sigma0_512 :: "u64 \<Rightarrow> u64" where
  "sigma0_512 x = word_rotr 1 x XOR word_rotr 8 x XOR drop_bit 7 x"

definition sigma1_512 :: "u64 \<Rightarrow> u64" where
  "sigma1_512 x = word_rotr 19 x XOR word_rotr 61 x XOR drop_bit 6 x"

definition fips512_compress :: "u64 list \<Rightarrow> u64 list \<Rightarrow> u64 list" where
  "fips512_compress H m =
     map2 (+) H (foldl (\<lambda>v t. fips_round Sigma0_512 Sigma1_512 v (ck512 ! t)
                                 (fips_schedule sigma0_512 sigma1_512 m t)) H [0..<80])"

text \<open>Section 5.1.2: the length of the message in bits is a 128-bit number at the end of the padding.\<close>

definition len_field :: "nat \<Rightarrow> nat \<Rightarrow> bytes" where
  "len_field k x = map (\<lambda>j. of_nat (x div 256 ^ j)) (rev [0..<k])"

definition fips512_pad :: "bytes \<Rightarrow> bytes" where
  "fips512_pad m = m @ 0x80 # replicate ((239 - length m mod 128) mod 128) 0 @ len_field 16 (8 * length m)"

definition fips_sha512 :: "u64 list \<Rightarrow> bytes \<Rightarrow> bytes" where
  "fips_sha512 H0 m =
     concat (map be64_bytes (foldl (\<lambda>H b. fips512_compress H (be64_words b)) H0 (blocks 128 (fips512_pad m))))"

definition sha512_H0 :: "u64 list" where
  "sha512_H0 =
    [0x6a09e667f3bcc908, 0xbb67ae8584caa73b, 0x3c6ef372fe94f82b, 0xa54ff53a5f1d36f1,
     0x510e527fade682d1, 0x9b05688c2b3e6c1f, 0x1f83d9abfb41bd6b, 0x5be0cd19137e2179]"

definition sha384_H0 :: "u64 list" where
  "sha384_H0 =
    [0xcbbb9d5dc1059ed8, 0x629a292a367cd507, 0x9159015a3070dd17, 0x152fecd8f70e5939,
     0x67332667ffc00b31, 0x8eb44a8768581511, 0xdb0c2e0d64f98fa7, 0x47b5481dbefa4fa4]"

definition sha512_224_H0 :: "u64 list" where
  "sha512_224_H0 =
    [0x8c3d37c819544da2, 0x73e1996689dcd4d6, 0x1dfab7ae32ff9c82, 0x679dd514582f9fcf,
     0x0f6d2b697bd44da8, 0x77e36f7304c48942, 0x3f9d85a86a1d36c8, 0x1112e6ad91d692a1]"

definition sha512_256_H0 :: "u64 list" where
  "sha512_256_H0 =
    [0x22312194fc2bf72c, 0x9f555fa3c84c64c2, 0x2393b86b6f53b151, 0x963877195940eabd,
     0x96283ee2a88effe3, 0xbe5e1e2553863992, 0x2b0199fc2c85b8aa, 0x0eb72ddc81c52ca2]"

definition SHA512 :: "bytes \<Rightarrow> bytes" where
  "SHA512 m = take 64 (fips_sha512 sha512_H0 m)"

definition SHA384 :: "bytes \<Rightarrow> bytes" where
  "SHA384 m = take 48 (fips_sha512 sha384_H0 m)"

definition SHA512_224 :: "bytes \<Rightarrow> bytes" where
  "SHA512_224 m = take 28 (fips_sha512 sha512_224_H0 m)"

definition SHA512_256 :: "bytes \<Rightarrow> bytes" where
  "SHA512_256 m = take 32 (fips_sha512 sha512_256_H0 m)"

text \<open>The constants, as in section 4.2.3 and 5.3.5, with 64 bits of the fractional parts of the roots.\<close>

definition primes80 :: "nat list" where
  "primes80 = primes64 @ [313, 317, 331, 337, 347, 349, 353, 359, 367, 373, 379, 383, 389, 397, 401, 409]"

definition root_frac64 :: "nat \<Rightarrow> nat \<Rightarrow> u64 \<Rightarrow> bool" where
  "root_frac64 k p w \<longleftrightarrow>
     (let x = length (filter (\<lambda>a. a ^ k \<le> p) [1, 2, 3, 4, 5, 6, 7]) * 2 ^ 64 + unat w
      in x ^ k \<le> p * 2 ^ (64 * k) \<and> p * 2 ^ (64 * k) < (x + 1) ^ k)"

section \<open>The compression function\<close>

lemma ror64_word_rotr:
  assumes "0 < n" "n < 64"
  shows "ror64 x n = word_rotr n x"
proof (rule bit_word_eqI)
  fix k assume "k < LENGTH(64)"
  then have k: "k < 64" by simp
  show "bit (ror64 x n) k = bit (word_rotr n x) k"
  proof (cases "k + n < 64")
    case True
    then have "\<not> 64 - n \<le> k" by linarith
    with True k show ?thesis
      by (simp add: ror64_def bit_word_rotr_iff bit_or_iff bit_drop_bit_eq bit_push_bit_iff add.commute)
  next
    case False
    with assms k have "(k + n) mod 64 = k + n - 64" "k - (64 - n) = k + n - 64"
      by (simp_all add: mod_if)
    moreover have "64 - n \<le> k" using False by linarith
    moreover have "\<not> bit x (n + k)" using False bit_imp_le_length [of x "n + k"] by auto
    ultimately show ?thesis using False k assms
      by (simp add: ror64_def bit_word_rotr_iff bit_or_iff bit_drop_bit_eq bit_push_bit_iff)
  qed
qed

lemma STEP_SHA512_R_eq:
  "STEP_SHA512_R a b c d e f g h w k =
     (d + (h + Sigma1_512 e + Ch e f g + k + w),
      (h + Sigma1_512 e + Ch e f g + k + w) + (Sigma0_512 a + Maj a b c))"
  by (simp add: STEP_SHA512_R_def Ch_code Maj_code Let_def Sigma0_512_def Sigma1_512_def ror64_word_rotr
      algebra_simps)

lemma STEP_SHA512_K_eq: "STEP_SHA512_K x0 x1 x9 xe = sigma1_512 xe + x9 + sigma0_512 x1 + x0"
  by (simp add: STEP_SHA512_K_def sigma0_512_def sigma1_512_def ror64_word_rotr algebra_simps)

interpretation sha512m: sha2_macros STEP_SHA512_R STEP_SHA512_K Sigma0_512 Sigma1_512 sigma0_512 sigma1_512
  by unfold_locales (rule STEP_SHA512_R_eq, rule STEP_SHA512_K_eq)

lemma be64_bytes_le: "be64_bytes w = rev (le64_bytes w)"
  by (simp add: be64_bytes_def le64_bytes_def upt_8)

lemma length_be64_words [simp]: "length (be64_words b) = length b div 8"
  by (simp add: be64_words_def)

lemma be64_words_bytes [simp]: "be64_words (be64_bytes w @ b) = w # be64_words b"
  by (rule nth_equalityI)
    (auto simp: be64_words_def nth_Cons' diff_mult_distrib2 be64_bytes_le)

lemma be64_words_concat: "be64_words (concat (map be64_bytes ws)) = ws"
  by (induction ws) (simp_all, simp add: be64_words_def)

lemma length_concat_be64_bytes: "length (concat (map be64_bytes ws)) = 8 * length ws"
  by (induction ws) simp_all

lemma length_fips512_compress [simp]: "length (fips512_compress H m) = length H"
  by (simp add: fips512_compress_def)

lemma compress512_fips:
  assumes "length h = 64" "length blk = 128"
  shows "sha2_512_compress h blk
     = concat (map be64_bytes (fips512_compress (be64_words h) (be64_words blk)))"
  using sha512m.loop_schedule [of "be64_words h" "be64_words blk" 4 80 ck512] assms
  by (simp add: sha2_512_compress_def fips512_compress_def Let_def)

section \<open>The incremental interface\<close>

interpretation sha512s: md_stream 128 112 sha2_512_compress
  by unfold_locales simp_all

abbreviation sha512_rep :: "bytes \<Rightarrow> sha2_512_t \<Rightarrow> bytes \<Rightarrow> bool" where
  "sha512_rep \<equiv> sha512s.rep"

lemma len_field_be64: "len_field 8 x = be64_bytes (of_nat x)"
proof -
  have "(of_nat (x div 256 ^ j) :: u8) = ucast (drop_bit (8 * j) (of_nat x :: u64))" if "j < 8" for j
  proof (rule bit_word_eqI)
    fix n assume "n < LENGTH(8)"
    with that have "8 * j + n < 64" by simp
    moreover have "x div 256 ^ j = drop_bit (8 * j) x" by (simp add: drop_bit_nat_def power_mult)
    ultimately show "bit (of_nat (x div 256 ^ j) :: u8) n = bit (ucast (drop_bit (8 * j) (of_nat x :: u64)) :: u8) n"
      using \<open>n < LENGTH(8)\<close>
      by (simp add: bit_of_nat_iff possible_bit_word bit_ucast_iff bit_drop_bit_eq)
  qed
  then show ?thesis by (simp add: len_field_def be64_bytes_eq be_bytes_def)
qed

lemma len_field_16:
  assumes "x < 2 ^ 64"
  shows "len_field 16 x = replicate 8 0 @ be64_bytes (of_nat x)"
proof -
  have "rev [0..<16] = rev [8..<16] @ rev [0..<8::nat]"
    using upt_add_eq_append [of 0 8 8] by simp
  then have "len_field 16 x = map (\<lambda>j. of_nat (x div 256 ^ j)) (rev [8..<16]) @ len_field 8 x"
    by (simp add: len_field_def)
  moreover have "x div 256 ^ j = 0" if "8 \<le> j" for j
  proof -
    have "(256 :: nat) ^ 8 \<le> 256 ^ j" using that by (intro power_increasing) simp_all
    with assms show ?thesis by simp
  qed
  then have "map (\<lambda>j. of_nat (x div 256 ^ j)) (rev [8..<16]) = map (\<lambda>j. (0 :: u8)) (rev [8..<16])"
    by (intro map_cong) (simp_all del: upt_rec_numeral)
  moreover have "map (\<lambda>j. (0 :: u8)) (rev [8..<16]) = replicate 8 0"
    by (simp add: map_replicate_const del: upt_rec_numeral)
  ultimately show ?thesis by (simp only: len_field_be64)
qed

lemma fips512_pad_md: "length m < 2 ^ 61 \<Longrightarrow> md_pad 128 112 m = fips512_pad m"
  by (simp add: fips512_pad_def md_pad_def len_field_16)

lemma sha2_512_final_len_md: "sha2_512_final_len sha k = md_final_len 128 112 sha2_512_compress sha k"
  by (simp add: sha2_512_final_len_def md_final_len_def sha2_512_final_pad_def)

text \<open>What the code computes for a message of any length.\<close>

definition md_sha512 :: "u64 list \<Rightarrow> bytes \<Rightarrow> bytes" where
  "md_sha512 H0 m =
     concat (map be64_bytes (foldl (\<lambda>H b. fips512_compress H (be64_words b)) H0 (blocks 128 (md_pad 128 112 m))))"

lemma md_sha512_fips: "length m < 2 ^ 61 \<Longrightarrow> md_sha512 H0 m = fips_sha512 H0 m"
  by (simp add: md_sha512_def fips_sha512_def fips512_pad_md)

lemma foldl_compress512_fips:
  assumes "length H = 8" "\<forall>b\<in>set bs. length b = 128"
  shows "foldl sha2_512_compress (concat (map be64_bytes H)) bs
     = concat (map be64_bytes (foldl (\<lambda>H b. fips512_compress H (be64_words b)) H bs))"
  using assms
  by (induction bs arbitrary: H)
    (simp_all add: compress512_fips length_concat_be64_bytes be64_words_concat)

lemma sha512_rep_final:
  assumes "sha512_rep (concat (map be64_bytes H0)) sha m" "length H0 = 8"
  shows "snd (sha2_512_final_len sha n) = take n (md_sha512 H0 m)"
proof -
  have "foldl sha2_512_compress (concat (map be64_bytes H0)) (blocks 128 (md_pad 128 112 m)) = md_sha512 H0 m"
    unfolding md_sha512_def by (rule foldl_compress512_fips) (auto simp: assms(2) dest: sha512s.set_blocks)
  then show ?thesis by (simp add: sha2_512_final_len_md sha512s.rep_final [OF assms(1)])
qed

lemma length_md_sha512: "length H0 = 8 \<Longrightarrow> length (md_sha512 H0 m) = 64"
proof -
  have "length (foldl (\<lambda>H b. fips512_compress H (be64_words b)) H0 bs) = length H0" for bs
    by (induction bs arbitrary: H0) simp_all
  then show "length H0 = 8 \<Longrightarrow> length (md_sha512 H0 m) = 64"
    by (simp add: md_sha512_def length_concat_be64_bytes)
qed

lemma h0_512_words:
  "sha2_512_h0 = concat (map be64_bytes sha512_H0)" "sha2_384_h0 = concat (map be64_bytes sha384_H0)"
  "sha2_512_224_h0 = concat (map be64_bytes sha512_224_H0)" "sha2_512_256_h0 = concat (map be64_bytes sha512_256_H0)"
  by (simp_all add: sha2_512_h0_def sha512_H0_def sha2_384_h0_def sha384_H0_def sha2_512_224_h0_def
      sha512_224_H0_def sha2_512_256_h0_def sha512_256_H0_def be64_bytes_def)

lemma length_H0_512 [simp]:
  "length sha512_H0 = 8" "length sha384_H0 = 8" "length sha512_224_H0 = 8" "length sha512_256_H0 = 8"
  by (simp_all add: sha512_H0_def sha384_H0_def sha512_224_H0_def sha512_256_H0_def)

definition sha512_fin :: "nat \<Rightarrow> sha2_512_t \<Rightarrow> bytes" where
  "sha512_fin n sha = snd (sha2_512_final_len sha n)"

interpretation sha512: stream_hash sha2_512_init sha2_512_update "sha512_fin n"
  "\<lambda>sha. length (mp sha) = 128" "sha512_rep sha2_512_h0" "\<lambda>m. take n (md_sha512 sha512_H0 m)" for n
  by unfold_locales
    (simp_all add: sha2_512_init_def sha2_512_update_def sha512s.rep_init sha512s.rep_update sha512_fin_def
      h0_512_words sha512_rep_final)

interpretation sha384: stream_hash sha2_384_init sha2_512_update "sha512_fin n"
  "\<lambda>sha. length (mp sha) = 128" "sha512_rep sha2_384_h0" "\<lambda>m. take n (md_sha512 sha384_H0 m)" for n
  by unfold_locales
    (simp_all add: sha2_384_init_def sha2_512_update_def sha512s.rep_init sha512s.rep_update sha512_fin_def
      h0_512_words sha512_rep_final)

interpretation sha512_224: stream_hash sha2_512_224_init sha2_512_update "sha512_fin n"
  "\<lambda>sha. length (mp sha) = 128" "sha512_rep sha2_512_224_h0" "\<lambda>m. take n (md_sha512 sha512_224_H0 m)" for n
  by unfold_locales
    (simp_all add: sha2_512_224_init_def sha2_512_update_def sha512s.rep_init sha512s.rep_update sha512_fin_def
      h0_512_words sha512_rep_final)

interpretation sha512_256: stream_hash sha2_512_256_init sha2_512_update "sha512_fin n"
  "\<lambda>sha. length (mp sha) = 128" "sha512_rep sha2_512_256_h0" "\<lambda>m. take n (md_sha512 sha512_256_H0 m)" for n
  by unfold_locales
    (simp_all add: sha2_512_256_init_def sha2_512_update_def sha512s.rep_init sha512s.rep_update sha512_fin_def
      h0_512_words sha512_rep_final)

section \<open>Properties\<close>

text \<open>
  C7: however a message shorter than \<open>2 ^ 61\<close> bytes is cut into calls of \<open>sha2_512_update\<close>, the digest
  written after \<open>sha2_512_init\<close> is SHA-512 of FIPS 180-4, and after the other three initialisations it
  is SHA-384, SHA-512/224 and SHA-512/256.
\<close>

theorem sha2_512_streaming:
  assumes "length (mp sha) = 128" "length (concat xs) < 2 ^ 61"
  shows "snd (sha2_512_final_len (foldl sha2_512_update (sha2_512_init sha) xs) 64) = SHA512 (concat xs)
    \<and> snd (sha2_512_final_len (foldl sha2_512_update (sha2_384_init sha) xs) 48) = SHA384 (concat xs)
    \<and> snd (sha2_512_final_len (foldl sha2_512_update (sha2_512_224_init sha) xs) 28) = SHA512_224 (concat xs)
    \<and> snd (sha2_512_final_len (foldl sha2_512_update (sha2_512_256_init sha) xs) 32) = SHA512_256 (concat xs)"
  using sha512.fin_chunks [OF assms(1), of 64 xs] sha384.fin_chunks [OF assms(1), of 48 xs]
    sha512_224.fin_chunks [OF assms(1), of 28 xs] sha512_256.fin_chunks [OF assms(1), of 32 xs]
    md_sha512_fips [OF assms(2)]
  by (simp add: sha512_fin_def SHA512_def SHA384_def SHA512_224_def SHA512_256_def)

theorem sha2_512_streaming_witness:
  "snd (sha2_512_final_len (foldl sha2_512_update
      (sha2_512_init \<lparr>hs = [], mp = replicate 128 7, sha_i = 5, sha_len = 9\<rparr>) [[0x61], [], [0x62, 0x63]]) 64)
    = SHA512 [0x61, 0x62, 0x63]"
  using sha2_512_streaming [of "\<lparr>hs = [], mp = replicate 128 7, sha_i = 5, sha_len = 9\<rparr>" "[[0x61], [], [0x62, 0x63]]"]
  by simp

text \<open>
  The round constants and initial values of SHA-256 and SHA-512 in the code are the leading bits of
  the fractional parts of the cube and square roots of the first primes.
\<close>

theorem sha2_constants:
  "list_all2 (root_frac32 3) primes64 ck \<and> list_all2 (root_frac32 2) (take 8 primes64) (be32_words sha2_256_h0)
   \<and> list_all2 (root_frac64 3) primes80 ck512 \<and> list_all2 (root_frac64 2) (take 8 primes64) (be64_words sha2_512_h0)"
  unfolding h0_words be32_words_concat h0_512_words be64_words_concat
  by (simp add: ck_def primes64_def root_frac32_def sha256_H0_def
      ck512_def primes80_def root_frac64_def sha512_H0_def)

end
