(* ===== verification/Keccak.thy ===== *)
theory Keccak
  imports Sha512
begin

text \<open>
  SHA-3 and SHAKE of the SLH-DSA library: the permutation
  (\<open>src/qudo-pqc-lib/qudo-slhdsa/slhdsa-native/sha3_f1600.c\<close>, the portable branch) and the sponge
  (\<open>sha3_api.c\<close>), with the reference functions of FIPS 202.

  The state is the byte view \<open>st.b\<close> of the union on a little-endian host; the permutation reads
  it as 25 little-endian words, lane \<open>(x, y)\<close> at index \<open>5 y + x\<close>.
\<close>

section \<open>The permutation\<close>

definition keccak_rc :: "u64 list" where
  "keccak_rc =
    [0x0000000000000001, 0x0000000000008082, 0x800000000000808A, 0x8000000080008000,
     0x000000000000808B, 0x0000000080000001, 0x8000000080008081, 0x8000000000008009,
     0x000000000000008A, 0x0000000000000088, 0x0000000080008009, 0x000000008000000A,
     0x000000008000808B, 0x800000000000008B, 0x8000000000008089, 0x8000000000008003,
     0x8000000000008002, 0x8000000000000080, 0x000000000000800A, 0x800000008000000A,
     0x8000000080008081, 0x8000000000008080, 0x0000000080000001, 0x8000000080008008]"

definition keccak_theta :: "u64 list \<Rightarrow> u64 list" where
  "keccak_theta x =
     (let y4 = x!4 XOR x!9 XOR x!14 XOR x!19 XOR x!24;
          y1 = x!1 XOR x!6 XOR x!11 XOR x!16 XOR x!21;
          y3 = x!3 XOR x!8 XOR x!13 XOR x!18 XOR x!23;
          y0 = x!0 XOR x!5 XOR x!10 XOR x!15 XOR x!20;
          y2 = x!2 XOR x!7 XOR x!12 XOR x!17 XOR x!22;
          t = ror64 y4 63;
          y4 = y4 XOR ror64 y1 63;
          y1 = y1 XOR ror64 y3 63;
          y3 = y3 XOR ror64 y0 63;
          y0 = y0 XOR ror64 y2 63;
          y2 = y2 XOR t
      in [x!0 XOR y4, x!1 XOR y0, x!2 XOR y1, x!3 XOR y2, x!4 XOR y3,
          x!5 XOR y4, x!6 XOR y0, x!7 XOR y1, x!8 XOR y2, x!9 XOR y3,
          x!10 XOR y4, x!11 XOR y0, x!12 XOR y1, x!13 XOR y2, x!14 XOR y3,
          x!15 XOR y4, x!16 XOR y0, x!17 XOR y1, x!18 XOR y2, x!19 XOR y3,
          x!20 XOR y4, x!21 XOR y0, x!22 XOR y1, x!23 XOR y2, x!24 XOR y3])"

text \<open>The assignments \<open>x[d] = ror64(x[s], r)\<close> of the in-place walk, in the order of the code.\<close>

definition rho_pi_moves :: "(nat \<times> nat \<times> nat) list" where
  "rho_pi_moves =
    [(1, 6, 20), (6, 9, 44), (9, 22, 3), (22, 14, 25), (14, 20, 46), (20, 2, 2), (2, 12, 21),
     (12, 13, 39), (13, 19, 56), (19, 23, 8), (23, 15, 23), (15, 4, 37), (4, 24, 50), (24, 21, 62),
     (21, 8, 9), (8, 16, 19), (16, 5, 28), (5, 3, 36), (3, 18, 43), (18, 17, 49), (17, 11, 54),
     (11, 7, 58), (7, 10, 61)]"

definition keccak_rho_pi :: "u64 list \<Rightarrow> u64 list" where
  "keccak_rho_pi x =
     (let t = ror64 (x ! 1) 63;
          x = foldl (\<lambda>x (d, s, r). x[d := ror64 (x ! s) r]) x rho_pi_moves
      in x[10 := t])"

definition chi_row :: "u64 list \<Rightarrow> nat \<Rightarrow> u64 list" where
  "chi_row x b =
     (let t = x!(b + 4) AND NOT (x!(b + 3));
          x = x[b + 4 := x!(b + 4) XOR (x!(b + 1) AND NOT (x!b))];
          x = x[b + 1 := x!(b + 1) XOR (x!(b + 3) AND NOT (x!(b + 2)))];
          x = x[b + 3 := x!(b + 3) XOR (x!b AND NOT (x!(b + 4)))];
          x = x[b := x!b XOR (x!(b + 2) AND NOT (x!(b + 1)))]
      in x[b + 2 := x!(b + 2) XOR t])"

definition keccak_chi :: "u64 list \<Rightarrow> u64 list" where
  "keccak_chi x = foldl chi_row x [0, 5, 10, 15, 20]"

definition keccak_round :: "u64 list \<Rightarrow> u64 \<Rightarrow> u64 list" where
  "keccak_round x rc = (let x = keccak_chi (keccak_rho_pi (keccak_theta x)) in x[0 := x ! 0 XOR rc])"

definition keccak_f1600 :: "u64 list \<Rightarrow> u64 list" where
  "keccak_f1600 x = foldl (\<lambda>x i. keccak_round x (keccak_rc ! i)) x [0..<24]"

section \<open>The permutation of FIPS 202\<close>

definition lane :: "u64 list \<Rightarrow> nat \<Rightarrow> nat \<Rightarrow> u64" where
  "lane A x y = A ! (5 * (y mod 5) + x mod 5)"

definition of_lanes :: "(nat \<Rightarrow> nat \<Rightarrow> u64) \<Rightarrow> u64 list" where
  "of_lanes f = map (\<lambda>i. f (i mod 5) (i div 5)) [0..<25]"

definition fips_C :: "u64 list \<Rightarrow> nat \<Rightarrow> u64" where
  "fips_C A x = lane A x 0 XOR lane A x 1 XOR lane A x 2 XOR lane A x 3 XOR lane A x 4"

definition fips_theta :: "u64 list \<Rightarrow> u64 list" where
  "fips_theta A = of_lanes (\<lambda>x y. lane A x y XOR (fips_C A (x + 4) XOR word_rotl 1 (fips_C A (x + 1))))"

primrec rho_pos :: "nat \<Rightarrow> nat \<times> nat" where
  "rho_pos 0 = (1, 0)"
| "rho_pos (Suc t) = (case rho_pos t of (x, y) \<Rightarrow> (y, (2 * x + 3 * y) mod 5))"

definition rho_offset :: "nat \<Rightarrow> nat \<Rightarrow> nat" where
  "rho_offset x y =
     (case find (\<lambda>t. rho_pos t = (x, y)) [0..<24] of None \<Rightarrow> 0 | Some t \<Rightarrow> (t + 1) * (t + 2) div 2 mod 64)"

definition fips_rho :: "u64 list \<Rightarrow> u64 list" where
  "fips_rho A = of_lanes (\<lambda>x y. word_rotl (rho_offset x y) (lane A x y))"

definition fips_pi :: "u64 list \<Rightarrow> u64 list" where
  "fips_pi A = of_lanes (\<lambda>x y. lane A (x + 3 * y) x)"

definition fips_chi :: "u64 list \<Rightarrow> u64 list" where
  "fips_chi A = of_lanes (\<lambda>x y. lane A x y XOR (NOT (lane A (x + 1) y) AND lane A (x + 2) y))"

text \<open>The bit \<open>rc(t)\<close> comes from a linear feedback shift register; \<open>R ! 0\<close> is its first bit.\<close>

definition lfsr_step :: "bool list \<Rightarrow> bool list" where
  "lfsr_step R =
     (let R = False # R; r8 = R ! 8
      in take 8 (R[0 := (R ! 0 \<noteq> r8), 4 := (R ! 4 \<noteq> r8), 5 := (R ! 5 \<noteq> r8), 6 := (R ! 6 \<noteq> r8)]))"

definition fips_rc :: "nat \<Rightarrow> bool" where
  "fips_rc t = ((lfsr_step ^^ (t mod 255)) [True, False, False, False, False, False, False, False]) ! 0"

definition fips_RC :: "nat \<Rightarrow> u64" where
  "fips_RC ir = foldl (\<lambda>w j. if fips_rc (j + 7 * ir) then set_bit (2 ^ j - 1) w else w) 0 [0..<7]"

definition fips_iota :: "nat \<Rightarrow> u64 list \<Rightarrow> u64 list" where
  "fips_iota ir A = of_lanes (\<lambda>x y. if x = 0 \<and> y = 0 then lane A 0 0 XOR fips_RC ir else lane A x y)"

definition Keccak_p1600 :: "u64 list \<Rightarrow> u64 list" where
  "Keccak_p1600 A = foldl (\<lambda>A ir. fips_iota ir (fips_chi (fips_pi (fips_rho (fips_theta A))))) A [0..<24]"

lemma word_rotl_ror64:
  assumes "0 < n" "n < 64"
  shows "word_rotl n x = ror64 x (64 - n)"
proof -
  have "word_rotl n x = word_rotr (64 - n) x"
    by (rule bit_word_eqI) (use assms in \<open>auto simp: bit_word_rotl_iff bit_word_rotr_iff mod_if\<close>)
  with assms show ?thesis by (simp add: ror64_word_rotr)
qed

lemma word_rotl_0: "word_rotl 0 x = (x :: u64)"
  by (rule bit_word_eqI) (simp add: bit_word_rotl_iff)

lemma upt_25: "[0..<25] = [0,1,2,3,4,5,6,7,8,9,10,11,12,13,14,15,16,17,18,19,20,21,22,23,24::nat]"
  by (simp add: upt_rec)

lemma list25: "length x = 25 \<Longrightarrow> x = map ((!) x) [0..<25]"
  by (metis map_nth)

lemma theta_fips: "keccak_theta (map f [0..<25]) = fips_theta (map f [0..<25])"
  unfolding keccak_theta_def fips_theta_def of_lanes_def fips_C_def lane_def upt_25
  by (simp add: word_rotl_ror64 Let_def)

lemma rho_offsets:
  "map (\<lambda>i. rho_offset (i mod 5) (i div 5)) [0..<25]
    = [0, 1, 62, 28, 27, 36, 44, 6, 55, 20, 3, 10, 43, 25, 39, 41, 45, 15, 21, 8, 18, 2, 61, 56, 14]"
  by code_simp

lemmas rho_offset_values = rho_offsets [unfolded upt_25, simplified]

lemma rho_pi_fips: "keccak_rho_pi (map f [0..<25]) = fips_pi (fips_rho (map f [0..<25]))"
  unfolding keccak_rho_pi_def fips_pi_def fips_rho_def of_lanes_def lane_def upt_25 rho_pi_moves_def
  by (simp add: word_rotl_ror64 rho_offset_values word_rotl_0)

lemma chi_absorb:
  fixes a b c :: u64
  shows "c AND NOT (a XOR (b AND NOT c)) = c AND NOT a"
  by (rule bit_word_eqI) (auto simp: bit_simps)

lemma chi_row_eq:
  assumes "b + 4 < length x"
  shows "chi_row x b =
    x[b := x!b XOR (NOT (x!(b + 1)) AND x!(b + 2)), b + 1 := x!(b + 1) XOR (NOT (x!(b + 2)) AND x!(b + 3)),
      b + 2 := x!(b + 2) XOR (NOT (x!(b + 3)) AND x!(b + 4)), b + 3 := x!(b + 3) XOR (NOT (x!(b + 4)) AND x!b),
      b + 4 := x!(b + 4) XOR (NOT (x!b) AND x!(b + 1))]"
  using assms
  by (intro nth_equalityI)
    (simp_all add: chi_row_def Let_def nth_list_update chi_absorb and.commute [of "NOT _"])

lemma chi_fips: "keccak_chi (map f [0..<25]) = fips_chi (map f [0..<25])"
  unfolding keccak_chi_def fips_chi_def of_lanes_def lane_def upt_25
  by (simp add: chi_row_eq)

primrec lfsr_bits :: "nat \<Rightarrow> bool list \<Rightarrow> bool list" where
  "lfsr_bits 0 R = []"
| "lfsr_bits (Suc n) R = R ! 0 # lfsr_bits n (lfsr_step R)"

lemma nth_lfsr_bits: "t < n \<Longrightarrow> lfsr_bits n R ! t = ((lfsr_step ^^ t) R) ! 0"
proof (induction n arbitrary: t R)
  case (Suc n)
  then show ?case by (cases t) (simp_all add: funpow_swap1)
qed simp

lemma lfsr_table:
  "lfsr_bits 168 [True, False, False, False, False, False, False, False] =
    [True, False, False, False, False, False, False, False, True, False, True, True, False, False, False,
     True, True, True, True, False, True, False, False, False, False, True, True, True, True, True, True,
     True, True, False, False, True, False, False, False, False, True, False, True, False, False, True,
     True, True, True, True, False, True, False, True, False, True, False, True, True, True, False,
     False, False, False, False, True, True, False, False, False, True, False, True, False, True, True,
     False, False, True, True, False, False, True, False, True, True, True, True, True, True, False,
     True, True, True, True, False, False, True, True, False, True, True, True, False, True, True, True,
     False, False, True, False, True, False, True, False, False, True, False, True, False, False, False,
     True, False, False, True, False, True, True, False, True, False, False, False, True, True, False,
     False, True, True, True, False, False, True, True, True, True, False, False, False, True, True,
     False, True, True, False, False, False, False, True, False, False, False, True, False, True, True,
     True]"
  by code_simp

lemma fips_rc_table: "t < 168 \<Longrightarrow> fips_rc t = lfsr_bits 168 [True, False, False, False, False, False, False, False] ! t"
  by (simp add: fips_rc_def nth_lfsr_bits)

lemma RC_fips: "map fips_RC [0..<24] = keccak_rc"
  by (simp add: fips_RC_def keccak_rc_def fips_rc_table lfsr_table upt_rec set_bit_eq_or)

lemma length_of_lanes [simp]: "length (of_lanes f) = 25"
  by (simp add: of_lanes_def)

lemma length_fips_steps [simp]:
  "length (fips_theta A) = 25" "length (fips_rho A) = 25" "length (fips_pi A) = 25"
  "length (fips_chi A) = 25" "length (fips_iota i A) = 25"
  by (simp_all add: fips_theta_def fips_rho_def fips_pi_def fips_chi_def fips_iota_def)

lemma iota_fips: "length A = 25 \<Longrightarrow> fips_iota i A = A[0 := A ! 0 XOR fips_RC i]"
  by (rule nth_equalityI)
    (auto simp: fips_iota_def of_lanes_def lane_def nth_list_update mod_div_trivial mult.commute
      intro: arg_cong [where f = "(!) A"])

lemma keccak_round_fips:
  assumes "length A = 25"
  shows "keccak_round A (fips_RC i) = fips_iota i (fips_chi (fips_pi (fips_rho (fips_theta A))))"
proof -
  have step: "keccak_theta A = fips_theta A" "keccak_chi A = fips_chi A"
    "keccak_rho_pi A = fips_pi (fips_rho A)" if "length A = 25" for A
    using theta_fips [of "(!) A"] chi_fips [of "(!) A"] rho_pi_fips [of "(!) A"]
    unfolding list25 [OF that, symmetric] .
  show ?thesis
    by (simp add: keccak_round_def Let_def step assms iota_fips)
qed

lemma keccak_f1600_fips:
  assumes "length A = 25"
  shows "keccak_f1600 A = Keccak_p1600 A \<and> length (Keccak_p1600 A) = 25"
proof -
  have "keccak_rc ! i = fips_RC i" if "i < 24" for i
    using that by (simp flip: RC_fips)
  then have "foldl (\<lambda>x i. keccak_round x (keccak_rc ! i)) A [0..<n]
      = foldl (\<lambda>A ir. fips_iota ir (fips_chi (fips_pi (fips_rho (fips_theta A))))) A [0..<n]
    \<and> length (foldl (\<lambda>A ir. fips_iota ir (fips_chi (fips_pi (fips_rho (fips_theta A))))) A [0..<n]) = 25"
    if "n \<le> 24" for n
    using that by (induction n) (simp_all add: assms keccak_round_fips)
  then show ?thesis by (simp add: keccak_f1600_def Keccak_p1600_def)
qed

section \<open>SHA-3 and SHAKE\<close>

record sha3_var_t =
  st :: bytes
  pt :: nat
  r_sz :: nat
  md_sz :: nat

definition keccak_bytes :: "bytes \<Rightarrow> bytes" where
  "keccak_bytes b = words_bytes (keccak_f1600 (le64_words b))"

definition sha3_init :: "nat \<Rightarrow> sha3_var_t" where
  "sha3_init md = \<lparr>st = replicate 200 0, pt = 0, r_sz = 200 - 2 * md, md_sz = md\<rparr>"

definition sha3_byte :: "sha3_var_t \<Rightarrow> u8 \<Rightarrow> sha3_var_t" where
  "sha3_byte c x =
     (let b = (st c)[pt c := st c ! pt c XOR x]; j = pt c + 1
      in if j \<ge> r_sz c then c\<lparr>st := keccak_bytes b, pt := 0\<rparr> else c\<lparr>st := b, pt := j\<rparr>)"

definition sha3_update :: "sha3_var_t \<Rightarrow> bytes \<Rightarrow> sha3_var_t" where
  "sha3_update c data = foldl sha3_byte c data"

text \<open>Both finalisations set a suffix byte after the message and the last bit of the block.\<close>

definition sha3_pad :: "u8 \<Rightarrow> sha3_var_t \<Rightarrow> bytes" where
  "sha3_pad suffix c =
     (let b = (st c)[pt c := st c ! pt c XOR suffix]
      in keccak_bytes (b[r_sz c - 1 := b ! (r_sz c - 1) XOR 0x80]))"

definition sha3_final :: "sha3_var_t \<Rightarrow> bytes" where
  "sha3_final c = take (md_sz c) (sha3_pad 0x06 c)"

definition sha3 :: "nat \<Rightarrow> bytes \<Rightarrow> bytes" where
  "sha3 md m = sha3_final (sha3_update (sha3_init md) m)"

primrec shake_squeeze :: "nat \<Rightarrow> sha3_var_t \<Rightarrow> bytes \<times> sha3_var_t" where
  "shake_squeeze 0 c = ([], c)"
| "shake_squeeze (Suc n) c =
     (let c = (if pt c \<ge> r_sz c then c\<lparr>st := keccak_bytes (st c), pt := 0\<rparr> else c);
          (out, c') = shake_squeeze n (c\<lparr>pt := pt c + 1\<rparr>)
      in (st c ! pt c # out, c'))"

definition shake_out :: "sha3_var_t \<Rightarrow> nat \<Rightarrow> bytes \<times> sha3_var_t" where
  "shake_out c out_sz =
     shake_squeeze out_sz (if md_sz c \<noteq> 0 then c\<lparr>st := sha3_pad 0x1F c, pt := 0, md_sz := 0\<rparr> else c)"

definition shake :: "nat \<Rightarrow> bytes \<Rightarrow> nat \<Rightarrow> bytes" where
  "shake md m r = fst (shake_out (sha3_update (sha3_init r) m) md)"

section \<open>The sponge of FIPS 202\<close>

text \<open>The rate \<open>r\<close> and the lengths are in bytes; the bits that precede the padding are in \<open>suffix\<close>.\<close>

definition KECCAK_f :: "bytes \<Rightarrow> bytes" where
  "KECCAK_f b = words_bytes (Keccak_p1600 (le64_words b))"

definition pad10star1 :: "nat \<Rightarrow> u8 \<Rightarrow> nat \<Rightarrow> bytes" where
  "pad10star1 r suffix len =
     (let q = r - len mod r
      in if q = 1 then [suffix XOR 0x80] else suffix # replicate (q - 2) 0 @ [0x80])"

definition absorb_block :: "bytes \<Rightarrow> bytes \<Rightarrow> bytes" where
  "absorb_block S p = KECCAK_f (xor_bytes S (p @ replicate (200 - length p) 0))"

function absorb :: "nat \<Rightarrow> bytes \<Rightarrow> bytes \<Rightarrow> bytes" where
  "absorb r S m = (if r = 0 \<or> length m < r then S else absorb r (absorb_block S (take r m)) (drop r m))"
  by auto
termination by (relation "measure (\<lambda>(r, S, m). length m)") auto

definition SPONGE :: "nat \<Rightarrow> u8 \<Rightarrow> bytes \<Rightarrow> nat \<Rightarrow> bytes" where
  "SPONGE r suffix m d =
     (let S = absorb r (replicate 200 0) (m @ pad10star1 r suffix (length m))
      in map (\<lambda>i. (KECCAK_f ^^ (i div r)) S ! (i mod r)) [0..<d])"

definition SHAKE256 :: "bytes \<Rightarrow> nat \<Rightarrow> bytes" where
  "SHAKE256 m d = SPONGE 136 0x1F m d"

definition SHAKE128 :: "bytes \<Rightarrow> nat \<Rightarrow> bytes" where
  "SHAKE128 m d = SPONGE 168 0x1F m d"

definition SHA3 :: "nat \<Rightarrow> bytes \<Rightarrow> bytes" where
  "SHA3 d m = SPONGE (200 - 2 * d) 0x06 m d"

declare absorb.simps [simp del]

lemma absorb_short [simp]: "length m < r \<Longrightarrow> absorb r S m = S"
  by (simp add: absorb.simps)

lemma absorb_one: "0 < r \<Longrightarrow> length p = r \<Longrightarrow> absorb r S (p @ m) = absorb r (absorb_block S p) m"
  by (subst absorb.simps) simp

lemma absorb_append:
  assumes "0 < r" "r dvd length a"
  shows "absorb r S (a @ m) = absorb r (absorb r S a) m"
  using assms(2)
proof (induction "length a" arbitrary: a S rule: less_induct)
  case less
  show ?case
  proof (cases "a = []")
    case False
    with less.prems have le: "r \<le> length a" by (simp add: dvd_imp_le)
    then have t: "length (take r a) = r" by simp
    have d: "r dvd length (drop r a)" using less.prems le by simp
    have "length (drop r a) < length a" using le assms(1) False by simp
    from less.hyps [OF this d] absorb_one [OF assms(1) t, of S] absorb_one [OF assms(1) t, of S "drop r a @ m"]
    show ?thesis by (simp flip: append_assoc) (metis append_take_drop_id)
  qed (use assms in simp)
qed

lemma KECCAK_f_code: "length b = 200 \<Longrightarrow> keccak_bytes b = KECCAK_f b \<and> length (KECCAK_f b) = 200"
  using keccak_f1600_fips [of "le64_words b"] by (simp add: keccak_bytes_def KECCAK_f_def)

lemma length_absorb_block: "length S = 200 \<Longrightarrow> length p \<le> 200 \<Longrightarrow> length (absorb_block S p) = 200"
  using KECCAK_f_code [of "xor_bytes S (p @ replicate (200 - length p) 0)"] by (simp add: absorb_block_def)

lemma length_absorb: "length S = 200 \<Longrightarrow> r \<le> 200 \<Longrightarrow> length (absorb r S m) = 200"
  by (induction r S m rule: absorb.induct) (subst absorb.simps, simp add: length_absorb_block)

section \<open>The code computes the sponge\<close>

definition rest :: "nat \<Rightarrow> bytes \<Rightarrow> bytes" where
  "rest r m = drop (r * (length m div r)) m"

definition zero_ext :: "bytes \<Rightarrow> bytes" where
  "zero_ext p = p @ replicate (200 - length p) 0"

definition sponge_rep :: "nat \<Rightarrow> sha3_var_t \<Rightarrow> bytes \<Rightarrow> bool" where
  "sponge_rep r c m \<longleftrightarrow> r_sz c = r \<and> pt c = length m mod r \<and>
     st c = xor_bytes (absorb r (replicate 200 0) m) (zero_ext (rest r m))"

lemma length_rest: "length (rest r m) = length m mod r"
  by (simp add: rest_def minus_mult_div_eq_mod)

lemma length_zero_ext: "length p \<le> 200 \<Longrightarrow> length (zero_ext p) = 200"
  by (simp add: zero_ext_def)

lemma absorb_rest:
  assumes "0 < r"
  shows "absorb r S (m @ x) = absorb r (absorb r S m) (rest r m @ x)"
proof -
  have m: "m = take (r * (length m div r)) m @ rest r m" by (simp add: rest_def)
  have l: "r dvd length (take (r * (length m div r)) m)"
    using times_div_less_eq_dividend [of r "length m"] by (simp add: min_absorb2)
  have "absorb r S m = absorb r S (take (r * (length m div r)) m)"
    by (subst (1) m, subst absorb_append [OF assms l]) (simp add: length_rest assms)
  moreover have "absorb r S (m @ x) = absorb r (absorb r S (take (r * (length m div r)) m)) (rest r m @ x)"
    by (subst (1) m) (simp add: absorb_append [OF assms l])
  ultimately show ?thesis by simp
qed

lemma xor_at:
  assumes "length S = 200" "length p < 200"
  shows "(xor_bytes S (zero_ext p))[length p := xor_bytes S (zero_ext p) ! length p XOR x]
    = xor_bytes S (zero_ext (p @ [x]))"
  using assms by (intro nth_equalityI)
    (auto simp: nth_list_update nth_xor_bytes zero_ext_def nth_append xor.assoc)

lemma xor_zero_ext_Nil: "length S = 200 \<Longrightarrow> xor_bytes S (zero_ext []) = S"
  by (simp add: zero_ext_def)

lemma sponge_rep_byte:
  assumes rep: "sponge_rep r c m" and r: "0 < r" "r < 200"
  shows "sponge_rep r (sha3_byte c x) (m @ [x])"
proof -
  let ?S = "absorb r (replicate 200 0) m"
  let ?b = "xor_bytes ?S (zero_ext (rest r m @ [x]))"
  have S: "length ?S = 200" using r by (simp add: length_absorb)
  have t: "length (rest r m) < r" by (simp add: length_rest r)
  have b: "(st c)[pt c := st c ! pt c XOR x] = ?b"
    using rep xor_at [OF S less_trans [OF t r(2)], of x] by (simp add: sponge_rep_def length_rest)
  have sb: "sha3_byte c x = (if Suc (length m mod r) \<ge> r then c\<lparr>st := keccak_bytes ?b, pt := 0\<rparr>
      else c\<lparr>st := ?b, pt := Suc (length m mod r)\<rparr>)"
    unfolding sha3_byte_def b using rep by (simp add: Let_def sponge_rep_def)
  have ab: "absorb r (replicate 200 0) (m @ [x]) = absorb r ?S (rest r m @ [x])"
    by (rule absorb_rest [OF r(1)])
  show ?thesis
  proof (cases "Suc (length m mod r) = r")
    case True
    have len: "length (rest r m @ [x]) = r" using True by (simp add: length_rest)
    have "length ?b = 200" using S len r by (simp add: length_zero_ext)
    then have "keccak_bytes ?b = absorb_block ?S (rest r m @ [x])"
      by (simp add: KECCAK_f_code absorb_block_def zero_ext_def)
    moreover have "absorb r ?S (rest r m @ [x]) = absorb_block ?S (rest r m @ [x])"
      using absorb_one [OF r(1) len, of ?S "[]"] r by simp
    moreover have "Suc (length m) mod r = 0" using True by (simp add: mod_Suc)
    moreover from this have "rest r (m @ [x]) = []" using length_rest [of r "m @ [x]"] by simp
    moreover have "length (absorb_block ?S (rest r m @ [x])) = 200"
      using S len r by (intro length_absorb_block) simp_all
    ultimately show ?thesis
      using rep True by (simp add: sponge_rep_def sb ab xor_zero_ext_Nil)
  next
    case False
    then have lt: "Suc (length m mod r) < r" using t by (simp add: length_rest)
    then have q: "Suc (length m) mod r = Suc (length m mod r)" "Suc (length m) div r = length m div r"
      by (simp_all add: mod_Suc div_Suc)
    have "rest r (m @ [x]) = rest r m @ [x]" by (simp add: rest_def q)
    with rep lt q show ?thesis
      by (simp add: sponge_rep_def sb ab length_rest)
  qed
qed

lemma sponge_rep_update: "sponge_rep r c m \<Longrightarrow> 0 < r \<Longrightarrow> r < 200 \<Longrightarrow> sponge_rep r (sha3_update c x) (m @ x)"
  unfolding sha3_update_def
proof (induction x arbitrary: c m)
  case (Cons y x)
  from Cons.IH [OF sponge_rep_byte] Cons.prems show ?case by simp
qed simp

lemma sponge_rep_init: "md < 100 \<Longrightarrow> sponge_rep (200 - 2 * md) (sha3_init md) []"
  by (simp add: sponge_rep_def sha3_init_def rest_def xor_zero_ext_Nil)

lemma length_pad10star1:
  assumes "0 < r"
  shows "length (pad10star1 r x n) = r - n mod r"
proof -
  define q where "q = n mod r"
  have "q < r" using assms by (simp add: q_def)
  then show ?thesis by (auto simp: pad10star1_def Let_def simp flip: q_def)
qed

lemma nth_pad10star1:
  "0 < r \<Longrightarrow> k < r - n mod r
    \<Longrightarrow> pad10star1 r suf n ! k = (if k = 0 then suf else 0) XOR (if k = r - n mod r - 1 then 0x80 else 0)"
  by (auto simp: pad10star1_def Let_def nth_Cons' nth_append)

lemma pad_positions:
  assumes S: "length S = 200" and p: "length p < r" "length p = n mod r" and r: "r < 200"
  shows "(let b = (xor_bytes S (zero_ext p))[length p := xor_bytes S (zero_ext p) ! length p XOR suf]
          in b[r - 1 := b ! (r - 1) XOR 0x80])
    = xor_bytes S (zero_ext (p @ pad10star1 r suf n))" (is "?L = ?R")
proof (rule nth_equalityI)
  let ?P = "pad10star1 r suf n"
  have l: "length ?P = r - length p" using p by (simp add: length_pad10star1)
  show "length ?L = length ?R" using S p r l by (simp add: length_zero_ext Let_def)
  fix i assume "i < length ?L"
  then have i: "i < 200" using S p r by (simp add: length_zero_ext Let_def)
  have ext: "zero_ext (p @ [suf]) ! i = (if i < length p then p ! i else if i = length p then suf else 0)"
    using i p r by (auto simp: zero_ext_def nth_append)
  have "zero_ext (p @ ?P) ! i = zero_ext (p @ [suf]) ! i XOR (if i = r - 1 then 0x80 else 0)"
  proof (cases "length p \<le> i \<and> i < r")
    case True
    then have "zero_ext (p @ ?P) ! i = ?P ! (i - length p)" using l by (auto simp: zero_ext_def nth_append)
    also have "\<dots> = (if i = length p then suf else 0) XOR (if i = r - 1 then 0x80 else 0)"
      using nth_pad10star1 [of r "i - length p" n suf] True p by (auto split: if_splits)
    finally show ?thesis using True by (simp add: ext)
  next
    case False
    then have "i \<noteq> r - 1" using p(1) by auto
    with False show ?thesis using i p(1) r l by (auto simp: ext zero_ext_def nth_append)
  qed
  then show "?L ! i = ?R ! i"
    unfolding xor_at [OF S less_trans [OF p(1) r]] Let_def
    using S p r i l by (simp add: nth_list_update nth_xor_bytes length_zero_ext xor.assoc)
qed

lemma sha3_pad_spec:
  assumes rep: "sponge_rep r c m" and r: "0 < r" "r < 200"
  shows "sha3_pad suf c = absorb r (replicate 200 0) (m @ pad10star1 r suf (length m))"
proof -
  let ?S = "absorb r (replicate 200 0) m" and ?p = "pad10star1 r suf (length m)"
  have S: "length ?S = 200" using r by (simp add: length_absorb)
  have t: "length (rest r m) < r" "length (rest r m) = length m mod r" by (simp_all add: length_rest r)
  then have len: "length (rest r m @ ?p) = r" using r by (simp add: length_pad10star1)
  have "sha3_pad suf c = keccak_bytes (xor_bytes ?S (zero_ext (rest r m @ ?p)))"
    using pad_positions [OF S t r(2), of suf] rep
    by (simp add: sha3_pad_def sponge_rep_def length_rest Let_def)
  also have "\<dots> = absorb_block ?S (rest r m @ ?p)"
    using S len r by (simp add: absorb_block_def zero_ext_def KECCAK_f_code)
  also have "\<dots> = absorb r ?S (rest r m @ ?p)"
    using absorb_one [OF r(1) len, of ?S "[]"] r by simp
  also have "\<dots> = absorb r (replicate 200 0) (m @ ?p)"
    by (rule absorb_rest [OF r(1), symmetric])
  finally show ?thesis .
qed

lemma sha3_spec:
  assumes "0 < md" "md < 100" "md \<le> 200 - 2 * md"
  shows "sha3 md m = SHA3 md m"
proof -
  let ?r = "200 - 2 * md" and ?S = "absorb (200 - 2 * md) (replicate 200 0) (m @ pad10star1 (200 - 2 * md) 0x06 (length m))"
  have r: "0 < ?r" "?r < 200" using assms by simp_all
  have len: "length ?S = 200" by (rule length_absorb) (use r in simp_all)
  have md: "md_sz (sha3_update (sha3_init md) m) = md" 
    unfolding sha3_update_def
    by (induction m rule: rev_induct) (simp_all add: sha3_init_def sha3_byte_def Let_def)
  from sponge_rep_update [OF sponge_rep_init [OF assms(2)] r, of m]
  have "sha3 md m = take md ?S"
    by (simp add: sha3_def sha3_final_def md sha3_pad_spec [OF _ r])
  also have "\<dots> = SHA3 md m"
    using assms len by (intro nth_equalityI) (auto simp: SHA3_def SPONGE_def Let_def)
  finally show ?thesis .
qed

text \<open>Squeezing: the position of the next output byte and the state it is read from.\<close>

definition squeeze_rep :: "nat \<Rightarrow> bytes \<Rightarrow> nat \<Rightarrow> sha3_var_t \<Rightarrow> bool" where
  "squeeze_rep r S k c \<longleftrightarrow> md_sz c = 0 \<and> r_sz c = r \<and>
     (if k = 0 then pt c = 0 \<and> st c = S
      else pt c = (k - 1) mod r + 1 \<and> st c = (KECCAK_f ^^ ((k - 1) div r)) S)"

lemma length_KECCAK_pow: "length S = 200 \<Longrightarrow> length ((KECCAK_f ^^ k) S) = 200"
  by (induction k) (simp_all add: KECCAK_f_code)

lemma squeeze_step:
  assumes rep: "squeeze_rep r S k c" and r: "0 < r" and S: "length S = 200"
  defines "c1 \<equiv> (if pt c \<ge> r_sz c then c\<lparr>st := keccak_bytes (st c), pt := 0\<rparr> else c)"
  shows "st c1 ! pt c1 = (KECCAK_f ^^ (k div r)) S ! (k mod r)"
    and "squeeze_rep r S (Suc k) (c1\<lparr>pt := pt c1 + 1\<rparr>)"
proof -
  have "st c1 = (KECCAK_f ^^ (k div r)) S \<and> pt c1 = k mod r \<and> r_sz c1 = r \<and> md_sz c1 = 0"
  proof (cases k)
    case 0
    then show ?thesis using rep r by (simp add: squeeze_rep_def c1_def)
  next
    case (Suc j)
    show ?thesis
    proof (cases "Suc (j mod r) = r")
      case True
      then have "Suc j mod r = 0" "Suc j div r = Suc (j div r)" by (simp_all add: mod_Suc div_Suc)
      with rep Suc True S show ?thesis
        by (simp add: squeeze_rep_def c1_def KECCAK_f_code length_KECCAK_pow)
    next
      case False
      moreover have "Suc (j mod r) \<le> r" using r by (simp add: Suc_le_eq)
      ultimately have "Suc j mod r = Suc (j mod r)" "Suc j div r = j div r" "\<not> r \<le> Suc (j mod r)"
        by (simp_all add: mod_Suc div_Suc)
      with rep Suc show ?thesis by (simp add: squeeze_rep_def c1_def)
    qed
  qed
  then show "st c1 ! pt c1 = (KECCAK_f ^^ (k div r)) S ! (k mod r)"
    and "squeeze_rep r S (Suc k) (c1\<lparr>pt := pt c1 + 1\<rparr>)"
    by (simp_all add: squeeze_rep_def)
qed

lemma shake_squeeze_spec:
  assumes "squeeze_rep r S k c" "0 < r" "length S = 200"
  shows "fst (shake_squeeze n c) = map (\<lambda>i. (KECCAK_f ^^ (i div r)) S ! (i mod r)) [k..<k + n]
    \<and> squeeze_rep r S (k + n) (snd (shake_squeeze n c))"
  using assms(1)
proof (induction n arbitrary: k c)
  case (Suc n)
  note step = squeeze_step [OF Suc.prems assms(2,3)]
  from Suc.IH [OF step(2)] step(1) show ?case
    by (simp add: Let_def split_beta upt_conv_Cons del: upt_Suc)
qed simp

text \<open>A context that absorbs, or one that has output \<open>k\<close> bytes already.\<close>

definition shake_rep :: "nat \<Rightarrow> sha3_var_t \<Rightarrow> bytes \<Rightarrow> nat \<Rightarrow> bool" where
  "shake_rep r c m k \<longleftrightarrow>
     (if md_sz c \<noteq> 0 then k = 0 \<and> sponge_rep r c m
      else squeeze_rep r (absorb r (replicate 200 0) (m @ pad10star1 r 0x1F (length m))) k c)"

lemma shake_out_spec:
  assumes rep: "shake_rep r c m k" and r: "0 < r" "r < 200"
  shows "fst (shake_out c n) = drop k (SPONGE r 0x1F m (k + n)) \<and> shake_rep r (snd (shake_out c n)) m (k + n)"
proof -
  let ?S = "absorb r (replicate 200 0) (m @ pad10star1 r 0x1F (length m))"
  define c' where "c' = (if md_sz c \<noteq> 0 then c\<lparr>st := sha3_pad 0x1F c, pt := 0, md_sz := 0\<rparr> else c)"
  have S: "length ?S = 200" by (rule length_absorb) (use r in simp_all)
  have out: "shake_out c n = shake_squeeze n c'" by (simp add: shake_out_def c'_def)
  have "squeeze_rep r ?S k c'"
    using rep sha3_pad_spec [where c = c and m = m and suf = "0x1F", OF _ r]
    by (auto simp: shake_rep_def squeeze_rep_def sponge_rep_def c'_def)
  note spec = shake_squeeze_spec [OF this r(1) S, of n]
  then have "md_sz (snd (shake_squeeze n c')) = 0" by (simp add: squeeze_rep_def)
  with spec show ?thesis unfolding out
    by (simp add: shake_rep_def SPONGE_def Let_def drop_map)
qed

section \<open>Incremental hashing\<close>

definition shake_fin :: "nat \<Rightarrow> sha3_var_t \<Rightarrow> bytes" where
  "shake_fin n c = fst (shake_out c n)"

lemma md_sz_update [simp]: "md_sz (sha3_update c m) = md_sz c"
  unfolding sha3_update_def by (induction m rule: rev_induct) (simp_all add: sha3_byte_def Let_def)

lemma shake_fin_spec:
  assumes "sponge_rep r c m" "md_sz c \<noteq> 0" "0 < r" "r < 200"
  shows "shake_fin n c = SPONGE r 0x1F m n"
  using shake_out_spec [of r c m 0 n] assms by (simp add: shake_fin_def shake_rep_def)

interpretation shake256: stream_hash "\<lambda>_. sha3_init 32" sha3_update "shake_fin n" "\<lambda>_. True"
  "\<lambda>c m. sponge_rep 136 c m \<and> md_sz c \<noteq> 0" "\<lambda>m. SHAKE256 m n" for n
  by unfold_locales
    (use sponge_rep_init [of 32] in \<open>simp_all add: sponge_rep_update shake_fin_spec SHAKE256_def,
      simp add: sha3_init_def\<close>)

interpretation shake128: stream_hash "\<lambda>_. sha3_init 16" sha3_update "shake_fin n" "\<lambda>_. True"
  "\<lambda>c m. sponge_rep 168 c m \<and> md_sz c \<noteq> 0" "\<lambda>m. SHAKE128 m n" for n
  by unfold_locales
    (use sponge_rep_init [of 16] in \<open>simp_all add: sponge_rep_update shake_fin_spec SHAKE128_def,
      simp add: sha3_init_def\<close>)

lemma length_SPONGE [simp]: "length (SPONGE r s m d) = d"
  by (simp add: SPONGE_def Let_def)

lemma length_SHAKE256 [simp]: "length (SHAKE256 m d) = d"
  by (simp add: SHAKE256_def)

text \<open>A message that leaves room for the padding is absorbed in one block.\<close>

lemma SHAKE256_one_block:
  assumes "length m < 136" "d \<le> 136"
  shows "SHAKE256 m d = take d (KECCAK_f (zero_ext (m @ pad10star1 136 0x1F (length m))))"
proof -
  let ?p = "m @ pad10star1 136 0x1F (length m)"
  have p: "length ?p = 136" using assms by (simp add: length_pad10star1)
  have "absorb 136 (replicate 200 0) ?p = absorb_block (replicate 200 0) ?p"
    using absorb_one [OF _ p, of "replicate 200 0" "[]"] by simp
  also have "\<dots> = KECCAK_f (zero_ext ?p)"
  proof -
    have "xor_bytes (replicate 200 0) q = q" if "length q = 200" for q
      using that by (intro nth_equalityI) (simp_all add: nth_xor_bytes)
    then show ?thesis using p by (simp add: absorb_block_def zero_ext_def)
  qed
  finally have S: "absorb 136 (replicate 200 0) ?p = KECCAK_f (zero_ext ?p)" .
  have "length (KECCAK_f (zero_ext ?p)) = 200" using KECCAK_f_code [of "zero_ext ?p"] p by (simp add: length_zero_ext)
  then show ?thesis
    using assms by (intro nth_equalityI) (auto simp: SHAKE256_def SPONGE_def Let_def S)
qed

section \<open>Properties\<close>

text \<open>
  C8: the in-place permutation, which walks through the lanes in one cycle for the rotations and
  reads already updated words in the last step, is Keccak-p[1600, 24] of FIPS 202, with the rotation
  offsets and the round constants computed as there.
\<close>

theorem keccak_f1600_is_fips:
  assumes "length A = 25"
  shows "keccak_f1600 A = Keccak_p1600 A"
  using keccak_f1600_fips [OF assms] by simp

theorem keccak_f1600_is_fips_witness:
  "keccak_f1600 (replicate 25 0) = Keccak_p1600 (replicate 25 0)"
  by (rule keccak_f1600_is_fips) simp

text \<open>
  C9: absorbing a message in any pieces and then squeezing in any two pieces gives the output of the
  sponge of FIPS 202 with the rate of SHAKE128 or SHAKE256 on the whole message.
\<close>

theorem shake_streaming:
  assumes "s = 16 \<or> s = 32"
  shows "(let c = foldl sha3_update (sha3_init s) xs; (out1, c) = shake_out c n1; (out2, c) = shake_out c n2
          in out1 @ out2) = SPONGE (200 - 2 * s) 0x1F (concat xs) (n1 + n2)"
proof -
  let ?r = "200 - 2 * s" and ?c = "foldl sha3_update (sha3_init s) xs"
  have r: "0 < ?r" "?r < 200" using assms by auto
  have "sponge_rep ?r ?c (concat xs) \<and> md_sz ?c \<noteq> 0"
  proof (induction xs rule: rev_induct)
    case Nil
    then show ?case using assms sponge_rep_init [of s] by (auto simp: sha3_init_def)
  next
    case (snoc x xs)
    then show ?case using sponge_rep_update [OF _ r] by simp
  qed
  then have rep: "shake_rep ?r ?c (concat xs) 0" by (simp add: shake_rep_def)
  note one = shake_out_spec [OF rep r, of n1]
  note two = shake_out_spec [OF conjunct2 [OF one] r, of n2]
  have "SPONGE ?r 0x1F m n1 @ drop n1 (SPONGE ?r 0x1F m (n1 + n2)) = SPONGE ?r 0x1F m (n1 + n2)" for m
    by (simp add: SPONGE_def Let_def drop_map map_append [symmetric] upt_add_eq_append [symmetric] del: map_append)
  then show ?thesis using one two by (simp add: Let_def split_beta)
qed

theorem shake_streaming_witness:
  "(let c = foldl sha3_update (sha3_init 32) [[1, 2], [], [3]]; (out1, c) = shake_out c 100; (out2, c) = shake_out c 60
    in out1 @ out2) = SPONGE 136 0x1F [1, 2, 3] 160"
  using shake_streaming [of 32 "[[1, 2], [], [3]]" 100 60] by simp

end
