(* ===== verification/Slh.thy ===== *)
theory Slh
  imports Keccak
begin

text \<open>
  The core of SLH-DSA, \<open>src/qudo-pqc-lib/qudo-slhdsa/slhdsa-native/slh_dsa.c\<close> with the addresses of
  \<open>slh_adrs.h\<close> and the structures of \<open>slh_param.h\<close> and \<open>slh_var.h\<close>: WOTS+, the XMSS trees and the
  hypertree, FORS, key generation, signing and verification.

  A parameter set carries its hash functions as fields, as the C structure carries function
  pointers.  A function that writes an address returns the changed context.  An address is its eight
  32-bit words in host order; the code stores them through \<open>rev8_be32\<close>, so that the byte view is big-endian
  on every host.  The slots \<open>node\<close>, \<open>h[0]\<close>, \<open>h[1]\<close>, ... of the non-recursive tree loops, with
  \<open>p\<close> the index of the last one in use, are a stack, its top first and \<open>node\<close> at the bottom.
  Indices within a tree are natural numbers: they stay below \<open>2 ^ hp\<close> and \<open>k * 2 ^ a\<close>.
\<close>

section \<open>Addresses\<close>

record adrs_t =
  adrs0 :: u32
  adrs1 :: u32
  adrs2 :: u32
  adrs3 :: u32
  adrs4 :: u32
  adrs5 :: u32
  adrs6 :: u32
  adrs7 :: u32

abbreviation (input) ADRS_WOTS_HASH :: u32 where "ADRS_WOTS_HASH \<equiv> 0"
abbreviation (input) ADRS_WOTS_PK :: u32 where "ADRS_WOTS_PK \<equiv> 1"
abbreviation (input) ADRS_TREE :: u32 where "ADRS_TREE \<equiv> 2"
abbreviation (input) ADRS_FORS_TREE :: u32 where "ADRS_FORS_TREE \<equiv> 3"
abbreviation (input) ADRS_FORS_ROOTS :: u32 where "ADRS_FORS_ROOTS \<equiv> 4"
abbreviation (input) ADRS_WOTS_PRF :: u32 where "ADRS_WOTS_PRF \<equiv> 5"
abbreviation (input) ADRS_FORS_PRF :: u32 where "ADRS_FORS_PRF \<equiv> 6"

definition adrs_u8 :: "adrs_t \<Rightarrow> bytes" where
  "adrs_u8 A = concat (map be32_bytes [adrs0 A, adrs1 A, adrs2 A, adrs3 A, adrs4 A, adrs5 A, adrs6 A, adrs7 A])"

definition slh_toint :: "bytes \<Rightarrow> u64" where
  "slh_toint x = foldl (\<lambda>t b. push_bit 8 t + ucast b) 0 x"

definition slh_tobyte :: "u64 \<Rightarrow> nat \<Rightarrow> bytes" where
  "slh_tobyte t n = map (\<lambda>i. ucast (drop_bit (8 * (n - 1 - i)) t)) [0..<n]"

section \<open>Parameters and context\<close>

record slh_dims =
  prm_n :: nat
  prm_h :: nat
  prm_d :: nat
  prm_hp :: nat
  prm_a :: nat
  prm_k :: nat
  prm_lg_w :: nat
  prm_m :: nat

record slh_var =
  prm :: slh_dims
  sk_seed :: bytes
  sk_prf :: bytes
  pk_seed :: bytes
  pk_root :: bytes
  adrs :: adrs_t
  sha2_256_pk_seed :: sha2_256_t
  sha2_512_pk_seed :: sha2_512_t

text \<open>
  The hash functions of a parameter set.  \<open>mk_var\<close> gets the uninitialised local context first; the
  context argument \<open>None\<close> of the message hashes is \<open>SLH_CTX_SZ_NO_CONTEXT\<close>.
\<close>

record slh_param = slh_dims +
  alg_id :: string
  mk_var :: "slh_var \<Rightarrow> bytes option \<Rightarrow> bytes option \<Rightarrow> slh_dims \<Rightarrow> slh_var"
  chain :: "slh_var \<Rightarrow> bytes \<Rightarrow> nat \<Rightarrow> nat \<Rightarrow> bytes \<times> slh_var"
  wots_chain :: "slh_var \<Rightarrow> nat \<Rightarrow> bytes \<times> slh_var"
  fors_hash :: "slh_var \<Rightarrow> nat \<Rightarrow> bytes \<times> slh_var"
  h_msg :: "slh_var \<Rightarrow> bytes \<Rightarrow> bytes \<Rightarrow> bytes option \<Rightarrow> bytes"
  h_prf :: "slh_var \<Rightarrow> bytes"
  prf_msg :: "slh_var \<Rightarrow> bytes \<Rightarrow> bytes \<Rightarrow> bytes option \<Rightarrow> bytes"
  h_f :: "slh_var \<Rightarrow> bytes \<Rightarrow> bytes"
  h_h :: "slh_var \<Rightarrow> bytes \<Rightarrow> bytes \<Rightarrow> bytes"
  h_t :: "slh_var \<Rightarrow> bytes \<Rightarrow> bytes"

definition adrs_zero :: "slh_var \<Rightarrow> slh_var" where
  "adrs_zero v = v\<lparr>adrs := \<lparr>adrs0 = 0, adrs1 = 0, adrs2 = 0, adrs3 = 0, adrs4 = 0, adrs5 = 0, adrs6 = 0, adrs7 = 0\<rparr>\<rparr>"

definition adrs_set_layer_address :: "slh_var \<Rightarrow> nat \<Rightarrow> slh_var" where
  "adrs_set_layer_address v x = v\<lparr>adrs := (adrs v)\<lparr>adrs0 := of_nat x\<rparr>\<rparr>"

definition adrs_set_tree_address :: "slh_var \<Rightarrow> u64 \<Rightarrow> slh_var" where
  "adrs_set_tree_address v x =
     v\<lparr>adrs := (adrs v)\<lparr>adrs2 := ucast (drop_bit 32 x), adrs3 := ucast (x AND 0xFFFFFFFF)\<rparr>\<rparr>"

definition adrs_set_key_pair_address :: "slh_var \<Rightarrow> nat \<Rightarrow> slh_var" where
  "adrs_set_key_pair_address v x = v\<lparr>adrs := (adrs v)\<lparr>adrs5 := of_nat x\<rparr>\<rparr>"

definition adrs_set_tree_height :: "slh_var \<Rightarrow> nat \<Rightarrow> slh_var" where
  "adrs_set_tree_height v x = v\<lparr>adrs := (adrs v)\<lparr>adrs6 := of_nat x\<rparr>\<rparr>"

definition adrs_set_chain_address :: "slh_var \<Rightarrow> nat \<Rightarrow> slh_var" where
  "adrs_set_chain_address v x = v\<lparr>adrs := (adrs v)\<lparr>adrs6 := of_nat x\<rparr>\<rparr>"

definition adrs_set_tree_index :: "slh_var \<Rightarrow> nat \<Rightarrow> slh_var" where
  "adrs_set_tree_index v x = v\<lparr>adrs := (adrs v)\<lparr>adrs7 := of_nat x\<rparr>\<rparr>"

definition adrs_set_hash_address :: "slh_var \<Rightarrow> nat \<Rightarrow> slh_var" where
  "adrs_set_hash_address v x = v\<lparr>adrs := (adrs v)\<lparr>adrs7 := of_nat x\<rparr>\<rparr>"

definition adrs_set_type :: "slh_var \<Rightarrow> u32 \<Rightarrow> slh_var" where
  "adrs_set_type v y = v\<lparr>adrs := (adrs v)\<lparr>adrs4 := y\<rparr>\<rparr>"

definition adrs_set_type_and_clear :: "slh_var \<Rightarrow> u32 \<Rightarrow> slh_var" where
  "adrs_set_type_and_clear v y = v\<lparr>adrs := (adrs v)\<lparr>adrs4 := y, adrs5 := 0, adrs6 := 0, adrs7 := 0\<rparr>\<rparr>"

definition adrs_set_type_and_clear_not_kp :: "slh_var \<Rightarrow> u32 \<Rightarrow> slh_var" where
  "adrs_set_type_and_clear_not_kp v y = v\<lparr>adrs := (adrs v)\<lparr>adrs4 := y, adrs6 := 0, adrs7 := 0\<rparr>\<rparr>"

lemmas adrs_defs = adrs_set_layer_address_def adrs_set_tree_address_def adrs_set_key_pair_address_def
  adrs_set_tree_height_def adrs_set_chain_address_def adrs_set_tree_index_def adrs_set_hash_address_def
  adrs_set_type_def adrs_set_type_and_clear_def adrs_set_type_and_clear_not_kp_def

section \<open>Lengths and digits\<close>

definition slh_ct_compare :: "bytes \<Rightarrow> bytes \<Rightarrow> nat \<Rightarrow> bool" where
  "slh_ct_compare a b len \<longleftrightarrow> foldl (\<lambda>diff i. diff OR (a ! i XOR b ! i)) (0 :: u8) [0..<len] = 0"

definition get_len1 :: "'a slh_dims_scheme \<Rightarrow> nat" where
  "get_len1 p = (8 * prm_n p + (prm_lg_w p - 1)) div prm_lg_w p"

text \<open>\<open>while (cap < maxs) { len2++; cap <<= lg_w; }\<close>, which ends because the digits are not empty.\<close>

function gen_len2_loop :: "nat \<Rightarrow> nat \<Rightarrow> nat \<Rightarrow> nat \<Rightarrow> nat" where
  "gen_len2_loop lg_w maxs len2 cap =
     (if lg_w > 0 \<and> cap > 0 \<and> cap < maxs then gen_len2_loop lg_w maxs (len2 + 1) (cap * 2 ^ lg_w) else len2)"
  by auto
termination
proof (relation "measure (\<lambda>(lg_w, maxs, len2, cap). maxs - cap)")
  fix lg_w maxs len2 cap :: nat
  assume "0 < lg_w \<and> 0 < cap \<and> cap < maxs"
  then have "cap < cap * 2 ^ lg_w" and m: "cap < maxs"
    using mult_strict_left_mono [of 1 "2 ^ lg_w" cap] one_less_power [of "2 :: nat" lg_w] by simp_all
  from this(1) show "((lg_w, maxs, len2 + 1, cap * 2 ^ lg_w), lg_w, maxs, len2, cap)
      \<in> measure (\<lambda>(lg_w, maxs, len2, cap). maxs - cap)"
    unfolding in_measure prod.case using m by (intro diff_less_mono2)
qed simp

declare gen_len2_loop.simps [simp del]

definition gen_len2 :: "'a slh_dims_scheme \<Rightarrow> nat" where
  "gen_len2 p =
     (if prm_lg_w p = 4 \<and> prm_n p \<ge> 9 \<and> prm_n p \<le> 136 then 3
      else gen_len2_loop (prm_lg_w p) (get_len1 p * (2 ^ prm_lg_w p - 1)) 1 (2 ^ prm_lg_w p))"

definition get_len :: "'a slh_dims_scheme \<Rightarrow> nat" where
  "get_len p = get_len1 p + gen_len2 p"

definition slh_sig_sz :: "'a slh_dims_scheme \<Rightarrow> nat" where
  "slh_sig_sz p = (1 + prm_k p * (1 + prm_a p) + prm_h p + prm_d p * get_len p) * prm_n p"

definition slh_pk_sz :: "'a slh_dims_scheme \<Rightarrow> nat" where
  "slh_pk_sz p = 2 * prm_n p"

definition slh_sk_sz :: "'a slh_dims_scheme \<Rightarrow> nat" where
  "slh_sk_sz p = 4 * prm_n p"

text \<open>The bytes not yet read are a list; the callers give enough of them.\<close>

fun base_2b_fill :: "nat \<Rightarrow> bytes \<Rightarrow> nat \<Rightarrow> u32 \<Rightarrow> bytes \<times> nat \<times> u32" where
  "base_2b_fill b [] l t = ([], l, t)"
| "base_2b_fill b (x # xs) l t = (if l < b then base_2b_fill b xs (l + 8) (push_bit 8 t + ucast x) else (x # xs, l, t))"

primrec base_2b_loop :: "nat \<Rightarrow> nat \<Rightarrow> bytes \<Rightarrow> nat \<Rightarrow> u32 \<Rightarrow> u32 list" where
  "base_2b_loop 0 b xs l t = []"
| "base_2b_loop (Suc n) b xs l t =
     (let (xs, l, t) = base_2b_fill b xs l t; l = l - b
      in (drop_bit l t AND mask b) # base_2b_loop n b xs l t)"

definition base_2b :: "bytes \<Rightarrow> nat \<Rightarrow> nat \<Rightarrow> u32 list" where
  "base_2b x b v_len = base_2b_loop v_len b x 0 0"

definition wots_csum :: "bytes \<Rightarrow> 'a slh_dims_scheme \<Rightarrow> u32 list" where
  "wots_csum m p =
     (let len1 = get_len1 p; len2 = gen_len2 p;
          vm = base_2b m (prm_lg_w p) len1;
          csum = foldl (\<lambda>csum x. csum + (mask (prm_lg_w p) - x)) 0 vm;
          csum = push_bit ((8 - (len2 * prm_lg_w p) mod 8) mod 8) csum;
          t = (len2 * prm_lg_w p + 7) div 8;
          buf = slh_tobyte (ucast csum) t @ replicate (4 - t) 0
      in vm @ base_2b buf (prm_lg_w p) len2)"

section \<open>Loops\<close>

text \<open>\<open>for (i = a; i < a + n; i++)\<close> with a body that writes one piece of the output and changes the state.\<close>

primrec for_range :: "(nat \<Rightarrow> 's \<Rightarrow> 'a \<times> 's) \<Rightarrow> nat \<Rightarrow> nat \<Rightarrow> 's \<Rightarrow> 'a list \<times> 's" where
  "for_range f i 0 s = ([], s)"
| "for_range f i (Suc n) s = (let (x, s) = f i s; (xs, s) = for_range f (Suc i) n s in (x # xs, s))"

definition chunk :: "nat \<Rightarrow> nat \<Rightarrow> bytes \<Rightarrow> bytes" where
  "chunk n i xs = take n (drop (i * n) xs)"

text \<open>\<open>k ^ 1\<close>\<close>

definition xor1 :: "nat \<Rightarrow> nat" where
  "xor1 k = (if even k then k + 1 else k - 1)"

text \<open>
  The loop of \<open>xmss_node\<close> and \<open>fors_node\<close>: after leaf \<open>j\<close> the inner loop \<open>for (k = 0; (j >> k) & 1; k++)\<close>
  joins the two topmost nodes.  \<open>i\<close> is the index of the leaf in the whole tree.
\<close>

fun tree_merge ::
  "(nat \<Rightarrow> nat \<Rightarrow> bytes \<Rightarrow> bytes \<Rightarrow> slh_var \<Rightarrow> bytes \<times> slh_var) \<Rightarrow> nat \<Rightarrow> nat \<Rightarrow> nat \<Rightarrow> slh_var \<Rightarrow> bytes list
     \<Rightarrow> bytes list \<times> slh_var" where
  "tree_merge join j i k v (r # l # stk) =
     (if bit j k then (let (x, v) = join k i l r v in tree_merge join j i (k + 1) v (x # stk)) else (r # l # stk, v))"
| "tree_merge join j i k v stk = (stk, v)"

primrec tree_loop ::
  "(nat \<Rightarrow> slh_var \<Rightarrow> bytes \<times> slh_var) \<Rightarrow> (nat \<Rightarrow> nat \<Rightarrow> bytes \<Rightarrow> bytes \<Rightarrow> slh_var \<Rightarrow> bytes \<times> slh_var)
     \<Rightarrow> nat \<Rightarrow> nat \<Rightarrow> nat \<Rightarrow> slh_var \<Rightarrow> bytes list \<Rightarrow> bytes list \<times> slh_var" where
  "tree_loop leaf join 0 j i v stk = (stk, v)"
| "tree_loop leaf join (Suc n) j i v stk =
     (let (x, v) = leaf i v; (stk, v) = tree_merge join j i 0 v (x # stk)
      in tree_loop leaf join n (j + 1) (i + 1) v stk)"

definition tree_hash ::
  "(nat \<Rightarrow> slh_var \<Rightarrow> bytes \<times> slh_var) \<Rightarrow> (nat \<Rightarrow> nat \<Rightarrow> bytes \<Rightarrow> bytes \<Rightarrow> slh_var \<Rightarrow> bytes \<times> slh_var)
     \<Rightarrow> slh_var \<Rightarrow> nat \<Rightarrow> nat \<Rightarrow> bytes \<times> slh_var" where
  "tree_hash leaf join v i z = (let (stk, v) = tree_loop leaf join (2 ^ z) 0 (i * 2 ^ z) v [] in (last stk, v))"

section \<open>WOTS+\<close>

definition wots_sign :: "slh_param \<Rightarrow> slh_var \<Rightarrow> bytes \<Rightarrow> bytes \<times> slh_var" where
  "wots_sign p v m =
     (let vm = wots_csum m p;
          (xs, v) = for_range (\<lambda>i v. wots_chain p (adrs_set_chain_address v i) (unat (vm ! i))) 0 (get_len p) v
      in (concat xs, v))"

definition wots_pk_from_sig :: "slh_param \<Rightarrow> slh_var \<Rightarrow> bytes \<Rightarrow> bytes \<Rightarrow> bytes \<times> slh_var" where
  "wots_pk_from_sig p v sig m =
     (let vm = wots_csum m p; t = 2 ^ prm_lg_w p - 1;
          (xs, v) = for_range (\<lambda>i v. chain p (adrs_set_chain_address v i) (chunk (prm_n p) i sig)
                                  (unat (vm ! i)) (t - unat (vm ! i))) 0 (get_len p) v;
          v = adrs_set_type_and_clear_not_kp v ADRS_WOTS_PK
      in (h_t p v (concat xs), v))"

section \<open>XMSS\<close>

definition xmss_leaf :: "slh_param \<Rightarrow> nat \<Rightarrow> slh_var \<Rightarrow> bytes \<times> slh_var" where
  "xmss_leaf p i v =
     (let v = adrs_set_key_pair_address v i;
          (xs, v) = for_range (\<lambda>k v. wots_chain p (adrs_set_chain_address v k) (2 ^ prm_lg_w p - 1)) 0 (get_len p) v;
          v = adrs_set_type_and_clear_not_kp v ADRS_WOTS_PK
      in (h_t p v (concat xs), v))"

definition xmss_join :: "slh_param \<Rightarrow> nat \<Rightarrow> nat \<Rightarrow> bytes \<Rightarrow> bytes \<Rightarrow> slh_var \<Rightarrow> bytes \<times> slh_var" where
  "xmss_join p k i l r v =
     (let v = adrs_set_type_and_clear v ADRS_TREE;
          v = adrs_set_tree_height v (k + 1);
          v = adrs_set_tree_index v (i div 2 ^ (k + 1))
      in (h_h p v l r, v))"

definition xmss_node :: "slh_param \<Rightarrow> slh_var \<Rightarrow> nat \<Rightarrow> nat \<Rightarrow> bytes \<times> slh_var" where
  "xmss_node p v i z = tree_hash (xmss_leaf p) (xmss_join p) v i z"

definition xmss_sign :: "slh_param \<Rightarrow> slh_var \<Rightarrow> bytes \<Rightarrow> nat \<Rightarrow> bytes \<times> slh_var" where
  "xmss_sign p v m idx =
     (let (auth, v) = for_range (\<lambda>j v. xmss_node p v (xor1 (idx div 2 ^ j)) j) 0 (prm_hp p) v;
          v = adrs_set_type_and_clear_not_kp v ADRS_WOTS_HASH;
          v = adrs_set_key_pair_address v idx;
          (sx, v) = wots_sign p v m
      in (sx @ concat auth, v))"

definition xmss_climb :: "slh_param \<Rightarrow> nat \<Rightarrow> bytes \<Rightarrow> bytes \<times> slh_var \<Rightarrow> nat \<Rightarrow> bytes \<times> slh_var" where
  "xmss_climb p idx auth nv k =
     (let (node, v) = nv;
          v = adrs_set_tree_height v (k + 1);
          v = adrs_set_tree_index v (idx div 2 ^ (k + 1));
          a = chunk (prm_n p) k auth
      in (if even (idx div 2 ^ k) then h_h p v node a else h_h p v a node, v))"

definition xmss_pk_from_sig :: "slh_param \<Rightarrow> slh_var \<Rightarrow> nat \<Rightarrow> bytes \<Rightarrow> bytes \<Rightarrow> bytes \<times> slh_var" where
  "xmss_pk_from_sig p v idx sig m =
     (let v = adrs_set_type_and_clear_not_kp v ADRS_WOTS_HASH;
          v = adrs_set_key_pair_address v idx;
          (root, v) = wots_pk_from_sig p v sig m;
          v = adrs_set_type_and_clear v ADRS_TREE;
          auth = drop (get_len p * prm_n p) sig
      in foldl (xmss_climb p idx auth) (root, v) [0..<prm_hp p])"

section \<open>The hypertree\<close>

primrec ht_sign_loop ::
  "slh_param \<Rightarrow> nat \<Rightarrow> nat \<Rightarrow> slh_var \<Rightarrow> bytes \<Rightarrow> bytes \<Rightarrow> u64 \<Rightarrow> nat \<Rightarrow> bytes \<times> slh_var" where
  "ht_sign_loop p 0 j v m sx i_tree i_leaf = ([], v)"
| "ht_sign_loop p (Suc n) j v m sx i_tree i_leaf =
     (let (m, v) = xmss_pk_from_sig p v i_leaf sx m;
          i_leaf = unat (i_tree AND mask (prm_hp p));
          i_tree = drop_bit (prm_hp p) i_tree;
          v = adrs_set_layer_address v j;
          v = adrs_set_tree_address v i_tree;
          (sx, v) = xmss_sign p v m i_leaf;
          (rest, v) = ht_sign_loop p n (j + 1) v m sx i_tree i_leaf
      in (sx @ rest, v))"

definition ht_sign :: "slh_param \<Rightarrow> slh_var \<Rightarrow> bytes \<Rightarrow> u64 \<Rightarrow> nat \<Rightarrow> bytes \<times> slh_var" where
  "ht_sign p v m i_tree i_leaf =
     (let v = adrs_zero v;
          v = adrs_set_tree_address v i_tree;
          (sx, v) = xmss_sign p v m i_leaf;
          (rest, v) = ht_sign_loop p (prm_d p - 1) 1 v m sx i_tree i_leaf
      in (sx @ rest, v))"

primrec ht_verify_loop ::
  "slh_param \<Rightarrow> nat \<Rightarrow> nat \<Rightarrow> slh_var \<Rightarrow> bytes \<Rightarrow> bytes \<Rightarrow> u64 \<Rightarrow> bytes \<times> slh_var" where
  "ht_verify_loop p 0 j v node sig i_tree = (node, v)"
| "ht_verify_loop p (Suc n) j v node sig i_tree =
     (let i_leaf = unat (i_tree AND mask (prm_hp p));
          i_tree = drop_bit (prm_hp p) i_tree;
          v = adrs_set_layer_address v j;
          v = adrs_set_tree_address v i_tree;
          sig = drop ((prm_hp p + get_len p) * prm_n p) sig;
          (node, v) = xmss_pk_from_sig p v i_leaf sig node
      in ht_verify_loop p n (j + 1) v node sig i_tree)"

definition ht_verify :: "slh_param \<Rightarrow> slh_var \<Rightarrow> bytes \<Rightarrow> bytes \<Rightarrow> u64 \<Rightarrow> nat \<Rightarrow> bool" where
  "ht_verify p v m sig_ht i_tree i_leaf =
     (let v = adrs_zero v;
          v = adrs_set_tree_address v i_tree;
          (node, v) = xmss_pk_from_sig p v i_leaf sig_ht m;
          (node, v) = ht_verify_loop p (prm_d p - 1) 1 v node sig_ht i_tree
      in slh_ct_compare node (pk_root v) (prm_n p))"

section \<open>FORS\<close>

definition fors_leaf :: "slh_param \<Rightarrow> nat \<Rightarrow> slh_var \<Rightarrow> bytes \<times> slh_var" where
  "fors_leaf p i v = fors_hash p (adrs_set_tree_index v i) 1"

definition fors_join :: "slh_param \<Rightarrow> nat \<Rightarrow> nat \<Rightarrow> bytes \<Rightarrow> bytes \<Rightarrow> slh_var \<Rightarrow> bytes \<times> slh_var" where
  "fors_join p k i l r v =
     (let v = adrs_set_tree_height v (k + 1);
          v = adrs_set_tree_index v (i div 2 ^ (k + 1))
      in (h_h p v l r, v))"

definition fors_node :: "slh_param \<Rightarrow> slh_var \<Rightarrow> nat \<Rightarrow> nat \<Rightarrow> bytes \<times> slh_var" where
  "fors_node p v i z = tree_hash (fors_leaf p) (fors_join p) v i z"

definition fors_sign_tree :: "slh_param \<Rightarrow> u32 list \<Rightarrow> nat \<Rightarrow> slh_var \<Rightarrow> bytes \<times> slh_var" where
  "fors_sign_tree p vi i v =
     (let v = adrs_set_tree_index v (i * 2 ^ prm_a p + unat (vi ! i));
          (sf, v) = fors_hash p v 0;
          (auth, v) = for_range (\<lambda>j v. fors_node p v
                          (i * 2 ^ (prm_a p - j) + xor1 (unat (vi ! i) div 2 ^ j)) j) 0 (prm_a p) v
      in (sf @ concat auth, v))"

definition fors_sign :: "slh_param \<Rightarrow> slh_var \<Rightarrow> bytes \<Rightarrow> bytes \<times> slh_var" where
  "fors_sign p v md =
     (let vi = base_2b md (prm_a p) (prm_k p);
          (xs, v) = for_range (fors_sign_tree p vi) 0 (prm_k p) v
      in (concat xs, v))"

definition fors_climb :: "slh_param \<Rightarrow> nat \<Rightarrow> nat \<Rightarrow> bytes \<Rightarrow> bytes \<times> slh_var \<Rightarrow> nat \<Rightarrow> bytes \<times> slh_var" where
  "fors_climb p idx vi auth nv j =
     (let (node, v) = nv;
          v = adrs_set_tree_height v (j + 1);
          v = adrs_set_tree_index v (idx div 2 ^ (j + 1));
          a = chunk (prm_n p) j auth
      in (if even (vi div 2 ^ j) then h_h p v node a else h_h p v a node, v))"

definition fors_root :: "slh_param \<Rightarrow> bytes \<Rightarrow> u32 list \<Rightarrow> nat \<Rightarrow> slh_var \<Rightarrow> bytes \<times> slh_var" where
  "fors_root p sf vi i v =
     (let v = adrs_set_tree_height v 0;
          idx = i * 2 ^ prm_a p + unat (vi ! i);
          v = adrs_set_tree_index v idx;
          sf = drop (i * ((1 + prm_a p) * prm_n p)) sf;
          node = h_f p v (take (prm_n p) sf)
      in foldl (fors_climb p idx (unat (vi ! i)) (drop (prm_n p) sf)) (node, v) [0..<prm_a p])"

definition fors_pk_from_sig :: "slh_param \<Rightarrow> slh_var \<Rightarrow> bytes \<Rightarrow> bytes \<Rightarrow> bytes \<times> slh_var" where
  "fors_pk_from_sig p v sf md =
     (let vi = base_2b md (prm_a p) (prm_k p);
          (roots, v) = for_range (fors_root p sf vi) 0 (prm_k p) v;
          v = adrs_set_type_and_clear_not_kp v ADRS_FORS_ROOTS
      in (h_t p v (concat roots), v))"

section \<open>Keys, signing and verification\<close>

text \<open>
  \<open>v0\<close> is the uninitialised local context.  \<open>slh_keygen\<close> gets the first \<open>3 n\<close> bytes that the secret
  key buffer holds after the call of the random generator, whose status it does not look at.
\<close>

definition slh_keygen_internal ::
  "slh_param \<Rightarrow> slh_var \<Rightarrow> bytes \<Rightarrow> bytes \<Rightarrow> bytes \<Rightarrow> bytes \<times> bytes" where
  "slh_keygen_internal p v0 skseed skprf pkseed =
     (let n = prm_n p;
          sk = take n skseed @ take n skprf @ take n pkseed @ replicate n 0;
          v = mk_var p v0 None (Some sk) (slh_dims.truncate p);
          v = adrs_zero v;
          v = adrs_set_layer_address v (prm_d p - 1);
          (root, v) = xmss_node p v 0 (prm_hp p)
      in (take (3 * n) sk @ root, take n pkseed @ root))"

definition slh_keygen :: "slh_param \<Rightarrow> slh_var \<Rightarrow> bytes \<Rightarrow> bytes \<times> bytes" where
  "slh_keygen p v0 buf =
     (let n = prm_n p;
          sk = take (3 * n) buf @ replicate n 0;
          v = mk_var p v0 None (Some sk) (slh_dims.truncate p);
          v = adrs_zero v;
          v = adrs_set_layer_address v (prm_d p - 1);
          (root, v) = xmss_node p v 0 (prm_hp p)
      in (take (3 * n) sk @ root, take n (drop (2 * n) sk) @ root))"

definition split_digest :: "bytes \<Rightarrow> 'a slh_dims_scheme \<Rightarrow> u64 \<times> nat" where
  "split_digest digest p =
     (let md_sz = (prm_k p * prm_a p + 7) div 8;
          i_tree_sz = (prm_h p - prm_hp p + 7) div 8;
          i_leaf_sz = (prm_hp p + 7) div 8;
          pi_tree = drop md_sz digest;
          pi_leaf = drop i_tree_sz pi_tree;
          i_tree = slh_toint (take i_tree_sz pi_tree);
          i_leaf = ucast (slh_toint (take i_leaf_sz pi_leaf)) :: u32;
          i_tree = (if prm_h p - prm_hp p \<noteq> 64 then i_tree AND mask (prm_h p - prm_hp p) else i_tree)
      in (i_tree, unat (i_leaf AND mask (prm_hp p))))"

definition slh_fors_address :: "slh_var \<Rightarrow> u64 \<Rightarrow> nat \<Rightarrow> slh_var" where
  "slh_fors_address v i_tree i_leaf =
     (let v = adrs_zero v;
          v = adrs_set_tree_address v i_tree;
          v = adrs_set_type_and_clear_not_kp v ADRS_FORS_TREE
      in adrs_set_key_pair_address v i_leaf)"

definition slh_sign_digest :: "slh_param \<Rightarrow> slh_var \<Rightarrow> bytes \<Rightarrow> bytes" where
  "slh_sign_digest p v digest =
     (let (i_tree, i_leaf) = split_digest digest p;
          v = slh_fors_address v i_tree i_leaf;
          (sig_fors, v) = fors_sign p v digest;
          (pk_fors, v) = fors_pk_from_sig p v sig_fors digest;
          (sig_ht, v) = ht_sign p v pk_fors i_tree i_leaf
      in sig_fors @ sig_ht)"

definition slh_sign_internal :: "slh_param \<Rightarrow> slh_var \<Rightarrow> bytes \<Rightarrow> bytes \<Rightarrow> bytes option \<Rightarrow> bytes" where
  "slh_sign_internal p v0 m sk addrnd =
     (let v = mk_var p v0 None (Some sk) (slh_dims.truncate p);
          opt_rand = (case addrnd of Some r \<Rightarrow> r | None \<Rightarrow> pk_seed v);
          r = prf_msg p v opt_rand m None;
          digest = h_msg p v r m None
      in r @ slh_sign_digest p v digest)"

text \<open>\<open>slh_sign\<close> returns the size of the signature, or 0 when the context is too long.\<close>

definition slh_sign :: "slh_param \<Rightarrow> slh_var \<Rightarrow> bytes \<Rightarrow> bytes \<Rightarrow> bytes \<Rightarrow> bytes option \<Rightarrow> bytes option" where
  "slh_sign p v0 m ctx sk addrnd =
     (if length ctx > 255 then None
      else let v = mk_var p v0 None (Some sk) (slh_dims.truncate p);
               opt_rand = (case addrnd of Some r \<Rightarrow> r | None \<Rightarrow> pk_seed v);
               r = prf_msg p v opt_rand m (Some ctx);
               digest = h_msg p v r m (Some ctx)
           in Some (r @ slh_sign_digest p v digest))"

definition slh_verify_digest :: "slh_param \<Rightarrow> slh_var \<Rightarrow> bytes \<Rightarrow> bytes \<Rightarrow> bool" where
  "slh_verify_digest p v digest sig =
     (let sig_fors = drop (prm_n p) sig;
          sig_ht = drop ((1 + prm_k p * (1 + prm_a p)) * prm_n p) sig
      in if length sig \<noteq> slh_sig_sz p then False
         else let (i_tree, i_leaf) = split_digest digest p;
                  v = slh_fors_address v i_tree i_leaf;
                  (pk_fors, v) = fors_pk_from_sig p v sig_fors digest
              in ht_verify p v pk_fors sig_ht i_tree i_leaf)"

definition slh_verify_internal :: "slh_param \<Rightarrow> slh_var \<Rightarrow> bytes \<Rightarrow> bytes \<Rightarrow> bytes \<Rightarrow> bool" where
  "slh_verify_internal p v0 m sig pk =
     (let v = mk_var p v0 (Some pk) None (slh_dims.truncate p);
          digest = h_msg p v (take (prm_n p) sig) m None
      in slh_verify_digest p v digest sig)"

definition slh_verify :: "slh_param \<Rightarrow> slh_var \<Rightarrow> bytes \<Rightarrow> bytes \<Rightarrow> bytes \<Rightarrow> bytes \<Rightarrow> bool" where
  "slh_verify p v0 m sig ctx pk =
     (if length ctx > 255 then False
      else let v = mk_var p v0 (Some pk) None (slh_dims.truncate p);
               digest = h_msg p v (take (prm_n p) sig) m (Some ctx)
           in slh_verify_digest p v digest sig)"

end
