(* ===== verification/SlhFips.thy ===== *)
theory SlhFips
  imports Slh
begin

text \<open>
  FIPS 205 over abstract hash functions: recursive Merkle trees, WOTS+, XMSS, the hypertree and
  FORS, written from the algorithms of the standard.  The lengths of the parts, that a signature
  of each layer gives back the public value of the layer, and that verification accepts what
  signing gives.
\<close>

section \<open>FIPS 205\<close>

text \<open>
  The algorithms of the standard over the keyed hash functions: \<open>tF\<close>, \<open>tH\<close>, \<open>tT\<close> and \<open>tPRF\<close> are F, H,
  \<open>T\<^sub>l\<close> and PRF with the seeds of the key.  \<open>ad A t kp x y\<close> is the address of layer and tree of \<open>A\<close>
  with the last four words given.
\<close>

record tweak =
  tF :: "adrs_t \<Rightarrow> bytes \<Rightarrow> bytes"
  tH :: "adrs_t \<Rightarrow> bytes \<Rightarrow> bytes \<Rightarrow> bytes"
  tT :: "adrs_t \<Rightarrow> bytes \<Rightarrow> bytes"
  tPRF :: "adrs_t \<Rightarrow> bytes"

definition ad :: "adrs_t \<Rightarrow> u32 \<Rightarrow> u32 \<Rightarrow> u32 \<Rightarrow> u32 \<Rightarrow> adrs_t" where
  "ad A t kp x y = A\<lparr>adrs4 := t, adrs5 := kp, adrs6 := x, adrs7 := y\<rparr>"

primrec fips_chain :: "tweak \<Rightarrow> adrs_t \<Rightarrow> bytes \<Rightarrow> nat \<Rightarrow> nat \<Rightarrow> bytes" where
  "fips_chain K A x i 0 = x"
| "fips_chain K A x i (Suc s) = tF K (A\<lparr>adrs7 := of_nat (i + s)\<rparr>) (fips_chain K A x i s)"

definition wots_digits :: "'a slh_dims_scheme \<Rightarrow> bytes \<Rightarrow> nat \<Rightarrow> nat" where
  "wots_digits p m i = unat (wots_csum m p ! i)"

definition wots_key :: "tweak \<Rightarrow> adrs_t \<Rightarrow> u32 \<Rightarrow> nat \<Rightarrow> nat \<Rightarrow> bytes" where
  "wots_key K A kp i s =
     fips_chain K (ad A ADRS_WOTS_HASH kp (of_nat i) 0) (tPRF K (ad A ADRS_WOTS_PRF kp (of_nat i) 0)) 0 s"

definition fips_wots_pk :: "'a slh_dims_scheme \<Rightarrow> tweak \<Rightarrow> adrs_t \<Rightarrow> u32 \<Rightarrow> bytes" where
  "fips_wots_pk p K A kp =
     tT K (ad A ADRS_WOTS_PK kp 0 0) (concat (map (\<lambda>i. wots_key K A kp i (2 ^ prm_lg_w p - 1)) [0..<get_len p]))"

definition fips_wots_sign :: "'a slh_dims_scheme \<Rightarrow> tweak \<Rightarrow> adrs_t \<Rightarrow> u32 \<Rightarrow> bytes \<Rightarrow> bytes" where
  "fips_wots_sign p K A kp m = concat (map (\<lambda>i. wots_key K A kp i (wots_digits p m i)) [0..<get_len p])"

definition fips_wots_pk_from_sig ::
  "'a slh_dims_scheme \<Rightarrow> tweak \<Rightarrow> adrs_t \<Rightarrow> u32 \<Rightarrow> bytes \<Rightarrow> bytes \<Rightarrow> bytes" where
  "fips_wots_pk_from_sig p K A kp sig m =
     tT K (ad A ADRS_WOTS_PK kp 0 0)
       (concat (map (\<lambda>i. fips_chain K (ad A ADRS_WOTS_HASH kp (of_nat i) 0) (chunk (prm_n p) i sig)
                             (wots_digits p m i) (2 ^ prm_lg_w p - 1 - wots_digits p m i)) [0..<get_len p]))"

text \<open>A Merkle tree: the node at height \<open>z\<close> and index \<open>i\<close>, from its leaves and the hash of two nodes.\<close>

fun merkle :: "(nat \<Rightarrow> 'a) \<Rightarrow> (nat \<Rightarrow> nat \<Rightarrow> 'a \<Rightarrow> 'a \<Rightarrow> 'a) \<Rightarrow> nat \<Rightarrow> nat \<Rightarrow> 'a" where
  "merkle lf jn i 0 = lf i"
| "merkle lf jn i (Suc z) = jn z i (merkle lf jn (2 * i) z) (merkle lf jn (2 * i + 1) z)"

definition climb :: "(nat \<Rightarrow> nat \<Rightarrow> 'a \<Rightarrow> 'a \<Rightarrow> 'a) \<Rightarrow> nat \<Rightarrow> (nat \<Rightarrow> 'a) \<Rightarrow> 'a \<Rightarrow> nat \<Rightarrow> 'a" where
  "climb jn idx auth node h =
     foldl (\<lambda>node k. if even (idx div 2 ^ k) then jn k (idx div 2 ^ (k + 1)) node (auth k)
                      else jn k (idx div 2 ^ (k + 1)) (auth k) node) node [0..<h]"

definition xmss_parent :: "tweak \<Rightarrow> adrs_t \<Rightarrow> nat \<Rightarrow> nat \<Rightarrow> bytes \<Rightarrow> bytes \<Rightarrow> bytes" where
  "xmss_parent K A z i = tH K (ad A ADRS_TREE 0 (of_nat (z + 1)) (of_nat i))"

definition fips_xmss_node :: "'a slh_dims_scheme \<Rightarrow> tweak \<Rightarrow> adrs_t \<Rightarrow> nat \<Rightarrow> nat \<Rightarrow> bytes" where
  "fips_xmss_node p K A = merkle (\<lambda>i. fips_wots_pk p K A (of_nat i)) (xmss_parent K A)"

definition fips_xmss_sign :: "'a slh_dims_scheme \<Rightarrow> tweak \<Rightarrow> adrs_t \<Rightarrow> bytes \<Rightarrow> nat \<Rightarrow> bytes" where
  "fips_xmss_sign p K A m idx =
     fips_wots_sign p K A (of_nat idx) m
     @ concat (map (\<lambda>j. fips_xmss_node p K A (xor1 (idx div 2 ^ j)) j) [0..<prm_hp p])"

definition fips_xmss_pk_from_sig :: "'a slh_dims_scheme \<Rightarrow> tweak \<Rightarrow> adrs_t \<Rightarrow> nat \<Rightarrow> bytes \<Rightarrow> bytes \<Rightarrow> bytes" where
  "fips_xmss_pk_from_sig p K A idx sig m =
     climb (xmss_parent K A) idx (\<lambda>k. chunk (prm_n p) k (drop (get_len p * prm_n p) sig))
       (fips_wots_pk_from_sig p K A (of_nat idx) sig m) (prm_hp p)"

text \<open>The address of a tree of the hypertree: its layer and its 64-bit index in the layer.\<close>

definition tree_adrs :: "nat \<Rightarrow> u64 \<Rightarrow> adrs_t" where
  "tree_adrs j t = \<lparr>adrs0 = of_nat j, adrs1 = 0, adrs2 = ucast (drop_bit 32 t), adrs3 = ucast (t AND 0xFFFFFFFF),
     adrs4 = 0, adrs5 = 0, adrs6 = 0, adrs7 = 0\<rparr>"

primrec fips_ht_sign :: "'a slh_dims_scheme \<Rightarrow> tweak \<Rightarrow> nat \<Rightarrow> nat \<Rightarrow> bytes \<Rightarrow> u64 \<Rightarrow> nat \<Rightarrow> bytes" where
  "fips_ht_sign p K 0 j m t leaf = []"
| "fips_ht_sign p K (Suc n) j m t leaf =
     (let sx = fips_xmss_sign p K (tree_adrs j t) m leaf
      in sx @ fips_ht_sign p K n (j + 1) (fips_xmss_pk_from_sig p K (tree_adrs j t) leaf sx m)
                (drop_bit (prm_hp p) t) (unat (t AND mask (prm_hp p))))"

primrec fips_ht_root :: "'a slh_dims_scheme \<Rightarrow> tweak \<Rightarrow> nat \<Rightarrow> nat \<Rightarrow> bytes \<Rightarrow> bytes \<Rightarrow> u64 \<Rightarrow> nat \<Rightarrow> bytes" where
  "fips_ht_root p K 0 j m sig t leaf = m"
| "fips_ht_root p K (Suc n) j m sig t leaf =
     fips_ht_root p K n (j + 1) (fips_xmss_pk_from_sig p K (tree_adrs j t) leaf sig m)
       (drop ((prm_hp p + get_len p) * prm_n p) sig) (drop_bit (prm_hp p) t) (unat (t AND mask (prm_hp p)))"

definition fors_key :: "tweak \<Rightarrow> adrs_t \<Rightarrow> u32 \<Rightarrow> nat \<Rightarrow> bytes" where
  "fors_key K A kp i = tPRF K (ad A ADRS_FORS_PRF kp 0 (of_nat i))"

definition fors_parent :: "tweak \<Rightarrow> adrs_t \<Rightarrow> u32 \<Rightarrow> nat \<Rightarrow> nat \<Rightarrow> bytes \<Rightarrow> bytes \<Rightarrow> bytes" where
  "fors_parent K A kp z i = tH K (ad A ADRS_FORS_TREE kp (of_nat (z + 1)) (of_nat i))"

definition fips_fors_node :: "tweak \<Rightarrow> adrs_t \<Rightarrow> u32 \<Rightarrow> nat \<Rightarrow> nat \<Rightarrow> bytes" where
  "fips_fors_node K A kp =
     merkle (\<lambda>i. tF K (ad A ADRS_FORS_TREE kp 0 (of_nat i)) (fors_key K A kp i)) (fors_parent K A kp)"

definition fips_fors_tree :: "'a slh_dims_scheme \<Rightarrow> tweak \<Rightarrow> adrs_t \<Rightarrow> u32 \<Rightarrow> nat \<Rightarrow> nat \<Rightarrow> bytes" where
  "fips_fors_tree p K A kp i x =
     fors_key K A kp (i * 2 ^ prm_a p + x)
     @ concat (map (\<lambda>j. fips_fors_node K A kp (i * 2 ^ (prm_a p - j) + xor1 (x div 2 ^ j)) j) [0..<prm_a p])"

definition fors_digits :: "'a slh_dims_scheme \<Rightarrow> bytes \<Rightarrow> nat \<Rightarrow> nat" where
  "fors_digits p md i = unat (base_2b md (prm_a p) (prm_k p) ! i)"

definition fips_fors_sign :: "'a slh_dims_scheme \<Rightarrow> tweak \<Rightarrow> adrs_t \<Rightarrow> u32 \<Rightarrow> bytes \<Rightarrow> bytes" where
  "fips_fors_sign p K A kp md = concat (map (\<lambda>i. fips_fors_tree p K A kp i (fors_digits p md i)) [0..<prm_k p])"

definition fips_fors_root :: "'a slh_dims_scheme \<Rightarrow> tweak \<Rightarrow> adrs_t \<Rightarrow> u32 \<Rightarrow> bytes \<Rightarrow> nat \<Rightarrow> nat \<Rightarrow> bytes" where
  "fips_fors_root p K A kp sf i x =
     (let idx = i * 2 ^ prm_a p + x; s = drop (i * ((1 + prm_a p) * prm_n p)) sf
      in climb (fors_parent K A kp) idx (\<lambda>j. chunk (prm_n p) j (drop (prm_n p) s))
           (tF K (ad A ADRS_FORS_TREE kp 0 (of_nat idx)) (take (prm_n p) s)) (prm_a p))"

definition fips_fors_pk_from_sig :: "'a slh_dims_scheme \<Rightarrow> tweak \<Rightarrow> adrs_t \<Rightarrow> u32 \<Rightarrow> bytes \<Rightarrow> bytes \<Rightarrow> bytes" where
  "fips_fors_pk_from_sig p K A kp sf md =
     tT K (ad A ADRS_FORS_ROOTS kp 0 0) (concat (map (\<lambda>i. fips_fors_root p K A kp sf i (fors_digits p md i)) [0..<prm_k p]))"

definition fips_sign_digest :: "'a slh_dims_scheme \<Rightarrow> tweak \<Rightarrow> bytes \<Rightarrow> bytes" where
  "fips_sign_digest p K digest =
     (let (t, leaf) = split_digest digest p;
          sf = fips_fors_sign p K (tree_adrs 0 t) (of_nat leaf) digest;
          pk = fips_fors_pk_from_sig p K (tree_adrs 0 t) (of_nat leaf) sf digest
      in sf @ fips_ht_sign p K (prm_d p) 0 pk t leaf)"

definition fips_verify_digest :: "'a slh_dims_scheme \<Rightarrow> tweak \<Rightarrow> bytes \<Rightarrow> bytes \<Rightarrow> bytes \<Rightarrow> bool" where
  "fips_verify_digest p K root digest sig \<longleftrightarrow>
     (let (t, leaf) = split_digest digest p;
          pk = fips_fors_pk_from_sig p K (tree_adrs 0 t) (of_nat leaf) (drop (prm_n p) sig) digest
      in length sig = slh_sig_sz p
         \<and> fips_ht_root p K (prm_d p) 0 pk (drop ((1 + prm_k p * (1 + prm_a p)) * prm_n p) sig) t leaf = root)"

definition fips_root :: "'a slh_dims_scheme \<Rightarrow> tweak \<Rightarrow> bytes" where
  "fips_root p K = fips_xmss_node p K (tree_adrs (prm_d p - 1) 0) 0 (prm_hp p)"

section \<open>Trees\<close>

lemma xor1_cases: "even k \<Longrightarrow> xor1 k = k + 1" "odd k \<Longrightarrow> xor1 k = k - 1"
  by (simp_all add: xor1_def)

lemma climb_0 [simp]: "climb jn idx auth node 0 = node"
  by (simp add: climb_def)

lemma climb_Suc:
  "climb jn idx auth node (Suc h) =
     (if even (idx div 2 ^ h) then jn h (idx div 2 ^ (h + 1)) (climb jn idx auth node h) (auth h)
      else jn h (idx div 2 ^ (h + 1)) (auth h) (climb jn idx auth node h))"
  by (simp add: climb_def)

lemma div_pow_Suc: "(idx :: nat) div (2 * 2 ^ h) = idx div 2 ^ h div 2"
  using div_mult2_eq [of idx "2 ^ h" 2] by (simp add: mult.commute)

lemma climb_merkle:
  assumes "\<And>k. k < h \<Longrightarrow> auth k = merkle lf jn (xor1 (idx div 2 ^ k)) k"
  shows "climb jn idx auth (merkle lf jn idx 0) h = merkle lf jn (idx div 2 ^ h) h"
  using assms
proof (induction h)
  case (Suc h)
  then have IH: "climb jn idx auth (lf idx) h = merkle lf jn (idx div 2 ^ h) h"
    and auth: "auth h = merkle lf jn (xor1 (idx div 2 ^ h)) h" by simp_all
  let ?i = "idx div 2 ^ h"
  show ?case
  proof (cases "even ?i")
    case True
    then have "2 * (?i div 2) = ?i" by simp
    with True IH auth show ?thesis by (simp add: climb_Suc div_pow_Suc xor1_cases)
  next
    case False
    then have "Suc (2 * (?i div 2)) = ?i" "2 * (?i div 2) = ?i - 1" by (simp_all add: odd_two_times_div_two_succ)
    with False IH auth show ?thesis by (simp add: climb_Suc div_pow_Suc xor1_cases)
  qed
qed simp

lemma merkle_all:
  assumes "\<And>i. G (lf i)" "\<And>k i l r. G l \<Longrightarrow> G r \<Longrightarrow> G (jn k i l r)"
  shows "G (merkle lf jn i z)"
  using assms by (induction z arbitrary: i) auto

section \<open>Lengths and bounds\<close>

lemma length_base_2b [simp]: "length (base_2b x b n) = n"
proof -
  have "length (base_2b_loop n b x l t) = n" for l t
    by (induction n arbitrary: x l t) (auto simp: Let_def split: prod.split)
  then show ?thesis by (simp add: base_2b_def)
qed

lemma unat_and_mask_less: "unat (w AND mask b :: 'a :: len word) < 2 ^ b"
  by (metis take_bit_eq_mask unsigned_take_bit_eq take_bit_nat_less_exp)

lemma base_2b_less: "i < n \<Longrightarrow> unat (base_2b x b n ! i) < 2 ^ b"
proof -
  have "i < n \<Longrightarrow> unat (base_2b_loop n b x l t ! i) < 2 ^ b" for l t
    by (induction n arbitrary: i x l t) (auto simp: Let_def nth_Cons' unat_and_mask_less split: prod.split)
  then show "i < n \<Longrightarrow> unat (base_2b x b n ! i) < 2 ^ b" by (simp add: base_2b_def)
qed

lemma length_wots_csum [simp]: "length (wots_csum m p) = get_len p"
  by (simp add: wots_csum_def get_len_def Let_def)

lemma wots_digits_less:
  assumes "i < get_len p"
  shows "wots_digits p m i < 2 ^ prm_lg_w p"
  using assms by (auto simp: wots_digits_def wots_csum_def get_len_def Let_def nth_append base_2b_less)

lemma fors_digits_less: "i < prm_k p \<Longrightarrow> fors_digits p md i < 2 ^ prm_a p"
  by (simp add: fors_digits_def base_2b_less)

lemma chunk_concat:
  assumes "\<And>x. x \<in> set xs \<Longrightarrow> length x = n" "i < length xs"
  shows "chunk n i (concat xs @ ys) = xs ! i"
  using assms
proof (induction xs arbitrary: i)
  case (Cons x xs)
  then show ?case by (cases i) (auto simp: chunk_def)
qed simp

lemma length_concat_const: "(\<And>x. x \<in> set xs \<Longrightarrow> length x = n) \<Longrightarrow> length (concat xs) = length xs * n"
  by (induction xs) auto

lemma length_concat_map: "(\<And>i. i < k \<Longrightarrow> length (f i) = n) \<Longrightarrow> length (concat (map f [0..<k])) = k * n"
  by (subst length_concat_const [of _ n]) auto

lemma chunk_concat_map:
  "(\<And>i. i < k \<Longrightarrow> length (f i) = n) \<Longrightarrow> i < k \<Longrightarrow> chunk n i (concat (map f [0..<k]) @ ys) = f i"
  by (subst chunk_concat) auto

lemma drop_concat_map:
  fixes f :: "nat \<Rightarrow> bytes"
  assumes "\<And>i. i < k \<Longrightarrow> length (f i) = n" "i < k"
  shows "\<exists>zs. drop (i * n) (concat (map f [0..<k]) @ ys) = f i @ zs"
proof -
  have "f i = take n (drop (i * n) (concat (map f [0..<k]) @ ys))"
    using chunk_concat_map [of k f n i ys] assms by (simp add: chunk_def)
  then show ?thesis using append_take_drop_id by metis
qed

section \<open>Correctness of the standard's algorithms\<close>

definition tweak_ok :: "'a slh_dims_scheme \<Rightarrow> tweak \<Rightarrow> bool" where
  "tweak_ok p K \<longleftrightarrow> (\<forall>A x. length (tF K A x) = prm_n p) \<and> (\<forall>A x y. length (tH K A x y) = prm_n p)
     \<and> (\<forall>A x. length (tT K A x) = prm_n p) \<and> (\<forall>A. length (tPRF K A) = prm_n p)"

lemma tweak_okD:
  assumes "tweak_ok p K"
  shows "length (tF K A x) = prm_n p" "length (tH K A x y) = prm_n p"
    "length (tT K A x) = prm_n p" "length (tPRF K A) = prm_n p"
  using assms by (simp_all add: tweak_ok_def)

lemma fips_chain_add: "fips_chain K A (fips_chain K A x i s) (i + s) t = fips_chain K A x i (s + t)"
  by (induction t) (simp_all add: add.assoc)

lemma length_fips_chain: "tweak_ok p K \<Longrightarrow> length x = prm_n p \<Longrightarrow> length (fips_chain K A x i s) = prm_n p"
  by (cases s) (simp_all add: tweak_okD)

lemma length_wots_key: "tweak_ok p K \<Longrightarrow> length (wots_key K A kp i s) = prm_n p"
  by (simp add: wots_key_def length_fips_chain tweak_okD)

lemma length_fips_wots_sign: "tweak_ok p K \<Longrightarrow> length (fips_wots_sign p K A kp m) = get_len p * prm_n p"
  by (simp add: fips_wots_sign_def length_concat_map length_wots_key)

lemma fips_wots_pk_from_sign:
  assumes "tweak_ok p K"
  shows "fips_wots_pk_from_sig p K A kp (fips_wots_sign p K A kp m @ zr) m = fips_wots_pk p K A kp"
proof -
  have "fips_chain K (ad A ADRS_WOTS_HASH kp (of_nat i) 0) (chunk (prm_n p) i (fips_wots_sign p K A kp m @ zr))
          (wots_digits p m i) (2 ^ prm_lg_w p - 1 - wots_digits p m i) = wots_key K A kp i (2 ^ prm_lg_w p - 1)"
    if "i < get_len p" for i
  proof -
    let ?d = "wots_digits p m i"
    have "?d + (2 ^ prm_lg_w p - 1 - ?d) = 2 ^ prm_lg_w p - 1" using wots_digits_less [OF that, of m] by simp
    moreover have "chunk (prm_n p) i (fips_wots_sign p K A kp m @ zr) = wots_key K A kp i ?d"
      unfolding fips_wots_sign_def by (rule chunk_concat_map) (use that length_wots_key [OF assms] in auto)
    ultimately show ?thesis using fips_chain_add [of K _ _ 0 ?d] by (simp add: wots_key_def)
  qed
  then show ?thesis
    by (auto simp: fips_wots_pk_from_sig_def fips_wots_pk_def intro!: arg_cong [where f = "tT K _"] arg_cong [where f = concat])
qed

lemma length_fips_xmss_node: "tweak_ok p K \<Longrightarrow> length (fips_xmss_node p K A i z) = prm_n p"
  unfolding fips_xmss_node_def
  by (rule merkle_all [of "\<lambda>x. length x = prm_n p"]) (simp_all add: fips_wots_pk_def xmss_parent_def tweak_okD)

lemma length_fips_xmss_sign:
  "tweak_ok p K \<Longrightarrow> length (fips_xmss_sign p K A m idx) = (prm_hp p + get_len p) * prm_n p"
  by (simp add: fips_xmss_sign_def length_fips_wots_sign length_concat_map length_fips_xmss_node algebra_simps)

lemma fips_xmss_pk_from_sign:
  assumes "tweak_ok p K"
  shows "fips_xmss_pk_from_sig p K A idx (fips_xmss_sign p K A m idx @ zr) m = fips_xmss_node p K A (idx div 2 ^ prm_hp p) (prm_hp p)"
proof -
  have "climb (xmss_parent K A) idx (\<lambda>k. chunk (prm_n p) k (drop (get_len p * prm_n p) (fips_xmss_sign p K A m idx @ zr)))
      (merkle (\<lambda>i. fips_wots_pk p K A (of_nat i)) (xmss_parent K A) idx 0) (prm_hp p)
      = merkle (\<lambda>i. fips_wots_pk p K A (of_nat i)) (xmss_parent K A) (idx div 2 ^ prm_hp p) (prm_hp p)"
    by (rule climb_merkle)
      (simp add: fips_xmss_sign_def length_fips_wots_sign [OF assms] chunk_concat_map length_fips_xmss_node [OF assms],
       simp add: fips_xmss_node_def)
  then show ?thesis
    by (simp add: fips_xmss_pk_from_sig_def fips_xmss_sign_def fips_xmss_node_def fips_wots_pk_from_sign [OF assms])
qed

lemma fips_ht_root_sign:
  assumes "tweak_ok p K" "leaf < 2 ^ prm_hp p"
  shows "fips_ht_root p K (Suc n) j m (fips_ht_sign p K (Suc n) j m t leaf @ zr) t leaf =
     fips_xmss_node p K (tree_adrs (j + n) (drop_bit (prm_hp p * n) t)) 0 (prm_hp p)"
  using assms(2)
proof (induction n arbitrary: j m t leaf)
  case 0
  then show ?case by (simp add: Let_def fips_xmss_pk_from_sign [OF assms(1)])
next
  case (Suc n)
  let ?sx = "fips_xmss_sign p K (tree_adrs j t) m leaf"
  let ?m = "fips_xmss_pk_from_sig p K (tree_adrs j t) leaf ?sx m"
  let ?t = "drop_bit (prm_hp p) t" and ?l = "unat (t AND mask (prm_hp p))"
  have m: "fips_xmss_pk_from_sig p K (tree_adrs j t) leaf (?sx @ r) m = ?m" for r
    using fips_xmss_pk_from_sign [OF assms(1), of _ leaf m] fips_xmss_pk_from_sign [OF assms(1), of _ leaf m "[]"]
    by simp
  have "fips_ht_root p K (Suc (Suc n)) j m (fips_ht_sign p K (Suc (Suc n)) j m t leaf @ zr) t leaf =
      fips_ht_root p K (Suc n) (j + 1) ?m (fips_ht_sign p K (Suc n) (j + 1) ?m ?t ?l @ zr) ?t ?l"
    unfolding fips_ht_root.simps(2) [of p K "Suc n"] fips_ht_sign.simps(2) [of p K "Suc n"] Let_def append_assoc m
    by (simp add: length_fips_xmss_sign [OF assms(1)] del: fips_ht_root.simps fips_ht_sign.simps)
  also have "\<dots> = fips_xmss_node p K (tree_adrs (j + 1 + n) (drop_bit (prm_hp p * n) ?t)) 0 (prm_hp p)"
    by (rule Suc.IH) (rule unat_and_mask_less)
  also have "j + 1 + n = j + Suc n" by simp
  also have "drop_bit (prm_hp p * n) ?t = drop_bit (prm_hp p * Suc n) t" by (simp add: add.commute)
  finally show ?case .
qed

lemma length_fips_ht_sign:
  "tweak_ok p K \<Longrightarrow> length (fips_ht_sign p K n j m t leaf) = n * ((prm_hp p + get_len p) * prm_n p)"
  by (induction n arbitrary: j m t leaf) (simp_all add: Let_def length_fips_xmss_sign)

lemma length_fips_fors_node: "tweak_ok p K \<Longrightarrow> length (fips_fors_node K A kp i z) = prm_n p"
  unfolding fips_fors_node_def
  by (rule merkle_all [of "\<lambda>x. length x = prm_n p"]) (simp_all add: fors_parent_def tweak_okD)

lemma length_fips_fors_tree: "tweak_ok p K \<Longrightarrow> length (fips_fors_tree p K A kp i x) = (1 + prm_a p) * prm_n p"
  by (simp add: fips_fors_tree_def fors_key_def tweak_okD length_concat_map length_fips_fors_node)

lemma xor1_add_even: "even e \<Longrightarrow> xor1 (e + y) = e + xor1 y"
  by (cases "even y") (auto simp: xor1_def elim: oddE)

lemma fors_index_div:
  assumes "j < a"
  shows "(i * 2 ^ a + x) div 2 ^ j = i * 2 ^ (a - j) + x div 2 ^ j" "even (i * 2 ^ (a - j) :: nat)"
proof -
  have "2 ^ a = (2 ^ (a - j) * 2 ^ j :: nat)" using assms by (simp flip: power_add)
  then have "i * 2 ^ a + x = (i * 2 ^ (a - j)) * 2 ^ j + x" by simp
  then show "(i * 2 ^ a + x) div 2 ^ j = i * 2 ^ (a - j) + x div 2 ^ j"
    using div_mult_self3 [of "2 ^ j" "i * 2 ^ (a - j)" x] by (simp only:) simp
  show "even (i * 2 ^ (a - j) :: nat)" using assms by simp
qed

lemma fips_fors_root_sign:
  assumes K: "tweak_ok p K" and i: "i < prm_k p"
  shows "fips_fors_root p K A kp (fips_fors_sign p K A kp md @ zr) i (fors_digits p md i) = fips_fors_node K A kp i (prm_a p)"
proof -
  let ?x = "fors_digits p md i" and ?n = "prm_n p" and ?a = "prm_a p"
  let ?lf = "\<lambda>i. tF K (ad A ADRS_FORS_TREE kp 0 (of_nat i)) (fors_key K A kp i)"
  obtain zs where s: "drop (i * ((1 + ?a) * ?n)) (fips_fors_sign p K A kp md @ zr) = fips_fors_tree p K A kp i ?x @ zs"
    unfolding fips_fors_sign_def
    using drop_concat_map [of "prm_k p" "\<lambda>i. fips_fors_tree p K A kp i (fors_digits p md i)" "(1 + ?a) * ?n" i zr]
      length_fips_fors_tree [OF K] i by auto
  have key: "length (fors_key K A kp k) = ?n" for k by (simp add: fors_key_def tweak_okD [OF K])
  have "climb (fors_parent K A kp) (i * 2 ^ ?a + ?x) (\<lambda>j. chunk ?n j (drop ?n (fips_fors_tree p K A kp i ?x @ zs)))
      (merkle ?lf (fors_parent K A kp) (i * 2 ^ ?a + ?x) 0) ?a
      = merkle ?lf (fors_parent K A kp) ((i * 2 ^ ?a + ?x) div 2 ^ ?a) ?a"
    by (rule climb_merkle)
      (simp add: fips_fors_tree_def key chunk_concat_map length_fips_fors_node [OF K] fors_index_div xor1_add_even,
       simp add: fips_fors_node_def)
  moreover have "(i * 2 ^ ?a + ?x) div 2 ^ ?a = i" using fors_digits_less [OF i, of md] by simp
  moreover have "take ?n (fips_fors_tree p K A kp i ?x @ zs) = fors_key K A kp (i * 2 ^ ?a + ?x)"
    by (simp add: fips_fors_tree_def key)
  ultimately show ?thesis
    unfolding fips_fors_root_def Let_def s fips_fors_node_def by simp
qed

lemma length_fips_fors_sign:
  "tweak_ok p K \<Longrightarrow> length (fips_fors_sign p K A kp md) = prm_k p * ((1 + prm_a p) * prm_n p)"
  using length_concat_map [of "prm_k p" "\<lambda>i. fips_fors_tree p K A kp i (fors_digits p md i)"] length_fips_fors_tree [of p K]
  unfolding fips_fors_sign_def by blast

lemma fips_fors_pk_from_sign:
  assumes "tweak_ok p K"
  shows "fips_fors_pk_from_sig p K A kp (fips_fors_sign p K A kp md @ zr) md =
     tT K (ad A ADRS_FORS_ROOTS kp 0 0) (concat (map (\<lambda>i. fips_fors_node K A kp i (prm_a p)) [0..<prm_k p]))"
  by (auto simp: fips_fors_pk_from_sig_def fips_fors_root_sign [OF assms]
      intro!: arg_cong [where f = "tT K _"] arg_cong [where f = concat])

text \<open>What the twelve parameter sets have in common.\<close>

definition dims_ok :: "'a slh_dims_scheme \<Rightarrow> bool" where
  "dims_ok p \<longleftrightarrow> prm_h p = prm_d p * prm_hp p \<and> 0 < prm_d p \<and> 0 < prm_hp p \<and> prm_hp p < 32 \<and> 0 < prm_a p \<and> 0 < prm_k p
     \<and> prm_h p - prm_hp p \<le> 64 \<and> prm_n p mod 8 = 0 \<and> 0 < prm_n p \<and> prm_n p \<le> 32 \<and> prm_lg_w p = 4"

lemma split_digest_less:
  assumes "prm_h p - prm_hp p \<le> 64" "split_digest d p = (t, leaf)"
  shows "unat t < 2 ^ (prm_h p - prm_hp p)" "leaf < 2 ^ prm_hp p"
  using assms unsigned_less [where w = t and 'a = nat]
  by (auto simp: split_digest_def Let_def unat_and_mask_less split: if_splits)

lemma drop_bit_small:
  fixes t :: "'a :: len word"
  assumes "unat t < 2 ^ k"
  shows "drop_bit k t = 0"
proof -
  have "unat (drop_bit k t) = unat t div 2 ^ k"
    by (metis drop_bit_eq_div unat_drop_bit_eq)
  with assms show ?thesis by (simp add: unat_eq_zero)
qed

lemma fips_verify_sign:
  assumes K: "tweak_ok p K" and p: "dims_ok p" and r: "length r = prm_n p"
  shows "fips_verify_digest p K (fips_root p K) digest (r @ fips_sign_digest p K digest)"
proof -
  obtain t leaf where tl: "split_digest digest p = (t, leaf)" by fastforce
  let ?A = "tree_adrs 0 t"
  let ?sf = "fips_fors_sign p K ?A (of_nat leaf) digest"
  let ?pk = "fips_fors_pk_from_sig p K ?A (of_nat leaf) ?sf digest"
  obtain n where n: "prm_d p = Suc n" using p by (cases "prm_d p") (auto simp: dims_ok_def)
  have h: "prm_h p - prm_hp p = prm_hp p * n" "prm_h p = Suc n * prm_hp p" "prm_h p - prm_hp p \<le> 64"
    using p n by (auto simp: dims_ok_def mult.commute)
  have lt: "unat t < 2 ^ (prm_hp p * n)" "leaf < 2 ^ prm_hp p"
    using split_digest_less [OF h(3) tl] by (simp_all add: h(1))
  have pk: "fips_fors_pk_from_sig p K ?A (of_nat leaf) (?sf @ zr) digest = ?pk" for zr
    using fips_fors_pk_from_sign [OF K, of ?A "of_nat leaf" digest zr] fips_fors_pk_from_sign [OF K, of ?A "of_nat leaf" digest "[]"]
    by simp
  have root: "fips_ht_root p K (prm_d p) 0 ?pk (fips_ht_sign p K (prm_d p) 0 ?pk t leaf) t leaf = fips_root p K"
    using fips_ht_root_sign [OF K lt(2), of n 0 ?pk t "[]"] drop_bit_small [OF lt(1)]
    by (simp add: n fips_root_def)
  have drop: "drop ((1 + prm_k p * (1 + prm_a p)) * prm_n p) (r @ ?sf @ ys) = ys" for ys
    using r length_fips_fors_sign [OF K, of ?A "of_nat leaf" digest] by (simp add: algebra_simps)
  have len: "length (r @ ?sf @ fips_ht_sign p K (prm_d p) 0 ?pk t leaf) = slh_sig_sz p"
    using r length_fips_fors_sign [OF K, of ?A "of_nat leaf" digest] length_fips_ht_sign [OF K, of "prm_d p" 0 ?pk t leaf]
    by (simp add: slh_sig_sz_def n h(2) algebra_simps)
  show ?thesis
    unfolding fips_verify_digest_def fips_sign_digest_def tl Let_def prod.case drop len
    using r pk root by simp
qed

text \<open>Verification does not use the secret seed.\<close>

definition same_public :: "tweak \<Rightarrow> tweak \<Rightarrow> bool" where
  "same_public K K' \<longleftrightarrow> tF K = tF K' \<and> tH K = tH K' \<and> tT K = tT K'"

lemma fips_chain_public: "same_public K K' \<Longrightarrow> fips_chain K A x i s = fips_chain K' A x i s"
  by (induction s) (simp_all add: same_public_def)

lemma fips_xmss_pk_from_sig_public:
  assumes "same_public K K'"
  shows "fips_xmss_pk_from_sig p K A idx sig m = fips_xmss_pk_from_sig p K' A idx sig m"
proof -
  have "xmss_parent K A = xmss_parent K' A" using assms by (auto simp: xmss_parent_def fun_eq_iff same_public_def)
  then show ?thesis
    using assms fips_chain_public [OF assms]
    by (simp add: fips_xmss_pk_from_sig_def fips_wots_pk_from_sig_def same_public_def)
qed

lemma fips_ht_root_public:
  assumes "same_public K K'"
  shows "fips_ht_root p K n j m sig t leaf = fips_ht_root p K' n j m sig t leaf"
  by (induction n arbitrary: j m sig t leaf) (simp_all add: fips_xmss_pk_from_sig_public [OF assms])

lemma fips_verify_digest_public:
  assumes "same_public K K'"
  shows "fips_verify_digest p K root digest sig = fips_verify_digest p K' root digest sig"
proof -
  have "fors_parent K A kp = fors_parent K' A kp" for A kp using assms by (auto simp: fors_parent_def fun_eq_iff same_public_def)
  then have "fips_fors_pk_from_sig p K A kp sf md = fips_fors_pk_from_sig p K' A kp sf md" for A kp sf md
    using assms by (simp add: fips_fors_pk_from_sig_def fips_fors_root_def same_public_def)
  then show ?thesis by (simp add: fips_verify_digest_def fips_ht_root_public [OF assms])
qed

text \<open>The message with the prefix of the pure variant; without a context it is hashed as it is.\<close>

definition msg_enc :: "bytes option \<Rightarrow> bytes \<Rightarrow> bytes" where
  "msg_enc ctx m = (case ctx of None \<Rightarrow> m | Some c \<Rightarrow> 0 # of_nat (length c) # c @ m)"

definition fips_sign ::
  "'a slh_dims_scheme \<Rightarrow> (bytes \<Rightarrow> bytes \<Rightarrow> tweak) \<Rightarrow> (bytes \<Rightarrow> bytes \<Rightarrow> bytes \<Rightarrow> bytes \<Rightarrow> bytes) \<Rightarrow> (bytes \<Rightarrow> bytes \<Rightarrow> bytes \<Rightarrow> bytes)
     \<Rightarrow> bytes \<Rightarrow> bytes \<Rightarrow> bytes \<Rightarrow> bytes \<Rightarrow> bytes \<Rightarrow> bytes option \<Rightarrow> bytes" where
  "fips_sign p K Hm Pm skseed skprf pkseed pkroot M addrnd =
     (let R = Pm skprf (case addrnd of Some r \<Rightarrow> r | None \<Rightarrow> pkseed) M
      in R @ fips_sign_digest p (K pkseed skseed) (Hm R pkseed pkroot M))"

definition fips_verify ::
  "'a slh_dims_scheme \<Rightarrow> (bytes \<Rightarrow> bytes \<Rightarrow> tweak) \<Rightarrow> (bytes \<Rightarrow> bytes \<Rightarrow> bytes \<Rightarrow> bytes \<Rightarrow> bytes)
     \<Rightarrow> bytes \<Rightarrow> bytes \<Rightarrow> bytes \<Rightarrow> bytes \<Rightarrow> bool" where
  "fips_verify p K Hm pkseed pkroot M sig =
     fips_verify_digest p (K pkseed []) pkroot (Hm (take (prm_n p) sig) pkseed pkroot M) sig"

text \<open>The additional randomness is absent or has \<open>n\<close> bytes.\<close>

definition rand_ok :: "nat \<Rightarrow> bytes option \<Rightarrow> bool" where
  "rand_ok n addrnd = (case addrnd of None \<Rightarrow> True | Some r \<Rightarrow> length r = n)"

lemma fips_sign_verify:
  assumes "\<And>ps ss. tweak_ok p (K ps ss)" "dims_ok p" "\<And>a b c. length (Pm a b c) = prm_n p"
    and "\<And>ps ss ss'. same_public (K ps ss) (K ps ss')"
  shows "fips_verify p K Hm c (fips_root p (K c a)) M (fips_sign p K Hm Pm a b c (fips_root p (K c a)) M addrnd)"
  using fips_verify_sign [OF assms(1-3)] fips_verify_digest_public [OF assms(4), of p c "[]" _ _ _ a]
  by (simp add: fips_verify_def fips_sign_def Let_def assms(3))

end
