(* ===== verification/SlhRefine.thy ===== *)
theory SlhRefine
  imports SlhFips
begin

text \<open>
  The code of \<open>Slh\<close> computes the algorithms of \<open>SlhFips\<close>.  The non-recursive tree loops with their
  stack compute the recursive Merkle trees, for any leaf and node functions.  The locale
  \<open>slh_hash\<close> holds what a parameter set promises: its dimensions, that its hash functions are keyed
  hashes of the address and the input, that the combined functions \<open>chain\<close>, \<open>wots_chain\<close> and
  \<open>fors_hash\<close> are their composition, and that \<open>mk_var\<close> loads the key.  In the locale, every function of
  the code is the function of the standard, whatever the last four words of the address hold when it
  is called, and verification accepts every signature of the code.
\<close>

section \<open>The tree loop\<close>

text \<open>The loop over the leaves with its stack computes the recursive tree.\<close>

lemma block_div: "0 < b \<Longrightarrow> (b * q + b - Suc 0) div b = (q :: nat)"
  by (rule div_nat_eqI) auto

lemma bit_below_block:
  assumes "2 ^ Suc z dvd (j :: nat)"
  shows "\<not> bit (j + 2 ^ z - Suc 0) z"
proof -
  from assms obtain q where "j = 2 ^ z * (2 * q)" by (auto elim!: dvdE simp: ac_simps)
  then show ?thesis using block_div [of "2 ^ z" "2 * q"] by (simp add: bit_iff_odd)
qed

lemma bit_end_block:
  assumes "2 ^ Suc z dvd (j :: nat)"
  shows "bit (j + 2 ^ Suc z - Suc 0) z"
proof -
  from assms obtain q where "j + 2 ^ z = 2 ^ z * (2 * q + 1)" by (auto elim!: dvdE simp: algebra_simps)
  moreover have "j + 2 ^ Suc z - Suc 0 = (j + 2 ^ z) + 2 ^ z - Suc 0" by simp
  ultimately show ?thesis using block_div [of "2 ^ z" "2 * q + 1"] by (simp only: bit_iff_odd) simp
qed

lemma tree_merge_stop: "\<not> bit j k \<Longrightarrow> tree_merge join j i k v stk = (stk, v)"
  by (cases "(join, j, i, k, v, stk)" rule: tree_merge.cases) simp_all

lemma tree_loop_block:
  assumes leaf: "\<And>i v. I v \<Longrightarrow> \<exists>v'. leaf i v = (lf i, v') \<and> J v'"
    and join: "\<And>k i l r v. J v \<Longrightarrow> G l \<Longrightarrow> G r \<Longrightarrow> \<exists>v'. join k i l r v = (jn k (i div 2 ^ (k + 1)) l r, v') \<and> J v'"
    and JI: "\<And>v. J v \<Longrightarrow> I v"
    and G: "\<And>i z. G (merkle lf jn i z)"
    and al: "2 ^ z dvd j" "2 ^ z dvd i" and v: "I v"
  shows "\<exists>v'. J v' \<and> tree_loop leaf join (2 ^ z + n) j i v stk =
      (let (stk, v) = tree_merge join (j + 2 ^ z - 1) (i + 2 ^ z - 1) z v' (merkle lf jn (i div 2 ^ z) z # stk)
       in tree_loop leaf join n (j + 2 ^ z) (i + 2 ^ z) v stk)"
  using al v
proof (induction z arbitrary: j i v stk n)
  case 0
  from leaf [OF 0(3), of i] show ?case by auto
next
  case (Suc z)
  define x y where "x = merkle lf jn (i div 2 ^ z) z" and "y = merkle lf jn ((i + 2 ^ z) div 2 ^ z) z"
  have d: "2 ^ z dvd j" "2 ^ z dvd i" "2 ^ z dvd j + 2 ^ z" "2 ^ z dvd i + 2 ^ z"
    using Suc.prems by (auto elim: dvd_mult_right)
  from Suc.IH [OF d(1,2) Suc.prems(3), of "2 ^ z + n" stk] obtain v1 where v1: "J v1"
    and l1: "tree_loop leaf join (2 ^ z + (2 ^ z + n)) j i v stk =
       tree_loop leaf join (2 ^ z + n) (j + 2 ^ z) (i + 2 ^ z) v1 (x # stk)"
    by (auto simp: tree_merge_stop bit_below_block [OF Suc.prems(1)] x_def simp del: tree_loop.simps)
  from Suc.IH [OF d(3,4) JI [OF v1], of n "x # stk"] obtain v2 where v2: "J v2"
    and l2: "tree_loop leaf join (2 ^ z + n) (j + 2 ^ z) (i + 2 ^ z) v1 (x # stk) =
       (let (stk, v) = tree_merge join (j + 2 ^ Suc z - 1) (i + 2 ^ Suc z - 1) z v2 (y # x # stk)
        in tree_loop leaf join n (j + 2 ^ Suc z) (i + 2 ^ Suc z) v stk)"
    by (auto simp: y_def mult_2 add.assoc simp del: tree_loop.simps tree_merge.simps)
  from Suc.prems(2) obtain q where q: "i = 2 ^ Suc z * q" by (auto elim: dvdE)
  have ix: "i div 2 ^ z = 2 * q" "(i + 2 ^ z) div 2 ^ z = 2 * q + 1" "i div 2 ^ Suc z = q"
      "(i + 2 ^ Suc z - 1) div 2 ^ (z + 1) = q"
    using block_div [of "2 ^ Suc z" q] by (simp_all add: q)
  from join [OF v2, of x y z "i + 2 ^ Suc z - 1"] G obtain v3 where v3: "J v3"
    and j3: "join z (i + 2 ^ Suc z - 1) x y v2 = (merkle lf jn q (Suc z), v3)"
    by (auto simp: x_def y_def ix(1-3) ix(4) [simplified])
  have m: "tree_merge join (j + 2 ^ Suc z - 1) (i + 2 ^ Suc z - 1) z v2 (y # x # stk) =
      tree_merge join (j + 2 ^ Suc z - 1) (i + 2 ^ Suc z - 1) (Suc z) v3 (merkle lf jn q (Suc z) # stk)"
    using bit_end_block [OF Suc.prems(1)] j3 by (simp del: power_Suc)
  have e: "2 ^ Suc z + n = 2 ^ z + (2 ^ z + n)" by simp
  show ?case unfolding e ix(3) l1 l2 m using v3 by blast
qed

lemma tree_hash_merkle:
  assumes leaf: "\<And>i v. I v \<Longrightarrow> \<exists>v'. leaf i v = (lf i, v') \<and> J v'"
    and join: "\<And>k i l r v. J v \<Longrightarrow> G l \<Longrightarrow> G r \<Longrightarrow> \<exists>v'. join k i l r v = (jn k (i div 2 ^ (k + 1)) l r, v') \<and> J v'"
    and JI: "\<And>v. J v \<Longrightarrow> I v"
    and G: "\<And>i. G (lf i)" "\<And>k i l r. G l \<Longrightarrow> G r \<Longrightarrow> G (jn k i l r)"
    and v: "I v"
  shows "\<exists>v'. tree_hash leaf join v i z = (merkle lf jn i z, v') \<and> J v'"
proof -
  have "\<exists>v'. J v' \<and> tree_loop leaf join (2 ^ z + 0) 0 (i * 2 ^ z) v [] =
      (let (stk, v) = tree_merge join (0 + 2 ^ z - 1) (i * 2 ^ z + 2 ^ z - 1) z v' (merkle lf jn (i * 2 ^ z div 2 ^ z) z # [])
       in tree_loop leaf join 0 (0 + 2 ^ z) (i * 2 ^ z + 2 ^ z) v stk)"
    by (rule tree_loop_block [of I leaf lf J G join jn, OF leaf join JI merkle_all [of G lf jn, OF G] _ _ v]) simp_all
  then show ?thesis by (auto simp: tree_hash_def)
qed

lemma for_range_map:
  assumes body: "\<And>i s. I s \<Longrightarrow> a \<le> i \<Longrightarrow> i < a + n \<Longrightarrow> \<exists>s'. f i s = (g i, s') \<and> J s'"
    and JI: "\<And>s. J s \<Longrightarrow> I s" and s: "I s"
  shows "\<exists>s'. for_range f a n s = (map g [a..<a + n], s') \<and> I s' \<and> (0 < n \<longrightarrow> J s')"
  using body s
proof (induction n arbitrary: a s)
  case (Suc n)
  from Suc.prems(1) [OF Suc.prems(2), of a] obtain s1 where s1: "f a s = (g a, s1)" "J s1" by auto
  have "\<exists>s'. for_range f (Suc a) n s1 = (map g [Suc a..<Suc a + n], s') \<and> I s' \<and> (0 < n \<longrightarrow> J s')"
    by (rule Suc.IH [OF Suc.prems(1)]) (use JI [OF s1(2)] in auto)
  then obtain s2 where "for_range f (Suc a) n s1 = (map g [Suc a..<Suc a + n], s2)" "I s2" "0 < n \<longrightarrow> J s2"
    by blast
  moreover from this s1 have "n = 0 \<Longrightarrow> s2 = s1" by simp
  moreover have "[a..<a + Suc n] = a # [Suc a..<Suc a + n]" by (simp add: upt_conv_Cons)
  ultimately show ?case using s1 by (cases n) auto
qed simp

lemma for_range_inv:
  assumes body: "\<And>i s. I s \<Longrightarrow> i < n \<Longrightarrow> \<exists>s'. f i s = (g i, s') \<and> I s'" and s: "I s"
  shows "\<exists>s'. for_range f 0 n s = (map g [0..<n], s') \<and> I s'"
  using for_range_map [where a = 0 and n = n and f = f and g = g and I = I and J = I and s = s, OF _ _ s] body by auto

section \<open>Addresses\<close>

definition adv :: "slh_var \<Rightarrow> u32 \<Rightarrow> u32 \<Rightarrow> u32 \<Rightarrow> u32 \<Rightarrow> slh_var" where
  "adv v t kp x y = v\<lparr>adrs := ad (adrs v) t kp x y\<rparr>"

lemma ad_update [simp]:
  "(ad A a b c d)\<lparr>adrs4 := z\<rparr> = ad A z b c d" "(ad A a b c d)\<lparr>adrs5 := z\<rparr> = ad A a z c d"
  "(ad A a b c d)\<lparr>adrs6 := z\<rparr> = ad A a b z d" "(ad A a b c d)\<lparr>adrs7 := z\<rparr> = ad A a b c z"
  by (simp_all add: ad_def)

lemma adv_simps [simp]:
  "adrs (adv v a b c d) = ad (adrs v) a b c d" "pk_seed (adv v a b c d) = pk_seed v"
  "sk_seed (adv v a b c d) = sk_seed v" "pk_root (adv v a b c d) = pk_root v"
  "(adv v a b c d)\<lparr>adrs := ad (adrs v) e f g h\<rparr> = adv v e f g h"
  by (simp_all add: adv_def)

lemma adv_set [simp]:
  "adrs_set_type (adv v a b c d) z = adv v z b c d"
  "adrs_set_key_pair_address (adv v a b c d) i = adv v a (of_nat i) c d"
  "adrs_set_tree_height (adv v a b c d) i = adv v a b (of_nat i) d"
  "adrs_set_chain_address (adv v a b c d) i = adv v a b (of_nat i) d"
  "adrs_set_tree_index (adv v a b c d) i = adv v a b c (of_nat i)"
  "adrs_set_type_and_clear (adv v a b c d) z = adv v z 0 0 0"
  "adrs_set_type_and_clear_not_kp (adv v a b c d) z = adv v z b 0 0"
  by (simp_all add: adrs_defs adv_def ad_def)

lemma adrs_swap: "A\<lparr>adrs7 := y, adrs4 := z\<rparr> = A\<lparr>adrs4 := z, adrs7 := y\<rparr>" for A :: adrs_t
  by simp

lemma adrs7_self: "\<exists>y. v = v\<lparr>adrs := (adrs v)\<lparr>adrs7 := y\<rparr>\<rparr>" for v :: slh_var
  by (rule exI [of _ "adrs7 (adrs v)"]) simp

text \<open>The contexts that differ from \<open>v\<close> in the last four words of the address, with more and more of them known.\<close>

definition near :: "slh_var \<Rightarrow> slh_var \<Rightarrow> bool" where
  "near v s \<longleftrightarrow> (\<exists>t kp x y. s = adv v t kp x y)"

definition near_kp :: "slh_var \<Rightarrow> u32 \<Rightarrow> slh_var \<Rightarrow> bool" where
  "near_kp v kp s \<longleftrightarrow> (\<exists>t x y. s = adv v t kp x y)"

definition near_type :: "slh_var \<Rightarrow> u32 \<Rightarrow> u32 \<Rightarrow> slh_var \<Rightarrow> bool" where
  "near_type v t kp s \<longleftrightarrow> (\<exists>x y. s = adv v t kp x y)"

lemma near_adv [simp]: "near v (adv v t kp x y)" "near_kp v kp (adv v t kp x y)" "near_type v t kp (adv v t kp x y)"
  by (auto simp: near_def near_kp_def near_type_def)

lemma nearE: "near v s \<Longrightarrow> (\<And>t kp x y. s = adv v t kp x y \<Longrightarrow> P) \<Longrightarrow> P"
  by (auto simp: near_def)

lemma near_kpE: "near_kp v kp s \<Longrightarrow> (\<And>t x y. s = adv v t kp x y \<Longrightarrow> P) \<Longrightarrow> P"
  by (auto simp: near_kp_def)

lemma near_typeE: "near_type v t kp s \<Longrightarrow> (\<And>x y. s = adv v t kp x y \<Longrightarrow> P) \<Longrightarrow> P"
  by (auto simp: near_type_def)

lemmas near_elims = nearE near_kpE near_typeE

lemma near_mono: "near_type v t kp s \<Longrightarrow> near_kp v kp s" "near_kp v kp s \<Longrightarrow> near v s"
  by (auto simp: near_def near_kp_def near_type_def)

lemma near_pk_root: "near v s \<Longrightarrow> pk_root s = pk_root v"
  by (auto simp: near_def)

definition at_tree :: "slh_var \<Rightarrow> nat \<Rightarrow> u64 \<Rightarrow> slh_var" where
  "at_tree v j t = v\<lparr>adrs := tree_adrs j t\<rparr>"

lemma at_tree_simps [simp]:
  "adrs (at_tree v j t) = tree_adrs j t" "pk_seed (at_tree v j t) = pk_seed v"
  "sk_seed (at_tree v j t) = sk_seed v" "pk_root (at_tree v j t) = pk_root v"
  by (simp_all add: at_tree_def)

lemma near_next_tree:
  "near (at_tree v j t) s \<Longrightarrow> near (at_tree v j' t') (adrs_set_tree_address (adrs_set_layer_address s j') t')"
  unfolding near_def at_tree_def adv_def adrs_defs tree_adrs_def ad_def by (clarsimp, blast)

lemma near_first_tree: "near v s \<Longrightarrow> near (at_tree v 0 t) (adrs_set_tree_address (adrs_zero s) t)"
  unfolding near_def at_tree_def adv_def adrs_defs adrs_zero_def tree_adrs_def ad_def by (clarsimp, blast)

lemma slh_fors_address_adv: "slh_fors_address v t leaf = adv (at_tree v 0 t) ADRS_FORS_TREE (of_nat leaf) 0 0"
  by (simp add: slh_fors_address_def adrs_zero_def adrs_defs adv_def at_tree_def tree_adrs_def ad_def)

lemma length_adrs_u8 [simp]: "length (adrs_u8 A) = 32"
  by (simp add: adrs_u8_def be32_bytes_def)

lemma ct_compare_eq:
  assumes "length a = n" "length b = n"
  shows "slh_ct_compare a b n \<longleftrightarrow> a = b"
proof -
  have "foldl (\<lambda>diff i. diff OR (a ! i XOR b ! i)) (0 :: u8) [0..<k] = 0 \<longleftrightarrow> (\<forall>i<k. a ! i = b ! i)" for k
    by (induction k) (auto simp: or_eq_0_iff_word xor_eq_0_iff less_Suc_eq)
  then show ?thesis using assms by (simp add: slh_ct_compare_def list_eq_iff_nth_eq)
qed

section \<open>What a parameter set promises\<close>

text \<open>The block buffers of the two SHA-2 contexts in a \<open>slh_var_t\<close> have their sizes.\<close>

definition var_ok :: "slh_var \<Rightarrow> bool" where
  "var_ok v \<longleftrightarrow> length (mp (sha2_256_pk_seed v)) = 64 \<and> length (mp (sha2_512_pk_seed v)) = 128"

locale slh_hash =
  fixes p :: slh_param
    and K :: "bytes \<Rightarrow> bytes \<Rightarrow> tweak"
    and Hm :: "bytes \<Rightarrow> bytes \<Rightarrow> bytes \<Rightarrow> bytes \<Rightarrow> bytes"
    and Pm :: "bytes \<Rightarrow> bytes \<Rightarrow> bytes \<Rightarrow> bytes"
    and ok :: "slh_var \<Rightarrow> bool"
  assumes dims: "dims_ok p"
    and tweak: "tweak_ok p (K ps ss)"
    and public: "same_public (K ps ss) (K ps ss')"
    and length_Pm: "length (Pm a b c) = prm_n p"
    and ok_adrs: "ok (v\<lparr>adrs := A\<rparr>) = ok v"
    and f: "ok v \<Longrightarrow> length x = prm_n p \<Longrightarrow> h_f p v x = tF (K (pk_seed v) (sk_seed v)) (adrs v) x"
    and h: "ok v \<Longrightarrow> length x = prm_n p \<Longrightarrow> length y = prm_n p \<Longrightarrow> h_h p v x y = tH (K (pk_seed v) (sk_seed v)) (adrs v) x y"
    and t: "ok v \<Longrightarrow> h_t p v x = tT (K (pk_seed v) (sk_seed v)) (adrs v) x"
    and chain: "ok v \<Longrightarrow> length x = prm_n p \<Longrightarrow> \<exists>y. chain p v x i s =
       (fips_chain (K (pk_seed v) (sk_seed v)) (adrs v) x i s, v\<lparr>adrs := (adrs v)\<lparr>adrs7 := y\<rparr>\<rparr>)"
    and wots_chain: "ok v \<Longrightarrow> length (sk_seed v) = prm_n p \<Longrightarrow> A = (adrs v)\<lparr>adrs4 := ADRS_WOTS_HASH, adrs7 := 0\<rparr> \<Longrightarrow>
       \<exists>y. wots_chain p v s =
       (fips_chain (K (pk_seed v) (sk_seed v)) A (tPRF (K (pk_seed v) (sk_seed v)) (A\<lparr>adrs4 := ADRS_WOTS_PRF\<rparr>)) 0 s,
        v\<lparr>adrs := A\<lparr>adrs7 := y\<rparr>\<rparr>)"
    and fors_hash: "ok v \<Longrightarrow> length (sk_seed v) = prm_n p \<Longrightarrow> A = (adrs v)\<lparr>adrs4 := ADRS_FORS_PRF, adrs6 := 0\<rparr> \<Longrightarrow>
       fors_hash p v s =
       (let x = tPRF (K (pk_seed v) (sk_seed v)) A; B = A\<lparr>adrs4 := ADRS_FORS_TREE\<rparr>
        in if s = 1 then (tF (K (pk_seed v) (sk_seed v)) B x, v\<lparr>adrs := B\<rparr>) else (x, v\<lparr>adrs := A\<rparr>))"
    and h_msg: "ok v \<Longrightarrow> length r = prm_n p \<Longrightarrow> length (pk_root v) = prm_n p \<Longrightarrow>
       h_msg p v r m ctx = Hm r (pk_seed v) (pk_root v) (msg_enc ctx m)"
    and prf_msg: "ok v \<Longrightarrow> length r = prm_n p \<Longrightarrow> length (sk_prf v) = prm_n p \<Longrightarrow>
       prf_msg p v r m ctx = Pm (sk_prf v) r (msg_enc ctx m)"
    and mk_sk: "var_ok v0 \<Longrightarrow> length a = prm_n p \<Longrightarrow> length b = prm_n p \<Longrightarrow> length c = prm_n p \<Longrightarrow> length d = prm_n p \<Longrightarrow>
       v = mk_var p v0 None (Some (a @ b @ c @ d)) (slh_dims.truncate p) \<Longrightarrow>
       ok v \<and> sk_seed v = a \<and> sk_prf v = b \<and> pk_seed v = c \<and> pk_root v = d"
    and mk_pk: "var_ok v0 \<Longrightarrow> length c = prm_n p \<Longrightarrow> length d = prm_n p \<Longrightarrow>
       v = mk_var p v0 (Some (c @ d)) None (slh_dims.truncate p) \<Longrightarrow> ok v \<and> pk_seed v = c \<and> pk_root v = d"
begin

definition tw :: "slh_var \<Rightarrow> tweak" where
  "tw v = K (pk_seed v) (sk_seed v)"

lemma tw_simps [simp]: "tw (adv v a b c d) = tw v" "tw (at_tree v j t) = tw v"
  by (simp_all add: tw_def)

lemma ok_simps [simp]: "ok (adv v a b c d) = ok v" "ok (at_tree v j t) = ok v"
  by (simp_all add: adv_def at_tree_def ok_adrs)

lemma tw_ok: "tweak_ok p (tw v)"
  by (simp add: tw_def tweak)

lemmas tw_laws = f [folded tw_def] h [folded tw_def] t [folded tw_def]
lemmas tw_len = tweak_okD [OF tw_ok]

lemma fips_chain_adrs7: "fips_chain T (ad A a b c d) x i s = fips_chain T (ad A a b c 0) x i s"
  by (induction s) simp_all

subsection \<open>WOTS+\<close>

lemma wots_chain_adv:
  assumes "ok v" "length (sk_seed v) = prm_n p"
  shows "\<exists>s'. wots_chain p (adv v t kp (of_nat i) y) s = (wots_key (tw v) (adrs v) kp i s, s') \<and> near_kp v kp s'"
  using assms wots_chain [of "adv v t kp (of_nat i) y", OF _ _ refl, of s] by (auto simp: wots_key_def tw_def)

lemma wots_keys:
  assumes "ok v" "length (sk_seed v) = prm_n p" "near_kp v kp s"
  shows "\<exists>s'. for_range (\<lambda>i v. wots_chain p (adrs_set_chain_address v i) (e i)) 0 n s
      = (map (\<lambda>i. wots_key (tw v) (adrs v) kp i (e i)) [0..<n], s') \<and> near_kp v kp s'"
  by (rule for_range_inv [where I = "near_kp v kp"]) (auto elim!: near_elims simp: wots_chain_adv [OF assms(1,2)] assms(3))

lemma wots_sign_spec:
  assumes "ok v" "length (sk_seed v) = prm_n p" "near_kp v kp s"
  shows "\<exists>s'. wots_sign p s m = (fips_wots_sign p (tw v) (adrs v) kp m, s') \<and> near_kp v kp s'"
  using wots_keys [OF assms, of "\<lambda>i. unat (wots_csum m p ! i)" "get_len p"]
  by (auto simp: wots_sign_def fips_wots_sign_def wots_digits_def)

lemma xmss_leaf_spec:
  assumes "ok v" "length (sk_seed v) = prm_n p" "near v s"
  shows "\<exists>s'. xmss_leaf p i s = (fips_wots_pk p (tw v) (adrs v) (of_nat i), s') \<and> near v s'"
proof -
  have "near_kp v (of_nat i) (adrs_set_key_pair_address s i)"
    using assms(3) by (auto elim!: near_elims)
  from wots_keys [OF assms(1,2) this, of "\<lambda>_. 2 ^ prm_lg_w p - 1" "get_len p"] show ?thesis
    by (auto simp: xmss_leaf_def Let_def tw_laws assms(1) fips_wots_pk_def elim!: near_elims)
qed

lemma wots_pk_from_sig_spec:
  assumes ok: "ok v" and s: "near_type v ADRS_WOTS_HASH kp s" and sig: "get_len p * prm_n p \<le> length sig"
  shows "wots_pk_from_sig p s sig m = (fips_wots_pk_from_sig p (tw v) (adrs v) kp sig m, adv v ADRS_WOTS_PK kp 0 0)"
proof -
  let ?g = "\<lambda>i. fips_chain (tw v) (ad (adrs v) ADRS_WOTS_HASH kp (of_nat i) 0) (chunk (prm_n p) i sig)
      (wots_digits p m i) (2 ^ prm_lg_w p - 1 - wots_digits p m i)"
  have len: "length (chunk (prm_n p) i sig) = prm_n p" if "i < get_len p" for i
  proof -
    have "Suc i * prm_n p \<le> get_len p * prm_n p" using that by (intro mult_le_mono1) simp
    with sig show ?thesis by (simp add: chunk_def)
  qed
  have body: "\<exists>s'. chain p (adrs_set_chain_address s i) (chunk (prm_n p) i sig) (unat (wots_csum m p ! i))
      (2 ^ prm_lg_w p - 1 - unat (wots_csum m p ! i)) = (?g i, s') \<and> near_type v ADRS_WOTS_HASH kp s'"
    if "near_type v ADRS_WOTS_HASH kp s" "i < get_len p" for i s
  proof -
    from that(1) obtain x y where s: "s = adv v ADRS_WOTS_HASH kp x y" by (elim near_elims)
    have a: "adrs_set_chain_address s i = adv v ADRS_WOTS_HASH kp (of_nat i) y" by (simp add: s)
    show ?thesis unfolding a wots_digits_def [symmetric]
      using chain [folded tw_def, OF _ len [OF that(2)], of "adv v ADRS_WOTS_HASH kp (of_nat i) y"
          "wots_digits p m i" "2 ^ prm_lg_w p - 1 - wots_digits p m i"] ok
      by (auto simp: fips_chain_adrs7 [where d = y])
  qed
  have "\<exists>s'. for_range (\<lambda>i v. chain p (adrs_set_chain_address v i) (chunk (prm_n p) i sig)
        (unat (wots_csum m p ! i)) (2 ^ prm_lg_w p - 1 - unat (wots_csum m p ! i))) 0 (get_len p) s
      = (map ?g [0..<get_len p], s') \<and> near_type v ADRS_WOTS_HASH kp s'"
    by (rule for_range_inv [where I = "near_type v ADRS_WOTS_HASH kp"]) (use body s in blast)+
  then show ?thesis
    by (auto simp: wots_pk_from_sig_def Let_def tw_laws ok fips_wots_pk_from_sig_def elim!: near_elims)
qed

subsection \<open>XMSS\<close>

lemma xmss_join_spec:
  assumes "ok v" "near v s" "length l = prm_n p" "length r = prm_n p"
  shows "\<exists>s'. xmss_join p k i l r s = (xmss_parent (tw v) (adrs v) k (i div 2 ^ (k + 1)) l r, s') \<and> near v s'"
  using assms by (auto simp: xmss_join_def Let_def tw_laws xmss_parent_def elim!: near_elims)

lemma xmss_node_spec:
  assumes "ok v" "length (sk_seed v) = prm_n p" "near v s"
  shows "\<exists>s'. xmss_node p s i z = (fips_xmss_node p (tw v) (adrs v) i z, s') \<and> near v s'"
  unfolding xmss_node_def fips_xmss_node_def
proof (rule tree_hash_merkle [where I = "near v" and J = "near v" and G = "\<lambda>x. length x = prm_n p"])
  show "length (fips_wots_pk p (tw v) (adrs v) (of_nat i)) = prm_n p" for i by (simp add: fips_wots_pk_def tw_len)
  show "length (xmss_parent (tw v) (adrs v) k i l r) = prm_n p" for k i l r by (simp add: xmss_parent_def tw_len)
qed (blast intro: xmss_leaf_spec xmss_join_spec assms)+

lemma xmss_sign_spec:
  assumes "ok v" "length (sk_seed v) = prm_n p" "near v s"
  shows "\<exists>s'. xmss_sign p s m idx = (fips_xmss_sign p (tw v) (adrs v) m idx, s') \<and> near v s'"
proof -
  have "\<exists>s'. for_range (\<lambda>j v. xmss_node p v (xor1 (idx div 2 ^ j)) j) 0 (prm_hp p) s
      = (map (\<lambda>j. fips_xmss_node p (tw v) (adrs v) (xor1 (idx div 2 ^ j)) j) [0..<prm_hp p], s') \<and> near v s'"
    by (rule for_range_inv [where I = "near v"]) (simp_all add: xmss_node_spec assms)
  then obtain s1 where s1: "for_range (\<lambda>j v. xmss_node p v (xor1 (idx div 2 ^ j)) j) 0 (prm_hp p) s
      = (map (\<lambda>j. fips_xmss_node p (tw v) (adrs v) (xor1 (idx div 2 ^ j)) j) [0..<prm_hp p], s1)" and "near v s1" by auto
  then have "near_kp v (of_nat idx) (adrs_set_key_pair_address (adrs_set_type_and_clear_not_kp s1 ADRS_WOTS_HASH) idx)"
    by (auto elim!: near_elims)
  from wots_sign_spec [OF assms(1,2) this, of m] near_mono(2) show ?thesis
    by (auto simp: xmss_sign_def s1 Let_def fips_xmss_sign_def)
qed

lemma xmss_climb_spec:
  assumes ok: "ok v" and s: "near_type v ADRS_TREE 0 s" and node: "length node = prm_n p"
    and auth: "h * prm_n p \<le> length auth"
  shows "\<exists>s'. foldl (xmss_climb p idx auth) (node, s) [0..<h] =
     (climb (xmss_parent (tw v) (adrs v)) idx (\<lambda>k. chunk (prm_n p) k auth) node h, s') \<and> near_type v ADRS_TREE 0 s'
     \<and> length (climb (xmss_parent (tw v) (adrs v)) idx (\<lambda>k. chunk (prm_n p) k auth) node h) = prm_n p"
  using auth
proof (induction h)
  case 0
  then show ?case using s node by simp
next
  case (Suc h)
  then have "length (chunk (prm_n p) h auth) = prm_n p" by (simp add: chunk_def)
  moreover from Suc obtain x y where
    "foldl (xmss_climb p idx auth) (node, s) [0..<h] =
       (climb (xmss_parent (tw v) (adrs v)) idx (\<lambda>k. chunk (prm_n p) k auth) node h, adv v ADRS_TREE 0 x y)"
    "length (climb (xmss_parent (tw v) (adrs v)) idx (\<lambda>k. chunk (prm_n p) k auth) node h) = prm_n p"
    by (auto elim!: near_elims)
  ultimately show ?case
    by (simp add: xmss_climb_def [of p idx auth "(_, _)"] tw_laws ok climb_Suc xmss_parent_def [abs_def] tw_len Let_def)
qed

lemma xmss_pk_from_sig_spec:
  assumes ok: "ok v" and s: "near v s" and sig: "(prm_hp p + get_len p) * prm_n p \<le> length sig"
  shows "\<exists>s'. xmss_pk_from_sig p s idx sig m = (fips_xmss_pk_from_sig p (tw v) (adrs v) idx sig m, s') \<and> near v s'
     \<and> length (fips_xmss_pk_from_sig p (tw v) (adrs v) idx sig m) = prm_n p"
proof -
  have s1: "near_type v ADRS_WOTS_HASH (of_nat idx) (adrs_set_key_pair_address (adrs_set_type_and_clear_not_kp s ADRS_WOTS_HASH) idx)"
    using s by (auto elim!: near_elims)
  have sig': "get_len p * prm_n p \<le> length sig" "prm_hp p * prm_n p \<le> length (drop (get_len p * prm_n p) sig)"
    using sig by (simp_all add: algebra_simps)
  have "length (fips_wots_pk_from_sig p (tw v) (adrs v) (of_nat idx) sig m) = prm_n p"
    by (simp add: fips_wots_pk_from_sig_def tw_len)
  from xmss_climb_spec [OF ok _ this sig'(2), of "adv v ADRS_TREE 0 0 0" idx] show ?thesis
    by (auto simp: xmss_pk_from_sig_def Let_def wots_pk_from_sig_spec [OF ok s1 sig'(1)] fips_xmss_pk_from_sig_def
        dest: near_mono)
qed

subsection \<open>The hypertree\<close>

lemma ht_sign_loop_spec:
  assumes "ok v" "length (sk_seed v) = prm_n p" "near (at_tree v j t) s"
    and "sx = fips_xmss_sign p (tw v) (tree_adrs j t) m leaf"
  shows "\<exists>s' j' t'. ht_sign_loop p n (j + 1) s m sx t leaf =
      (fips_ht_sign p (tw v) n (j + 1) (fips_xmss_pk_from_sig p (tw v) (tree_adrs j t) leaf sx m)
         (drop_bit (prm_hp p) t) (unat (t AND mask (prm_hp p))), s') \<and> near (at_tree v j' t') s'"
  using assms(3,4)
proof (induction n arbitrary: j t s m sx leaf)
  case 0
  then show ?case by auto
next
  case (Suc n)
  let ?v = "at_tree v j t" and ?t = "drop_bit (prm_hp p) t" and ?l = "unat (t AND mask (prm_hp p))"
  let ?m = "fips_xmss_pk_from_sig p (tw v) (tree_adrs j t) leaf sx m"
  have sx: "(prm_hp p + get_len p) * prm_n p \<le> length sx" by (simp add: Suc.prems(2) length_fips_xmss_sign [OF tw_ok])
  have ok: "ok ?v" "ok (at_tree v (j + 1) ?t)" "length (sk_seed (at_tree v (j + 1) ?t)) = prm_n p" using assms(1,2) by simp_all
  from xmss_pk_from_sig_spec [OF ok(1) Suc.prems(1) sx, of leaf m] obtain s1 where
    s1: "xmss_pk_from_sig p s leaf sx m = (?m, s1)" "near ?v s1" by auto
  let ?s = "adrs_set_tree_address (adrs_set_layer_address s1 (j + 1)) ?t"
  from xmss_sign_spec [OF ok(2,3) near_next_tree [OF s1(2)], of ?m ?l] obtain s2 where
    s2: "xmss_sign p ?s ?m ?l = (fips_xmss_sign p (tw v) (tree_adrs (j + 1) ?t) ?m ?l, s2)" "near (at_tree v (j + 1) ?t) s2"
    by auto
  from Suc.IH [OF s2(2) refl, of ?m ?l] obtain s' j' t' where
    "ht_sign_loop p n (j + 1 + 1) s2 ?m (fips_xmss_sign p (tw v) (tree_adrs (j + 1) ?t) ?m ?l) ?t ?l =
      (fips_ht_sign p (tw v) n (j + 1 + 1) (fips_xmss_pk_from_sig p (tw v) (tree_adrs (j + 1) ?t) ?l
          (fips_xmss_sign p (tw v) (tree_adrs (j + 1) ?t) ?m ?l) ?m)
         (drop_bit (prm_hp p) ?t) (unat (?t AND mask (prm_hp p))), s')" "near (at_tree v j' t') s'" by blast
  then show ?case using s1(1) s2(1) by (auto simp: Let_def)
qed

lemma ht_sign_spec:
  assumes "ok v" "length (sk_seed v) = prm_n p" "near (at_tree v j0 t0) s"
  shows "fst (ht_sign p s m t leaf) = fips_ht_sign p (tw v) (prm_d p) 0 m t leaf"
proof -
  obtain n where n: "prm_d p = Suc n" using dims by (cases "prm_d p") (auto simp: dims_ok_def)
  let ?s = "adrs_set_tree_address (adrs_zero s) t" and ?sx = "fips_xmss_sign p (tw v) (tree_adrs 0 t) m leaf"
  have "near (at_tree v 0 t) ?s" using near_first_tree [OF assms(3), of t] by (simp add: at_tree_def)
  from xmss_sign_spec [OF _ _ this, of m leaf] assms obtain s1 where
    s1: "xmss_sign p ?s m leaf = (?sx, s1)" "near (at_tree v 0 t) s1" by auto
  from ht_sign_loop_spec [OF assms(1,2) s1(2) refl, of n m leaf] show ?thesis
    by (auto simp: ht_sign_def Let_def s1(1) n)
qed

lemma ht_verify_loop_spec:
  assumes "ok v" "near (at_tree v j t) s" "length node = prm_n p"
    and "(n + 1) * ((prm_hp p + get_len p) * prm_n p) \<le> length sig"
  shows "\<exists>s' j' t'. ht_verify_loop p n (j + 1) s node sig t =
      (fips_ht_root p (tw v) n (j + 1) node (drop ((prm_hp p + get_len p) * prm_n p) sig)
         (drop_bit (prm_hp p) t) (unat (t AND mask (prm_hp p))), s') \<and> near (at_tree v j' t') s'
      \<and> length (fips_ht_root p (tw v) n (j + 1) node (drop ((prm_hp p + get_len p) * prm_n p) sig)
         (drop_bit (prm_hp p) t) (unat (t AND mask (prm_hp p)))) = prm_n p"
  using assms(2-)
proof (induction n arbitrary: j t s node sig)
  case 0
  then show ?case by auto
next
  case (Suc n)
  let ?t = "drop_bit (prm_hp p) t" and ?l = "unat (t AND mask (prm_hp p))"
  let ?L = "(prm_hp p + get_len p) * prm_n p"
  let ?s = "adrs_set_tree_address (adrs_set_layer_address s (j + 1)) ?t"
  have len: "?L \<le> length (drop ?L sig)" "(n + 1) * ?L \<le> length (drop ?L sig)" using Suc.prems(3) by simp_all
  have ok: "ok (at_tree v (j + 1) ?t)" using assms(1) by simp
  from xmss_pk_from_sig_spec [OF ok near_next_tree [OF Suc.prems(1)] len(1), of ?l node] obtain s1 where
    s1: "xmss_pk_from_sig p ?s ?l (drop ?L sig) node = (fips_xmss_pk_from_sig p (tw v) (tree_adrs (j + 1) ?t) ?l (drop ?L sig) node, s1)"
      "near (at_tree v (j + 1) ?t) s1"
      "length (fips_xmss_pk_from_sig p (tw v) (tree_adrs (j + 1) ?t) ?l (drop ?L sig) node) = prm_n p" by auto
  from Suc.IH [OF s1(2,3) len(2)] show ?case using s1(1) by (simp add: Let_def)
qed

lemma ht_verify_spec:
  assumes "ok v" "near (at_tree v j0 t0) s" "length (pk_root v) = prm_n p" "length m = prm_n p"
    and sig: "prm_d p * ((prm_hp p + get_len p) * prm_n p) \<le> length sig"
  shows "ht_verify p s m sig t leaf \<longleftrightarrow> fips_ht_root p (tw v) (prm_d p) 0 m sig t leaf = pk_root v"
proof -
  obtain n where n: "prm_d p = Suc n" using dims by (cases "prm_d p") (auto simp: dims_ok_def)
  let ?s = "adrs_set_tree_address (adrs_zero s) t"
  let ?node = "fips_xmss_pk_from_sig p (tw v) (tree_adrs 0 t) leaf sig m"
  have s: "near (at_tree v 0 t) ?s" using near_first_tree [OF assms(2), of t] by (simp add: at_tree_def)
  have len: "(prm_hp p + get_len p) * prm_n p \<le> length sig" "(n + 1) * ((prm_hp p + get_len p) * prm_n p) \<le> length sig"
    using sig by (simp_all add: n)
  have ok: "ok (at_tree v 0 t)" using assms(1) by simp
  from xmss_pk_from_sig_spec [OF ok s len(1), of leaf m] obtain s1 where
    s1: "xmss_pk_from_sig p ?s leaf sig m = (?node, s1)" "near (at_tree v 0 t) s1" "length ?node = prm_n p" by auto
  from ht_verify_loop_spec [OF assms(1) s1(2,3) len(2)] obtain s' j' t' where
    s': "ht_verify_loop p n 1 s1 ?node sig t = (fips_ht_root p (tw v) (prm_d p) 0 m sig t leaf, s')" "near (at_tree v j' t') s'"
      "length (fips_ht_root p (tw v) (prm_d p) 0 m sig t leaf) = prm_n p"
    by (auto simp: n)
  have "pk_root s' = pk_root v" using near_pk_root [OF s'(2)] by simp
  with s'(3) assms(3) show ?thesis
    by (simp add: ht_verify_def Let_def s1(1) n s'(1) [unfolded n One_nat_def] ct_compare_eq del: fips_ht_root.simps)
qed

subsection \<open>FORS\<close>

lemma fors_hash_adv:
  assumes "ok v" "length (sk_seed v) = prm_n p"
  shows "fors_hash p (adv v t kp x (of_nat i)) 0 = (fors_key (tw v) (adrs v) kp i, adv v ADRS_FORS_PRF kp 0 (of_nat i))"
    "fors_hash p (adv v t kp x (of_nat i)) 1 =
       (tF (tw v) (ad (adrs v) ADRS_FORS_TREE kp 0 (of_nat i)) (fors_key (tw v) (adrs v) kp i), adv v ADRS_FORS_TREE kp 0 (of_nat i))"
  using assms fors_hash [of "adv v t kp x (of_nat i)", OF _ _ refl] by (simp_all add: fors_key_def tw_def Let_def)

lemma fors_leaf_spec:
  assumes "ok v" "length (sk_seed v) = prm_n p" "near_kp v kp s"
  shows "\<exists>s'. fors_leaf p i s = (tF (tw v) (ad (adrs v) ADRS_FORS_TREE kp 0 (of_nat i)) (fors_key (tw v) (adrs v) kp i), s')
     \<and> near_type v ADRS_FORS_TREE kp s'"
  using assms(3) by (auto simp: fors_leaf_def fors_hash_adv(2) [OF assms(1,2), simplified] elim!: near_elims)

lemma fors_join_spec:
  assumes "ok v" "near_type v ADRS_FORS_TREE kp s" "length l = prm_n p" "length r = prm_n p"
  shows "\<exists>s'. fors_join p k i l r s = (fors_parent (tw v) (adrs v) kp k (i div 2 ^ (k + 1)) l r, s') \<and> near_type v ADRS_FORS_TREE kp s'"
  using assms by (auto simp: fors_join_def Let_def tw_laws fors_parent_def elim!: near_elims)

lemma fors_node_spec:
  assumes "ok v" "length (sk_seed v) = prm_n p" "near_kp v kp s"
  shows "\<exists>s'. fors_node p s i z = (fips_fors_node (tw v) (adrs v) kp i z, s') \<and> near_type v ADRS_FORS_TREE kp s'"
  unfolding fors_node_def fips_fors_node_def
proof (rule tree_hash_merkle [where I = "near_kp v kp" and J = "near_type v ADRS_FORS_TREE kp" and G = "\<lambda>x. length x = prm_n p"])
  show "length (tF (tw v) A x) = prm_n p" for A x by (simp add: tw_len)
  show "length (fors_parent (tw v) (adrs v) kp k i l r) = prm_n p" for k i l r by (simp add: fors_parent_def tw_len)
qed (blast intro: fors_leaf_spec fors_join_spec assms near_mono)+

lemma fors_sign_tree_spec:
  assumes "ok v" "length (sk_seed v) = prm_n p" "near_kp v kp s"
  shows "\<exists>s'. fors_sign_tree p vi i s = (fips_fors_tree p (tw v) (adrs v) kp i (unat (vi ! i)), s') \<and> near_type v ADRS_FORS_TREE kp s'"
proof -
  let ?i = "i * 2 ^ prm_a p + unat (vi ! i)" and ?j = "\<lambda>j. i * 2 ^ (prm_a p - j) + xor1 (unat (vi ! i) div 2 ^ j)"
  obtain t x y where s: "s = adv v t kp x y" using assms(3) by (elim near_elims)
  let ?s = "adv v ADRS_FORS_PRF kp 0 (of_nat ?i)"
  have a: "0 < prm_a p" using dims by (simp add: dims_ok_def)
  have "\<exists>s'. for_range (\<lambda>j v. fors_node p v (?j j) j) 0 (prm_a p) ?s =
      (map (\<lambda>j. fips_fors_node (tw v) (adrs v) kp (?j j) j) [0..<0 + prm_a p], s') \<and> near_kp v kp s'
      \<and> (0 < prm_a p \<longrightarrow> near_type v ADRS_FORS_TREE kp s')"
    by (rule for_range_map [where I = "near_kp v kp" and J = "near_type v ADRS_FORS_TREE kp"])
      (simp_all add: fors_node_spec assms near_mono)
  then show ?thesis
    using a fors_hash_adv(1) [OF assms(1,2), of t kp x ?i]
    by (auto simp: fors_sign_tree_def Let_def s fips_fors_tree_def)
qed

lemma fors_sign_spec:
  assumes "ok v" "length (sk_seed v) = prm_n p" "near_kp v kp s"
  shows "\<exists>s'. fors_sign p s md = (fips_fors_sign p (tw v) (adrs v) kp md, s') \<and> near_type v ADRS_FORS_TREE kp s'"
proof -
  let ?vi = "base_2b md (prm_a p) (prm_k p)"
  have k: "0 < prm_k p" using dims by (simp add: dims_ok_def)
  have "\<exists>s'. for_range (fors_sign_tree p ?vi) 0 (prm_k p) s =
      (map (\<lambda>i. fips_fors_tree p (tw v) (adrs v) kp i (unat (?vi ! i))) [0..<0 + prm_k p], s') \<and> near_kp v kp s'
      \<and> (0 < prm_k p \<longrightarrow> near_type v ADRS_FORS_TREE kp s')"
    by (rule for_range_map [where I = "near_kp v kp" and J = "near_type v ADRS_FORS_TREE kp"])
      (simp_all add: fors_sign_tree_spec assms near_mono)
  with k show ?thesis by (auto simp: fors_sign_def fips_fors_sign_def fors_digits_def)
qed

lemma fors_climb_spec:
  assumes ok: "ok v" and s: "near_type v ADRS_FORS_TREE kp s" and node: "length node = prm_n p"
    and auth: "h * prm_n p \<le> length auth" and h: "h \<le> prm_a p"
  shows "\<exists>s'. foldl (fors_climb p (i * 2 ^ prm_a p + x) x auth) (node, s) [0..<h] =
     (climb (fors_parent (tw v) (adrs v) kp) (i * 2 ^ prm_a p + x) (\<lambda>k. chunk (prm_n p) k auth) node h, s')
     \<and> near_type v ADRS_FORS_TREE kp s'
     \<and> length (climb (fors_parent (tw v) (adrs v) kp) (i * 2 ^ prm_a p + x) (\<lambda>k. chunk (prm_n p) k auth) node h) = prm_n p"
  using auth h
proof (induction h)
  case 0
  then show ?case using s node by simp
next
  case (Suc h)
  define idx where "idx = i * 2 ^ prm_a p + x"
  from Suc.prems have "length (chunk (prm_n p) h auth) = prm_n p" by (simp add: chunk_def)
  moreover from Suc obtain a b where
    "foldl (fors_climb p idx x auth) (node, s) [0..<h] =
       (climb (fors_parent (tw v) (adrs v) kp) idx (\<lambda>k. chunk (prm_n p) k auth) node h, adv v ADRS_FORS_TREE kp a b)"
    "length (climb (fors_parent (tw v) (adrs v) kp) idx (\<lambda>k. chunk (prm_n p) k auth) node h) = prm_n p"
    by (auto simp: idx_def elim!: near_elims)
  moreover have "even (idx div 2 ^ h) = even (x div 2 ^ h)"
    using Suc.prems(2) fors_index_div(1) [of h "prm_a p" i x] fors_index_div(2) [of h "prm_a p" i] by (simp add: idx_def)
  ultimately show ?case unfolding idx_def [symmetric]
    by (simp add: fors_climb_def [of p idx x auth "(_, _)"] tw_laws ok climb_Suc fors_parent_def [abs_def] tw_len Let_def)
qed

lemma fors_root_spec:
  assumes ok: "ok v" and s: "near_type v ADRS_FORS_TREE kp s" and i: "i < k"
    and sf: "k * ((1 + prm_a p) * prm_n p) \<le> length sf"
  shows "\<exists>s'. fors_root p sf vi i s = (fips_fors_root p (tw v) (adrs v) kp sf i (unat (vi ! i)), s') \<and> near_type v ADRS_FORS_TREE kp s'"
proof -
  let ?idx = "i * 2 ^ prm_a p + unat (vi ! i)" and ?sf = "drop (i * ((1 + prm_a p) * prm_n p)) sf"
  obtain x y where s: "s = adv v ADRS_FORS_TREE kp x y" using s by (elim near_elims)
  have "Suc i * ((1 + prm_a p) * prm_n p) \<le> k * ((1 + prm_a p) * prm_n p)" using i by (intro mult_le_mono1) simp
  then have "(1 + prm_a p) * prm_n p \<le> length ?sf" using sf by simp
  then have len: "length (take (prm_n p) ?sf) = prm_n p" "prm_a p * prm_n p \<le> length (drop (prm_n p) ?sf)" by simp_all
  have f: "h_f p (adv v ADRS_FORS_TREE kp 0 (of_nat ?idx)) (take (prm_n p) ?sf) =
      tF (tw v) (ad (adrs v) ADRS_FORS_TREE kp 0 (of_nat ?idx)) (take (prm_n p) ?sf)"
    using tw_laws(1) [of "adv v ADRS_FORS_TREE kp 0 (of_nat ?idx)", OF _ len(1)] ok by simp
  have "fors_root p sf vi i s = foldl (fors_climb p ?idx (unat (vi ! i)) (drop (prm_n p) ?sf))
      (tF (tw v) (ad (adrs v) ADRS_FORS_TREE kp 0 (of_nat ?idx)) (take (prm_n p) ?sf), adv v ADRS_FORS_TREE kp 0 (of_nat ?idx)) [0..<prm_a p]"
    unfolding fors_root_def Let_def s adv_set semiring_1_class.of_nat_0 f ..
  with fors_climb_spec [OF ok near_adv(3) tw_len(1) len(2) order.refl]
  show ?thesis unfolding fips_fors_root_def Let_def by metis
qed

lemma fors_pk_from_sig_spec:
  assumes ok: "ok v" and s: "near_type v ADRS_FORS_TREE kp s" and sf: "prm_k p * ((1 + prm_a p) * prm_n p) \<le> length sf"
  shows "fors_pk_from_sig p s sf md = (fips_fors_pk_from_sig p (tw v) (adrs v) kp sf md, adv v ADRS_FORS_ROOTS kp 0 0)"
proof -
  let ?vi = "base_2b md (prm_a p) (prm_k p)"
  have "\<exists>s'. for_range (fors_root p sf ?vi) 0 (prm_k p) s =
      (map (\<lambda>i. fips_fors_root p (tw v) (adrs v) kp sf i (unat (?vi ! i))) [0..<prm_k p], s') \<and> near_type v ADRS_FORS_TREE kp s'"
    by (rule for_range_inv [where I = "near_type v ADRS_FORS_TREE kp"]) (use fors_root_spec [OF ok _ _ sf] s in blast)+
  then show ?thesis
    by (auto simp: fors_pk_from_sig_def Let_def tw_laws ok fips_fors_pk_from_sig_def fors_digits_def elim!: near_elims)
qed

subsection \<open>Signing and verification\<close>

lemma sign_digest_spec:
  assumes "ok v" "length (sk_seed v) = prm_n p"
  shows "slh_sign_digest p v digest = fips_sign_digest p (tw v) digest"
proof -
  obtain t leaf where tl: "split_digest digest p = (t, leaf)" by fastforce
  let ?v = "at_tree v 0 t" and ?sf = "fips_fors_sign p (tw v) (tree_adrs 0 t) (of_nat leaf) digest"
  have ok: "ok ?v" "length (sk_seed ?v) = prm_n p" using assms by simp_all
  from fors_sign_spec [OF ok near_adv(2), of ADRS_FORS_TREE "of_nat leaf" 0 0 digest] obtain s1 where
    s1: "fors_sign p (slh_fors_address v t leaf) digest = (?sf, s1)" "near_type ?v ADRS_FORS_TREE (of_nat leaf) s1"
    by (auto simp: slh_fors_address_adv)
  have "prm_k p * ((1 + prm_a p) * prm_n p) \<le> length ?sf" by (simp add: length_fips_fors_sign [OF tw_ok])
  note pk = fors_pk_from_sig_spec [OF ok(1) s1(2) this, of digest]
  have "fst (ht_sign p (adv ?v ADRS_FORS_ROOTS (of_nat leaf) 0 0) m t leaf) = fips_ht_sign p (tw v) (prm_d p) 0 m t leaf" for m
    by (rule ht_sign_spec [OF assms near_adv(1)])
  then show ?thesis
    by (simp add: slh_sign_digest_def fips_sign_digest_def tl Let_def s1(1) pk split_def)
qed

lemma verify_digest_spec:
  assumes "ok v" "length (pk_root v) = prm_n p"
  shows "slh_verify_digest p v digest sig = fips_verify_digest p (tw v) (pk_root v) digest sig"
proof (cases "length sig = slh_sig_sz p")
  case True
  obtain t leaf where tl: "split_digest digest p = (t, leaf)" by fastforce
  let ?v = "at_tree v 0 t" and ?f = "prm_k p * ((1 + prm_a p) * prm_n p)"
  let ?sf = "drop (prm_n p) sig" and ?sh = "drop ((1 + prm_k p * (1 + prm_a p)) * prm_n p) sig"
  have "length sig = prm_n p + ?f + prm_d p * ((prm_hp p + get_len p) * prm_n p)"
    using True dims by (simp add: slh_sig_sz_def dims_ok_def algebra_simps)
  then have len: "?f \<le> length ?sf" "prm_d p * ((prm_hp p + get_len p) * prm_n p) \<le> length ?sh"
    by (simp_all add: algebra_simps)
  have ok: "ok ?v" using assms by simp
  note pk = fors_pk_from_sig_spec [OF ok near_adv(3) len(1), of "of_nat leaf" 0 0 digest]
  have "length (fips_fors_pk_from_sig p (tw v) (tree_adrs 0 t) (of_nat leaf) ?sf digest) = prm_n p"
    by (simp add: fips_fors_pk_from_sig_def tw_len)
  note ht = ht_verify_spec [OF assms(1) near_adv(1) assms(2) this len(2), of 0 t ADRS_FORS_ROOTS "of_nat leaf" 0 0 t leaf]
  show ?thesis
    using ht True by (simp add: slh_verify_digest_def fips_verify_digest_def tl Let_def slh_fors_address_adv pk [simplified])
qed (auto simp: slh_verify_digest_def fips_verify_digest_def Let_def split_def)

lemma keygen_internal_spec:
  assumes "var_ok v0" "length a = prm_n p" "length b = prm_n p" "length c = prm_n p"
  shows "slh_keygen_internal p v0 a b c = (a @ b @ c @ fips_root p (K c a), c @ fips_root p (K c a))"
proof -
  let ?v = "mk_var p v0 None (Some (a @ b @ c @ replicate (prm_n p) 0)) (slh_dims.truncate p)"
  let ?s = "adrs_set_layer_address (adrs_zero ?v) (prm_d p - 1)"
  have v: "ok ?v" "sk_seed ?v = a" "pk_seed ?v = c" using mk_sk [OF assms, of "replicate (prm_n p) 0", OF _ refl] by simp_all
  have "near (at_tree ?v (prm_d p - 1) 0) ?s"
    unfolding near_def at_tree_def adv_def adrs_defs adrs_zero_def tree_adrs_def ad_def by (clarsimp, blast)
  from xmss_node_spec [OF _ _ this, of 0 "prm_hp p"] v assms
  have "fst (xmss_node p ?s 0 (prm_hp p)) = fips_root p (K c a)" by (auto simp: fips_root_def tw_def)
  with assms show ?thesis by (simp add: slh_keygen_internal_def Let_def split_def)
qed

lemma keygen_spec:
  assumes "length a = prm_n p" "length b = prm_n p" "length c = prm_n p"
  shows "slh_keygen p v0 (a @ b @ c @ zs) = slh_keygen_internal p v0 a b c"
proof -
  have "3 * prm_n p = length (a @ b @ c)" "2 * prm_n p = length (a @ b)" using assms by simp_all
  then have "take (3 * prm_n p) (a @ b @ c @ zs) = a @ b @ c" "take (prm_n p) (drop (2 * prm_n p) ((a @ b @ c) @ x)) = c" for x
    using append_eq_conv_conj [of "a @ b @ c" zs] append_eq_conv_conj [of "a @ b" "c @ x"] assms by simp_all
  then show ?thesis
    unfolding slh_keygen_def slh_keygen_internal_def Let_def using assms by (simp add: split_def)
qed

text \<open>Both signing functions and both verification functions, with and without a context.\<close>

definition sign_body :: "slh_var \<Rightarrow> bytes \<Rightarrow> bytes option \<Rightarrow> bytes option \<Rightarrow> bytes" where
  "sign_body v m ctx addrnd =
     (let opt_rand = (case addrnd of Some r \<Rightarrow> r | None \<Rightarrow> pk_seed v); r = prf_msg p v opt_rand m ctx
      in r @ slh_sign_digest p v (h_msg p v r m ctx))"

definition verify_body :: "slh_var \<Rightarrow> bytes \<Rightarrow> bytes \<Rightarrow> bytes option \<Rightarrow> bool" where
  "verify_body w m sig ctx = slh_verify_digest p w (h_msg p w (take (prm_n p) sig) m ctx) sig"

lemma sign_bodies:
  "slh_sign_internal p v0 m sk addrnd = sign_body (mk_var p v0 None (Some sk) (slh_dims.truncate p)) m None addrnd"
  "slh_sign p v0 m ctx sk addrnd =
     (if length ctx > 255 then None else Some (sign_body (mk_var p v0 None (Some sk) (slh_dims.truncate p)) m (Some ctx) addrnd))"
  by (simp_all add: slh_sign_internal_def slh_sign_def sign_body_def Let_def)

lemma verify_bodies:
  "slh_verify_internal p v0 m sig pk = verify_body (mk_var p v0 (Some pk) None (slh_dims.truncate p)) m sig None"
  "slh_verify p v0 m sig ctx pk \<longleftrightarrow> length ctx \<le> 255 \<and> verify_body (mk_var p v0 (Some pk) None (slh_dims.truncate p)) m sig (Some ctx)"
  by (simp_all add: slh_verify_internal_def slh_verify_def verify_body_def Let_def)

lemma sign_body_fips:
  assumes "var_ok v0" "length a = prm_n p" "length b = prm_n p" "length c = prm_n p" "length d = prm_n p"
    and rnd: "rand_ok (prm_n p) addrnd"
  shows "sign_body (mk_var p v0 None (Some (a @ b @ c @ d)) (slh_dims.truncate p)) m ctx addrnd =
     fips_sign p K Hm Pm a b c d (msg_enc ctx m) addrnd"
proof -
  let ?v = "mk_var p v0 None (Some (a @ b @ c @ d)) (slh_dims.truncate p)"
  note v = mk_sk [OF assms(1-5) refl]
  have "length (case addrnd of Some r \<Rightarrow> r | None \<Rightarrow> c) = prm_n p" using rnd assms(4) by (cases addrnd) (simp_all add: rand_ok_def)
  moreover have "slh_sign_digest p ?v digest = fips_sign_digest p (K c a) digest" for digest
    using sign_digest_spec [of ?v digest] v assms(2) by (simp add: tw_def)
  ultimately show ?thesis
    using v assms by (cases addrnd) (simp_all add: sign_body_def fips_sign_def Let_def prf_msg h_msg length_Pm)
qed

lemma verify_body_fips:
  assumes "var_ok v0" "length c = prm_n p" "length d = prm_n p"
  shows "verify_body (mk_var p v0 (Some (c @ d)) None (slh_dims.truncate p)) m sig ctx \<longleftrightarrow>
     length sig = slh_sig_sz p \<and> fips_verify p K Hm c d (msg_enc ctx m) sig"
proof (cases "length sig = slh_sig_sz p")
  case True
  let ?w = "mk_var p v0 (Some (c @ d)) None (slh_dims.truncate p)"
  note w = mk_pk [OF assms refl]
  have "length (take (prm_n p) sig) = prm_n p" using True by (simp add: slh_sig_sz_def)
  moreover have "slh_verify_digest p ?w digest sig = fips_verify_digest p (K c []) d digest sig" for digest
    using verify_digest_spec [of ?w digest sig] w assms(3) fips_verify_digest_public [OF public, of p c _ d digest sig "[]"]
    by (simp add: tw_def)
  ultimately show ?thesis using True w assms(3) by (simp add: verify_body_def fips_verify_def h_msg)
qed (simp add: verify_body_def slh_verify_digest_def Let_def)

lemma body_round_trip:
  assumes "var_ok v1" "var_ok v2" and len: "length a = prm_n p" "length b = prm_n p" "length c = prm_n p"
    and rnd: "rand_ok (prm_n p) addrnd" and d: "d = fips_root p (K c a)"
    and sig: "sig = sign_body (mk_var p v1 None (Some (a @ b @ c @ d)) (slh_dims.truncate p)) m ctx addrnd"
  shows "length sig = slh_sig_sz p \<and> verify_body (mk_var p v2 (Some (c @ d)) None (slh_dims.truncate p)) m sig ctx"
proof -
  have ld: "length d = prm_n p" by (simp add: d fips_root_def length_fips_xmss_node [OF tweak])
  have sig: "sig = fips_sign p K Hm Pm a b c d (msg_enc ctx m) addrnd"
    unfolding sig by (rule sign_body_fips [OF assms(1) len ld rnd])
  from fips_sign_verify [OF tweak dims length_Pm public, where Hm = Hm] d
  have "fips_verify p K Hm c d (msg_enc ctx m) sig" by (simp add: sig)
  moreover from this have "length sig = slh_sig_sz p"
    by (simp add: fips_verify_def fips_verify_digest_def split_def Let_def)
  ultimately show ?thesis using verify_body_fips [OF assms(2) len(3) ld] by simp
qed

lemma sign_verify:
  assumes "var_ok v0" "var_ok v1" "var_ok v2" "length a = prm_n p" "length b = prm_n p" "length c = prm_n p"
    and "rand_ok (prm_n p) addrnd" "length ctx \<le> 255" "slh_keygen_internal p v0 a b c = (sk, pk)"
  shows "\<exists>sig. slh_sign p v1 m ctx sk addrnd = Some sig \<and> length sig = slh_sig_sz p \<and> slh_verify p v2 m sig ctx pk"
  using body_round_trip [OF assms(2-7) refl refl] keygen_internal_spec [OF assms(1,4-6)] assms(8,9)
  by (auto simp: sign_bodies verify_bodies)

lemma sign_verify_internal:
  assumes "var_ok v0" "var_ok v1" "var_ok v2" "length a = prm_n p" "length b = prm_n p" "length c = prm_n p"
    and "rand_ok (prm_n p) addrnd" "slh_keygen_internal p v0 a b c = (sk, pk)"
  shows "length (slh_sign_internal p v1 m sk addrnd) = slh_sig_sz p \<and> slh_verify_internal p v2 m (slh_sign_internal p v1 m sk addrnd) pk"
  using body_round_trip [OF assms(2-7) refl refl] keygen_internal_spec [OF assms(1,4-6)] assms(8)
  by (auto simp: sign_bodies verify_bodies)

end

end
