(* ===== verification/SlhShake.thy ===== *)
theory SlhShake
  imports SlhRefine
begin

text \<open>
  SLH-DSA with SHAKE256, \<open>src/qudo-pqc-lib/qudo-slhdsa/slhdsa-native/slh_shake.c\<close>: the hash functions of
  the six SHAKE parameter sets, and that they meet the contract \<open>slh_hash\<close>.  The optimised chain, which
  builds the Keccak state by words and permutes it in place, is the iterated F of the standard.

  The seeds and the root are the first \<open>n\<close> bytes of their arrays, the only ones the code reads.  The
  state \<open>ks\<close> of the chain is its 25 words on a little-endian host; all of them are written before the
  permutation.
\<close>

section \<open>The functions\<close>

definition shake_prefix :: "bytes option \<Rightarrow> sha3_var_t \<Rightarrow> sha3_var_t" where
  "shake_prefix ctx c =
     (case ctx of None \<Rightarrow> c | Some cx \<Rightarrow> sha3_update (sha3_update c [0, of_nat (length cx)]) cx)"

definition shake_h_msg :: "slh_var \<Rightarrow> bytes \<Rightarrow> bytes \<Rightarrow> bytes option \<Rightarrow> bytes" where
  "shake_h_msg v r m ctx =
     (let n = prm_n (prm v);
          c = sha3_init 32;
          c = sha3_update c (take n r);
          c = sha3_update c (take n (pk_seed v));
          c = sha3_update c (take n (pk_root v));
          c = shake_prefix ctx c;
          c = sha3_update c m
      in fst (shake_out c (prm_m (prm v))))"

definition shake_t :: "slh_var \<Rightarrow> bytes \<Rightarrow> bytes" where
  "shake_t v m =
     (let n = prm_n (prm v);
          c = sha3_init 32;
          c = sha3_update c (take n (pk_seed v));
          c = sha3_update c (adrs_u8 (adrs v));
          c = sha3_update c m
      in fst (shake_out c n))"

definition shake_f :: "slh_var \<Rightarrow> bytes \<Rightarrow> bytes" where
  "shake_f v m1 =
     (let n = prm_n (prm v);
          c = sha3_init 32;
          c = sha3_update c (take n (pk_seed v));
          c = sha3_update c (adrs_u8 (adrs v));
          c = sha3_update c (take n m1)
      in fst (shake_out c n))"

definition shake_prf :: "slh_var \<Rightarrow> bytes" where
  "shake_prf v = shake_f v (sk_seed v)"

definition shake_prf_msg :: "slh_var \<Rightarrow> bytes \<Rightarrow> bytes \<Rightarrow> bytes option \<Rightarrow> bytes" where
  "shake_prf_msg v opt_rand m ctx =
     (let n = prm_n (prm v);
          c = sha3_init 32;
          c = sha3_update c (take n (sk_prf v));
          c = sha3_update c (take n opt_rand);
          c = shake_prefix ctx c;
          c = sha3_update c m
      in fst (shake_out c n))"

definition shake_h :: "slh_var \<Rightarrow> bytes \<Rightarrow> bytes \<Rightarrow> bytes" where
  "shake_h v m1 m2 =
     (let n = prm_n (prm v);
          c = sha3_init 32;
          c = sha3_update c (take n (pk_seed v));
          c = sha3_update c (adrs_u8 (adrs v));
          c = sha3_update c (take n m1);
          c = sha3_update c (take n m2)
      in fst (shake_out c n))"

definition shake_mk_var :: "slh_var \<Rightarrow> bytes option \<Rightarrow> bytes option \<Rightarrow> slh_dims \<Rightarrow> slh_var" where
  "shake_mk_var v pk sk prm' =
     (let n = prm_n prm'; v = v\<lparr>prm := prm'\<rparr>
      in case sk of
           Some sk \<Rightarrow> v\<lparr>sk_seed := take n sk, sk_prf := take n (drop n sk), pk_seed := take n (drop (2 * n) sk),
                         pk_root := take n (drop (3 * n) sk)\<rparr>
         | None \<Rightarrow> (case pk of
             Some pk \<Rightarrow> v\<lparr>pk_seed := take n pk, pk_root := take n (drop n pk)\<rparr>
           | None \<Rightarrow> v))"

definition shake_chain_block :: "slh_var \<Rightarrow> nat \<Rightarrow> u64 list \<Rightarrow> u64 list" where
  "shake_chain_block v j ks =
     (let n = prm_n (prm v); r = (1600 - 256 * 2) div 64; n8 = n div 8; h = n8 + 32 div 8; l = h + n8;
          ks = (if j > 0 then blit ks h (take n8 ks) else ks);
          ks = blit ks 0 (le64_words (take n (pk_seed v)));
          ks = blit ks n8 (le64_words (adrs_u8 (adrs v)));
          ks = ks[l := 0x1F];
          ks = foldl (\<lambda>ks k. ks[k := 0]) ks [l + 1..<r - 1];
          ks = ks[r - 1 := push_bit 63 1]
      in foldl (\<lambda>ks k. ks[k := 0]) ks [r..<25])"

definition shake_chain_step :: "nat \<Rightarrow> slh_var \<times> u64 list \<Rightarrow> nat \<Rightarrow> slh_var \<times> u64 list" where
  "shake_chain_step i s j =
     (let (v, ks) = s; v = adrs_set_hash_address v (i + j)
      in (v, keccak_f1600 (shake_chain_block v j ks)))"

definition shake_chain :: "slh_var \<Rightarrow> bytes \<Rightarrow> nat \<Rightarrow> nat \<Rightarrow> bytes \<times> slh_var" where
  "shake_chain v x i s =
     (let n = prm_n (prm v); h = n div 8 + 32 div 8
      in if s = 0 then (take n x, v)
         else let ks = blit (replicate 25 0) h (le64_words (take n x));
                  (v, ks) = foldl (shake_chain_step i) (v, ks) [0..<s]
              in (take n (words_bytes ks), v))"

definition shake_wots_chain :: "slh_var \<Rightarrow> nat \<Rightarrow> bytes \<times> slh_var" where
  "shake_wots_chain v s =
     (let v = adrs_set_type v ADRS_WOTS_PRF;
          v = adrs_set_tree_index v 0;
          tmp = shake_prf v;
          v = adrs_set_type v ADRS_WOTS_HASH
      in shake_chain v tmp 0 s)"

definition shake_fors_hash :: "slh_var \<Rightarrow> nat \<Rightarrow> bytes \<times> slh_var" where
  "shake_fors_hash v s =
     (let v = adrs_set_type v ADRS_FORS_PRF;
          v = adrs_set_tree_height v 0;
          tmp = shake_prf v
      in if s = 1 then (let v = adrs_set_type v ADRS_FORS_TREE in (shake_f v tmp, v)) else (tmp, v))"

section \<open>The parameter sets\<close>

definition shake_param :: "string \<Rightarrow> nat \<Rightarrow> nat \<Rightarrow> nat \<Rightarrow> nat \<Rightarrow> nat \<Rightarrow> nat \<Rightarrow> nat \<Rightarrow> slh_param" where
  "shake_param ident n h d hp a k m =
     \<lparr>prm_n = n, prm_h = h, prm_d = d, prm_hp = hp, prm_a = a, prm_k = k, prm_lg_w = 4, prm_m = m,
      alg_id = ident, mk_var = shake_mk_var, chain = shake_chain, wots_chain = shake_wots_chain,
      fors_hash = shake_fors_hash, h_msg = shake_h_msg, h_prf = shake_prf, prf_msg = shake_prf_msg,
      h_f = shake_f, h_h = shake_h, h_t = shake_t\<rparr>"

definition slh_dsa_shake_128s :: slh_param where
  "slh_dsa_shake_128s = shake_param ''SLH-DSA-SHAKE-128s'' 16 63 7 9 12 14 30"

definition slh_dsa_shake_128f :: slh_param where
  "slh_dsa_shake_128f = shake_param ''SLH-DSA-SHAKE-128f'' 16 66 22 3 6 33 34"

definition slh_dsa_shake_192s :: slh_param where
  "slh_dsa_shake_192s = shake_param ''SLH-DSA-SHAKE-192s'' 24 63 7 9 14 17 39"

definition slh_dsa_shake_192f :: slh_param where
  "slh_dsa_shake_192f = shake_param ''SLH-DSA-SHAKE-192f'' 24 66 22 3 8 33 42"

definition slh_dsa_shake_256s :: slh_param where
  "slh_dsa_shake_256s = shake_param ''SLH-DSA-SHAKE-256s'' 32 64 8 8 14 22 47"

definition slh_dsa_shake_256f :: slh_param where
  "slh_dsa_shake_256f = shake_param ''SLH-DSA-SHAKE-256f'' 32 68 17 4 9 35 49"

section \<open>The contract\<close>

definition shake_tweak :: "nat \<Rightarrow> bytes \<Rightarrow> bytes \<Rightarrow> tweak" where
  "shake_tweak n ps ss =
     \<lparr>tF = (\<lambda>A x. SHAKE256 (ps @ adrs_u8 A @ x) n), tH = (\<lambda>A x y. SHAKE256 (ps @ adrs_u8 A @ x @ y) n),
      tT = (\<lambda>A x. SHAKE256 (ps @ adrs_u8 A @ x) n), tPRF = (\<lambda>A. SHAKE256 (ps @ adrs_u8 A @ ss) n)\<rparr>"

lemma shake_tweak_simps [simp]:
  "tF (shake_tweak n ps ss) A x = SHAKE256 (ps @ adrs_u8 A @ x) n"
  "tH (shake_tweak n ps ss) A x y = SHAKE256 (ps @ adrs_u8 A @ x @ y) n"
  "tT (shake_tweak n ps ss) A x = SHAKE256 (ps @ adrs_u8 A @ x) n"
  "tPRF (shake_tweak n ps ss) A = SHAKE256 (ps @ adrs_u8 A @ ss) n"
  by (simp_all add: shake_tweak_def)

definition shake_Hm :: "nat \<Rightarrow> bytes \<Rightarrow> bytes \<Rightarrow> bytes \<Rightarrow> bytes \<Rightarrow> bytes" where
  "shake_Hm m r ps pr msg = SHAKE256 (r @ ps @ pr @ msg) m"

definition shake_Pm :: "nat \<Rightarrow> bytes \<Rightarrow> bytes \<Rightarrow> bytes \<Rightarrow> bytes" where
  "shake_Pm n sp opt msg = SHAKE256 (sp @ opt @ msg) n"

definition shake_ok :: "slh_param \<Rightarrow> slh_var \<Rightarrow> bool" where
  "shake_ok p v \<longleftrightarrow> prm v = slh_dims.truncate p \<and> length (pk_seed v) = prm_n p"

lemma shake_pieces:
  "fst (shake_out (foldl sha3_update (sha3_init 32) xs) n) = SHAKE256 (concat xs) n"
  using shake256.fin_chunks [where n = n and xs = xs] by (simp add: shake_fin_def)

lemma shake_pieces3: "fst (shake_out (sha3_update (sha3_update (sha3_update (sha3_init 32) a) b) c) n) = SHAKE256 (a @ b @ c) n"
  using shake_pieces [of "[a, b, c]" n] by simp

lemma shake_pieces4:
  "fst (shake_out (sha3_update (sha3_update (sha3_update (sha3_update (sha3_init 32) a) b) c) d) n) = SHAKE256 (a @ b @ c @ d) n"
  using shake_pieces [of "[a, b, c, d]" n] by simp

lemma shake_message:
  "fst (shake_out (sha3_update (shake_prefix ctx (foldl sha3_update (sha3_init 32) xs)) m) n) = SHAKE256 (concat xs @ msg_enc ctx m) n"
proof (cases ctx)
  case None
  then show ?thesis using shake_pieces [of "xs @ [m]" n] by (simp add: shake_prefix_def msg_enc_def)
next
  case (Some c)
  then show ?thesis using shake_pieces [of "xs @ [[0, of_nat (length c)], c, m]" n] by (simp add: shake_prefix_def msg_enc_def)
qed

subsection \<open>The chain\<close>

lemma zero_fill:
  "i \<le> j \<Longrightarrow> j \<le> length ks \<Longrightarrow> foldl (\<lambda>ks k. ks[k := 0]) ks [i..<j] = take i ks @ replicate (j - i) 0 @ drop j (ks :: u64 list)"
proof (induction j)
  case (Suc j)
  show ?case
  proof (cases "i \<le> j")
    case True
    with Suc have "foldl (\<lambda>ks k. ks[k := 0]) ks [i..<j] = take i ks @ replicate (j - i) 0 @ drop j ks" by simp
    with Suc.prems True show ?thesis
      by (simp add: list_update_append Suc_diff_le replicate_append_same [symmetric] Cons_nth_drop_Suc [symmetric])
  qed (use Suc.prems in \<open>simp add: le_Suc_eq\<close>)
qed simp

lemma zero_fill_tail:
  "length u = i \<Longrightarrow> i + length t = j \<Longrightarrow> foldl (\<lambda>ks k. ks[k := 0]) (u @ t) [i..<j] = u @ replicate (length t) (0 :: u64)"
  by (subst zero_fill) auto

lemma le64_words_zeros: "le64_words (replicate (8 * k) 0 @ b) = replicate k 0 @ le64_words b"
proof (induction k)
  case (Suc k)
  have "replicate (8 * Suc k) 0 @ b = replicate 8 0 @ replicate (8 * k) 0 @ b" by (simp flip: replicate_add append_assoc)
  moreover have "le_word (replicate 8 0) = 0" by code_simp
  ultimately show ?case using Suc by (simp only: le64_words_8 length_replicate replicate_Suc append.simps)
qed simp

lemma le64_words_pad:
  assumes "l < 16"
  shows "le64_words (pad10star1 136 0x1F (8 * l) @ replicate 64 0) = 0x1F # replicate (15 - l) 0 @ push_bit 63 1 # replicate 8 0"
proof -
  have "pad10star1 136 0x1F (8 * l) = 0x1F # replicate (134 - 8 * l) 0 @ [0x80 :: u8]"
    using assms by (simp add: pad10star1_def Let_def)
  also have "134 - 8 * l = 7 + 8 * (15 - l) + 7" using assms by simp
  finally have "pad10star1 136 0x1F (8 * l) = (0x1F # replicate 7 0) @ replicate (8 * (15 - l)) 0 @ replicate 7 0 @ [0x80 :: u8]"
    by (simp only: replicate_add append_assoc append.simps)
  moreover have "le_word (0x1F # replicate 7 0) = 0x1F" "le_word (replicate 7 0 @ [0x80]) = push_bit 63 1"
    by code_simp+
  ultimately show ?thesis
    using le64_words_zeros [of 8 "[]"] le64_words_8 [of "replicate 7 0 @ [0x80 :: u8]" "replicate 64 0"]
      le64_words_8 [of "0x1F # replicate 7 0" "replicate (8 * (15 - l)) 0 @ replicate 7 0 @ [0x80 :: u8] @ replicate 64 0"]
    by (simp add: le64_words_zeros)
qed

lemma chain_block:
  assumes n: "prm_n (prm v) = n" "n = 8 * k" "k \<le> 4" and len: "length (pk_seed v) = n" "length x = n" "length ks = 25"
    and x: "if j = 0 then take k (drop (k + 4) ks) = le64_words x else take k ks = le64_words x"
  shows "shake_chain_block v j ks = le64_words (zero_ext ((pk_seed v @ adrs_u8 (adrs v) @ x) @ pad10star1 136 0x1F (length (pk_seed v @ adrs_u8 (adrs v) @ x))))"
proof -
  let ?P = "le64_words (pk_seed v)" and ?A = "le64_words (adrs_u8 (adrs v))" and ?X = "le64_words x" and ?l = "k + 4 + k"
  let ?ks1 = "if j > 0 then blit ks (k + 4) (take k ks) else ks"
  have X: "length ?X = k" "length ?P = k" "length ?A = 4" using n len by simp_all
  have ks1: "length ?ks1 = 25" using len(3) n(3) by simp
  have "take k (drop (k + 4) ?ks1) = ?X"
  proof (cases "j = 0")
    case False
    then have "take k ks = ?X" using x by simp
    moreover have "length (take k ks) = k" using len(3) n(3) by simp
    ultimately show ?thesis using False len(3) n(3) by (simp add: blit_def)
  qed (use x in simp)
  then have "drop (k + 4) ?ks1 = ?X @ drop ?l ?ks1"
    using append_take_drop_id [of k "drop (k + 4) ?ks1"] by (simp add: drop_drop add.commute)
  moreover have "blit (blit ?ks1 0 ?P) k ?A = ?P @ ?A @ drop (k + 4) ?ks1"
    using X by (simp add: blit_def drop_drop add.commute)
  ultimately have ks3: "blit (blit ?ks1 0 ?P) k ?A = ?P @ ?A @ ?X @ drop ?l ?ks1" by simp
  define d where "d = drop ?l ?ks1"
  have d: "length d = 25 - ?l" using ks1 by (simp add: d_def)
  let ?ks4 = "(?P @ ?A @ ?X @ d)[?l := 0x1F]"
  let ?ks5 = "?P @ ?A @ ?X @ 0x1F # replicate (15 - ?l) 0 @ drop (16 - ?l) d"
  let ?ks6 = "?P @ ?A @ ?X @ 0x1F # replicate (15 - ?l) 0 @ push_bit 63 1 # drop (17 - ?l) d"
  have l: "?l < 16" using n(3) by simp
  have 4: "?ks4 = ?P @ ?A @ ?X @ 0x1F # drop 1 d"
    using X d l by (cases d) (simp_all add: list_update_append)
  have 5: "foldl (\<lambda>ks k. ks[k := 0]) ?ks4 [?l + 1..<16] = ?ks5"
    unfolding 4 using X d l by (subst zero_fill) (auto simp: drop_Cons' intro!: arg_cong [where f = "\<lambda>i. drop i d"], arith)
  have 6: "?ks5[16 := push_bit 63 1] = ?ks6"
  proof -
    let ?u = "?P @ ?A @ ?X @ 0x1F # replicate (15 - ?l) 0"
    have u: "length ?u = 16" using X l by simp
    have "drop (16 - ?l) d = d ! (16 - ?l) # drop (17 - ?l) d"
      using d l Cons_nth_drop_Suc [of "16 - ?l" d] Suc_diff_le [of ?l 16] by simp
    then show ?thesis
      using list_update_length [of ?u "d ! (16 - ?l)" "drop (17 - ?l) d" "push_bit 63 1", unfolded u]
      by (simp only: append_assoc append.simps)
  qed
  have 7: "foldl (\<lambda>ks k. ks[k := 0]) ?ks6 [17..<25] = ?P @ ?A @ ?X @ 0x1F # replicate (15 - ?l) 0 @ push_bit 63 1 # replicate 8 0"
  proof -
    let ?u = "?P @ ?A @ ?X @ 0x1F # replicate (15 - ?l) 0 @ [push_bit 63 1]"
    have u: "length ?u = 17" and t: "length (drop (17 - ?l) d) = 8" using X d l by simp_all
    from zero_fill_tail [OF u, of "drop (17 - ?l) d" 25, unfolded t] show ?thesis by (simp only: append_assoc append.simps)
  qed
  have c: "(1600 - 256 * 2) div 64 = (17 :: nat)" "32 div 8 = (4 :: nat)" "17 - 1 = (16 :: nat)" "n div 8 = k" "take n (pk_seed v) = pk_seed v"
    using n len by simp_all
  have lhs: "shake_chain_block v j ks = ?P @ ?A @ ?X @ 0x1F # replicate (15 - ?l) 0 @ push_bit 63 1 # replicate 8 0"
    unfolding shake_chain_block_def Let_def n(1) c ks3 d_def [symmetric] 5 6 by (rule 7)
  have "length (pk_seed v @ adrs_u8 (adrs v) @ x) = 8 * ?l" using n len by simp
  moreover have "length (pad10star1 136 0x1F (8 * ?l)) = 136 - 8 * ?l" using l by (simp add: length_pad10star1)
  ultimately show ?thesis
    using n len l le64_words_pad [OF l]
    by (simp add: lhs zero_ext_def le64_words_append)
qed

lemma take_words_bytes: "take (8 * k) (words_bytes ws) = words_bytes (take k ws)"
proof (induction ws arbitrary: k)
  case (Cons w ws)
  then show ?case by (cases k) (simp_all add: words_bytes_def)
qed (simp add: words_bytes_def)

lemma chain_permute:
  assumes "length m < 136" "n = 8 * k" "k \<le> 17" "ks = keccak_f1600 (le64_words (zero_ext (m @ pad10star1 136 0x1F (length m))))"
  shows "take k ks = le64_words (SHAKE256 m n) \<and> length ks = 25"
proof -
  let ?z = "zero_ext (m @ pad10star1 136 0x1F (length m))"
  have z: "length ?z = 200" using assms(1) by (simp add: length_zero_ext length_pad10star1)
  then have ks: "ks = Keccak_p1600 (le64_words ?z)" "length ks = 25"
    using keccak_f1600_fips [of "le64_words ?z"] by (simp_all add: assms(4))
  then have "words_bytes ks = KECCAK_f ?z" by (simp add: KECCAK_f_def)
  then have "words_bytes (take k ks) = SHAKE256 m n"
    using SHAKE256_one_block [OF assms(1), of n] assms(2,3) by (simp flip: take_words_bytes)
  then show ?thesis using le64_words_bytes [of "take k ks" "[]"] ks(2) by simp
qed

lemma shake_chain_loop:
  assumes n: "prm_n (prm v) = n" "n = 8 * k" "k \<le> 4" and len: "length (pk_seed v) = n" "length x = n" "length ks = 25"
    and x: "take k (drop (k + 4) ks) = le64_words x"
    and K: "K = shake_tweak n (pk_seed v) (sk_seed v)"
  shows "\<exists>y ks'. foldl (shake_chain_step i) (v, ks) [0..<s] = (v\<lparr>adrs := (adrs v)\<lparr>adrs7 := y\<rparr>\<rparr>, ks') \<and> length ks' = 25
     \<and> (if s = 0 then ks' = ks else take k ks' = le64_words (fips_chain K (adrs v) x i s))"
proof (induction s)
  case 0
  then show ?case using len(3) adrs7_self [of v] by auto
next
  case (Suc s)
  then obtain y ks' where IH: "foldl (shake_chain_step i) (v, ks) [0..<s] = (v\<lparr>adrs := (adrs v)\<lparr>adrs7 := y\<rparr>\<rparr>, ks')" "length ks' = 25"
    "if s = 0 then ks' = ks else take k ks' = le64_words (fips_chain K (adrs v) x i s)" by blast
  let ?v = "v\<lparr>adrs := (adrs v)\<lparr>adrs7 := of_nat (i + s)\<rparr>\<rparr>" and ?c = "fips_chain K (adrs v) x i s"
  let ?m = "pk_seed v @ adrs_u8 ((adrs v)\<lparr>adrs7 := of_nat (i + s)\<rparr>) @ ?c"
  have c: "length ?c = n" by (cases s) (simp_all add: len K)
  have "if s = 0 then take k (drop (k + 4) ks') = le64_words ?c else take k ks' = le64_words ?c"
    using IH(3) x by (cases s) simp_all
  from chain_block [where v = ?v, OF _ n(2,3) _ c IH(2) this] n len
  have "shake_chain_block ?v s ks' = le64_words (zero_ext (?m @ pad10star1 136 0x1F (length ?m)))" by simp
  from chain_permute [OF _ n(2) _ arg_cong [where f = keccak_f1600, OF this]] n len c
  have "take k (keccak_f1600 (shake_chain_block ?v s ks')) = le64_words (SHAKE256 ?m n)"
    "length (keccak_f1600 (shake_chain_block ?v s ks')) = 25" by simp_all
  then show ?case
    by (auto simp: IH(1) shake_chain_step_def [of i "(_, _)"] adrs_set_hash_address_def Let_def K intro!: exI [of _ "of_nat (i + s)"])
qed

lemma shake_chain_spec:
  assumes ok: "shake_ok p v" and p: "prm_n p = 8 * k" "k \<le> 4" and x: "length x = prm_n p"
  shows "\<exists>y. shake_chain v x i s = (fips_chain (shake_tweak (prm_n p) (pk_seed v) (sk_seed v)) (adrs v) x i s, v\<lparr>adrs := (adrs v)\<lparr>adrs7 := y\<rparr>\<rparr>)"
proof (cases "s = 0")
  case True
  then have "shake_chain v x i s = (x, v)" using ok x by (simp add: shake_chain_def Let_def shake_ok_def slh_dims.defs)
  then show ?thesis using True adrs7_self [of v] by auto
next
  case False
  let ?ks = "blit (replicate 25 0) (k + 4) (le64_words x)" and ?K = "shake_tweak (prm_n p) (pk_seed v) (sk_seed v)"
  have n: "prm_n (prm v) = prm_n p" "length (pk_seed v) = prm_n p" using ok by (simp_all add: shake_ok_def slh_dims.defs)
  have ks: "length ?ks = 25" "take k (drop (k + 4) ?ks) = le64_words x" using p x by (simp_all add: blit_def)
  from shake_chain_loop [OF n(1) p n(2) x ks refl, of i s] False obtain y ks' where
    l: "foldl (shake_chain_step i) (v, ?ks) [0..<s] = (v\<lparr>adrs := (adrs v)\<lparr>adrs7 := y\<rparr>\<rparr>, ks')"
      "take k ks' = le64_words (fips_chain ?K (adrs v) x i s)" by auto
  have "length (fips_chain ?K (adrs v) x i s) = prm_n p" using x by (cases s) simp_all
  then have "take (prm_n p) (words_bytes ks') = fips_chain ?K (adrs v) x i s"
    using words_bytes_words [of "fips_chain ?K (adrs v) x i s"] by (simp add: p(1) take_words_bytes l(2))
  with l(1) False x n(1) p show ?thesis by (auto simp: shake_chain_def Let_def)
qed

subsection \<open>The contract\<close>

lemma shake_ok_simps:
  "shake_ok p v \<Longrightarrow> prm_n (prm v) = prm_n p" "shake_ok p v \<Longrightarrow> prm_m (prm v) = prm_m p"
  "shake_ok p v \<Longrightarrow> length (pk_seed v) = prm_n p" "shake_ok p (v\<lparr>adrs := A\<rparr>) = shake_ok p v"
  by (auto simp: shake_ok_def slh_dims.defs)

lemma shake_hashes:
  assumes "shake_ok p v"
  shows "length x = prm_n p \<Longrightarrow> shake_f v x = tF (shake_tweak (prm_n p) (pk_seed v) (sk_seed v)) (adrs v) x"
    and "length x = prm_n p \<Longrightarrow> length y = prm_n p \<Longrightarrow> shake_h v x y = tH (shake_tweak (prm_n p) (pk_seed v) (sk_seed v)) (adrs v) x y"
    and "shake_t v x = tT (shake_tweak (prm_n p) (pk_seed v) (sk_seed v)) (adrs v) x"
    and "length (sk_seed v) = prm_n p \<Longrightarrow> shake_prf v = tPRF (shake_tweak (prm_n p) (pk_seed v) (sk_seed v)) (adrs v)"
  using shake_ok_simps(1-3) [OF assms]
  by (simp_all add: shake_f_def shake_h_def shake_t_def shake_prf_def Let_def shake_pieces3 shake_pieces4)

lemma shake_messages:
  assumes "shake_ok p v" "length r = prm_n p"
  shows "length (pk_root v) = prm_n p \<Longrightarrow> shake_h_msg v r m ctx = shake_Hm (prm_m p) r (pk_seed v) (pk_root v) (msg_enc ctx m)"
    and "length (sk_prf v) = prm_n p \<Longrightarrow> shake_prf_msg v r m ctx = shake_Pm (prm_n p) (sk_prf v) r (msg_enc ctx m)"
  using shake_ok_simps(1-3) [OF assms(1)] assms(2)
    shake_message [of ctx "[r, pk_seed v, pk_root v]" m] shake_message [of ctx "[sk_prf v, r]" m]
  by (simp_all add: shake_h_msg_def shake_prf_msg_def shake_Hm_def shake_Pm_def Let_def)

lemma shake_slh_hash:
  assumes p: "p = shake_param ident n h d hp a k m" and dims: "dims_ok p"
  shows "slh_hash p (shake_tweak n) (shake_Hm m) (shake_Pm n) (shake_ok p)"
proof -
  have f [simp]: "prm_n p = n" "prm_m p = m" "h_f p = shake_f" "h_h p = shake_h" "h_t p = shake_t" "h_msg p = shake_h_msg"
    "prf_msg p = shake_prf_msg" "chain p = shake_chain" "wots_chain p = shake_wots_chain" "fors_hash p = shake_fors_hash"
    "mk_var p = shake_mk_var"
    by (simp_all add: p shake_param_def)
  have "n mod 8 = 0" "n \<le> 32" using dims by (simp_all add: dims_ok_def)
  then obtain k where k: "prm_n p = 8 * k" "k \<le> 4" by (auto simp: mod_eq_0_iff_dvd elim!: dvdE)
  note ok = shake_ok_simps [where p = p, simplified] and H = shake_hashes [where p = p, simplified]
  show ?thesis
  proof
    show "\<exists>y. chain p v x i s = (fips_chain (shake_tweak n (pk_seed v) (sk_seed v)) (adrs v) x i s, v\<lparr>adrs := (adrs v)\<lparr>adrs7 := y\<rparr>\<rparr>)"
      if "shake_ok p v" "length x = prm_n p" for v x i s
      using shake_chain_spec [OF that(1) k that(2)] by simp
    show "\<exists>y. wots_chain p v s = (fips_chain (shake_tweak n (pk_seed v) (sk_seed v)) A
          (tPRF (shake_tweak n (pk_seed v) (sk_seed v)) (A\<lparr>adrs4 := ADRS_WOTS_PRF\<rparr>)) 0 s, v\<lparr>adrs := A\<lparr>adrs7 := y\<rparr>\<rparr>)"
      if "shake_ok p v" "length (sk_seed v) = prm_n p" "A = (adrs v)\<lparr>adrs4 := ADRS_WOTS_HASH, adrs7 := 0\<rparr>" for v A s
      using that shake_chain_spec [OF _ k, of "v\<lparr>adrs := A\<rparr>" "tPRF (shake_tweak n (pk_seed v) (sk_seed v)) (A\<lparr>adrs4 := ADRS_WOTS_PRF\<rparr>)" 0 s]
        H(4) [of "v\<lparr>adrs := A\<lparr>adrs4 := ADRS_WOTS_PRF\<rparr>\<rparr>"]
      by (simp add: shake_wots_chain_def Let_def adrs_defs ok adrs_swap)
    show "fors_hash p v s = (let x = tPRF (shake_tweak n (pk_seed v) (sk_seed v)) A; B = A\<lparr>adrs4 := ADRS_FORS_TREE\<rparr>
        in if s = 1 then (tF (shake_tweak n (pk_seed v) (sk_seed v)) B x, v\<lparr>adrs := B\<rparr>) else (x, v\<lparr>adrs := A\<rparr>))"
      if "shake_ok p v" "length (sk_seed v) = prm_n p" "A = (adrs v)\<lparr>adrs4 := ADRS_FORS_PRF, adrs6 := 0\<rparr>" for v A s
      using that H(4) [of "v\<lparr>adrs := A\<rparr>"]
        H(1) [of "v\<lparr>adrs := A\<lparr>adrs4 := ADRS_FORS_TREE\<rparr>\<rparr>" "tPRF (shake_tweak n (pk_seed v) (sk_seed v)) A"]
      by (simp add: shake_fors_hash_def Let_def adrs_defs ok)
    show "shake_ok p v \<and> sk_seed v = a \<and> sk_prf v = b \<and> pk_seed v = c \<and> pk_root v = d"
      if "length a = prm_n p" "length b = prm_n p" "length c = prm_n p" "length d = prm_n p"
        "v = mk_var p v0 None (Some (a @ b @ c @ d)) (slh_dims.truncate p)" for a b c d v v0
      using that by (simp add: shake_mk_var_def Let_def shake_ok_def slh_dims.defs)
    show "shake_ok p v \<and> pk_seed v = c \<and> pk_root v = d"
      if "length c = prm_n p" "length d = prm_n p" "v = mk_var p v0 (Some (c @ d)) None (slh_dims.truncate p)" for c d v v0
      using that by (simp add: shake_mk_var_def Let_def shake_ok_def slh_dims.defs)
  qed (use dims H ok shake_messages [where p = p, simplified] in
      \<open>simp_all add: tweak_ok_def same_public_def fun_eq_iff shake_Pm_def\<close>)
qed

interpretation shake_128s: slh_hash slh_dsa_shake_128s "shake_tweak 16" "shake_Hm 30" "shake_Pm 16" "shake_ok slh_dsa_shake_128s"
  by (rule shake_slh_hash [OF slh_dsa_shake_128s_def]) (simp add: dims_ok_def slh_dsa_shake_128s_def shake_param_def)

interpretation shake_128f: slh_hash slh_dsa_shake_128f "shake_tweak 16" "shake_Hm 34" "shake_Pm 16" "shake_ok slh_dsa_shake_128f"
  by (rule shake_slh_hash [OF slh_dsa_shake_128f_def]) (simp add: dims_ok_def slh_dsa_shake_128f_def shake_param_def)

interpretation shake_192s: slh_hash slh_dsa_shake_192s "shake_tweak 24" "shake_Hm 39" "shake_Pm 24" "shake_ok slh_dsa_shake_192s"
  by (rule shake_slh_hash [OF slh_dsa_shake_192s_def]) (simp add: dims_ok_def slh_dsa_shake_192s_def shake_param_def)

interpretation shake_192f: slh_hash slh_dsa_shake_192f "shake_tweak 24" "shake_Hm 42" "shake_Pm 24" "shake_ok slh_dsa_shake_192f"
  by (rule shake_slh_hash [OF slh_dsa_shake_192f_def]) (simp add: dims_ok_def slh_dsa_shake_192f_def shake_param_def)

interpretation shake_256s: slh_hash slh_dsa_shake_256s "shake_tweak 32" "shake_Hm 47" "shake_Pm 32" "shake_ok slh_dsa_shake_256s"
  by (rule shake_slh_hash [OF slh_dsa_shake_256s_def]) (simp add: dims_ok_def slh_dsa_shake_256s_def shake_param_def)

interpretation shake_256f: slh_hash slh_dsa_shake_256f "shake_tweak 32" "shake_Hm 49" "shake_Pm 32" "shake_ok slh_dsa_shake_256f"
  by (rule shake_slh_hash [OF slh_dsa_shake_256f_def]) (simp add: dims_ok_def slh_dsa_shake_256f_def shake_param_def)

end
