(* ===== verification/SlhSha2.thy ===== *)
theory SlhSha2
  imports SlhRefine
begin

text \<open>
  SLH-DSA with SHA-2, \<open>src/qudo-pqc-lib/qudo-slhdsa/slhdsa-native/slh_sha2.c\<close>: the hash functions of the six SHA-2
  parameter sets, and that they meet the contract \<open>slh_hash\<close>.  The contexts in \<open>slh_var_t\<close> hold the
  padded public seed already compressed; the optimised chain reuses the padded block of the first
  step and rewrites the hash address and the input.

  A context local to a function is \<open>local_256\<close> or \<open>local_512\<close> before it is set; the contract of the hashes
  holds for every content of it.
\<close>

section \<open>The functions\<close>

definition local_256 :: sha2_256_t where
  "local_256 = \<lparr>hs = replicate 32 0, mp = replicate 64 0, sha_i = 0, sha_len = 0\<rparr>"

definition local_512 :: sha2_512_t where
  "local_512 = \<lparr>hs = replicate 64 0, mp = replicate 128 0, sha_i = 0, sha_len = 0\<rparr>"

definition adrsc_22 :: "slh_var \<Rightarrow> bytes" where
  "adrsc_22 v = (let u = adrs_u8 (adrs v) in u ! 3 # map (\<lambda>i. u ! (i + 8)) [0..<8] @ map (\<lambda>i. u ! (i + 19)) [0..<13])"

definition sha2_256_prefix :: "bytes option \<Rightarrow> sha2_256_t \<Rightarrow> sha2_256_t" where
  "sha2_256_prefix ctx sha2 =
     (case ctx of None \<Rightarrow> sha2 | Some c \<Rightarrow> sha2_256_update (sha2_256_update sha2 [0, of_nat (length c)]) c)"

definition sha2_512_prefix :: "bytes option \<Rightarrow> sha2_512_t \<Rightarrow> sha2_512_t" where
  "sha2_512_prefix ctx sha2 =
     (case ctx of None \<Rightarrow> sha2 | Some c \<Rightarrow> sha2_512_update (sha2_512_update sha2 [0, of_nat (length c)]) c)"

text \<open>
  The counter mode of both message hashes, \<open>for (i = 0; i < m; i += L)\<close>: \<open>H\<close> hashes the buffer \<open>buf\<close> with the
  counter at its end, a whole digest is written where there is room for it and a part of it at the
  end.
\<close>

function mgf_loop :: "(bytes \<Rightarrow> bytes) \<Rightarrow> nat \<Rightarrow> bytes \<Rightarrow> nat \<Rightarrow> nat \<Rightarrow> bytes" where
  "mgf_loop H L buf m i =
     (if 0 < L \<and> i < m
      then (let d = H (buf @ be32_bytes (of_nat (i div L)))
            in (if m - i \<ge> L then d else take (m - i) d) @ mgf_loop H L buf m (i + L))
      else [])"
  by auto
termination by (relation "measure (\<lambda>(H, L, buf, m, i). m - i)") auto

declare mgf_loop.simps [simp del]

definition sha2_256_h_msg :: "slh_var \<Rightarrow> bytes \<Rightarrow> bytes \<Rightarrow> bytes option \<Rightarrow> bytes" where
  "sha2_256_h_msg v r m ctx =
     (let n = prm_n (prm v);
          sha2 = sha2_256_init local_256;
          sha2 = sha2_256_update sha2 (take n r);
          sha2 = sha2_256_update sha2 (take n (pk_seed v));
          sha2 = sha2_256_update sha2 (take n (pk_root v));
          sha2 = sha2_256_prefix ctx sha2;
          sha2 = sha2_256_update sha2 m;
          (sha2, d) = sha2_256_final_len sha2 32;
          buf = take n r @ take n (pk_seed v) @ d
      in mgf_loop (\<lambda>x. snd (sha2_256_final_len (sha2_256_update (sha2_256_init sha2) x) 32)) 32 buf (prm_m (prm v)) 0)"

definition sha2_512_h_msg :: "slh_var \<Rightarrow> bytes \<Rightarrow> bytes \<Rightarrow> bytes option \<Rightarrow> bytes" where
  "sha2_512_h_msg v r m ctx =
     (let n = prm_n (prm v);
          sha2 = sha2_512_init local_512;
          sha2 = sha2_512_update sha2 (take n r);
          sha2 = sha2_512_update sha2 (take n (pk_seed v));
          sha2 = sha2_512_update sha2 (take n (pk_root v));
          sha2 = sha2_512_prefix ctx sha2;
          sha2 = sha2_512_update sha2 m;
          (sha2, d) = sha2_512_final_len sha2 64;
          buf = take n r @ take n (pk_seed v) @ d
      in mgf_loop (\<lambda>x. snd (sha2_512_final_len (sha2_512_update (sha2_512_init sha2) x) 64)) 64 buf (prm_m (prm v)) 0)"

definition sha2_256_adrsc :: "sha2_256_t \<Rightarrow> slh_var \<Rightarrow> sha2_256_t" where
  "sha2_256_adrsc sha2 v = sha2_256_update sha2 (adrsc_22 v)"

definition sha2_512_adrsc :: "sha2_512_t \<Rightarrow> slh_var \<Rightarrow> sha2_512_t" where
  "sha2_512_adrsc sha2 v = sha2_512_update sha2 (adrsc_22 v)"

definition sha2_256_prf :: "slh_var \<Rightarrow> bytes" where
  "sha2_256_prf v =
     (let n = prm_n (prm v);
          sha2 = sha2_256_copy local_256 (sha2_256_pk_seed v);
          sha2 = sha2_256_adrsc sha2 v;
          sha2 = sha2_256_update sha2 (take n (sk_seed v));
          sha2 = sha2_256_final_pad sha2
      in take n (sha2_256_compress (hs sha2) (mp sha2)))"

definition sha2_256_prf_msg :: "slh_var \<Rightarrow> bytes \<Rightarrow> bytes \<Rightarrow> bytes option \<Rightarrow> bytes" where
  "sha2_256_prf_msg v opt_rand m ctx =
     (let n = prm_n (prm v);
          pad = map (\<lambda>b. b XOR 0x36) (take n (sk_prf v)) @ replicate (64 - n) 0x36;
          sha2 = sha2_256_init local_256;
          sha2 = sha2_256_update sha2 pad;
          sha2 = sha2_256_update sha2 (take n opt_rand);
          sha2 = sha2_256_prefix ctx sha2;
          sha2 = sha2_256_update sha2 m;
          (sha2, buf) = sha2_256_final_len sha2 32;
          pad = map (\<lambda>b. b XOR (0x36 XOR 0x5C)) pad;
          sha2 = sha2_256_init sha2;
          sha2 = sha2_256_update sha2 pad;
          sha2 = sha2_256_update sha2 buf
      in snd (sha2_256_final_len sha2 n))"

definition sha2_512_prf_msg :: "slh_var \<Rightarrow> bytes \<Rightarrow> bytes \<Rightarrow> bytes option \<Rightarrow> bytes" where
  "sha2_512_prf_msg v opt_rand m ctx =
     (let n = prm_n (prm v);
          pad = map (\<lambda>b. b XOR 0x36) (take n (sk_prf v)) @ replicate (128 - n) 0x36;
          sha2 = sha2_512_init local_512;
          sha2 = sha2_512_update sha2 pad;
          sha2 = sha2_512_update sha2 (take n opt_rand);
          sha2 = sha2_512_prefix ctx sha2;
          sha2 = sha2_512_update sha2 m;
          (sha2, buf) = sha2_512_final_len sha2 64;
          pad = map (\<lambda>b. b XOR (0x36 XOR 0x5C)) pad;
          sha2 = sha2_512_init sha2;
          sha2 = sha2_512_update sha2 pad;
          sha2 = sha2_512_update sha2 buf
      in snd (sha2_512_final_len sha2 n))"

definition sha2_256_tl :: "slh_var \<Rightarrow> bytes \<Rightarrow> bytes" where
  "sha2_256_tl v m =
     (let sha2 = sha2_256_copy local_256 (sha2_256_pk_seed v);
          sha2 = sha2_256_adrsc sha2 v;
          sha2 = sha2_256_update sha2 m
      in snd (sha2_256_final_len sha2 (prm_n (prm v))))"

definition sha2_256_f :: "slh_var \<Rightarrow> bytes \<Rightarrow> bytes" where
  "sha2_256_f v m1 = sha2_256_tl v (take (prm_n (prm v)) m1)"

definition sha2_256_h :: "slh_var \<Rightarrow> bytes \<Rightarrow> bytes \<Rightarrow> bytes" where
  "sha2_256_h v m1 m2 =
     (let n = prm_n (prm v);
          sha2 = sha2_256_copy local_256 (sha2_256_pk_seed v);
          sha2 = sha2_256_adrsc sha2 v;
          sha2 = sha2_256_update sha2 (take n m1);
          sha2 = sha2_256_update sha2 (take n m2)
      in snd (sha2_256_final_len sha2 n))"

definition sha2_512_tl :: "slh_var \<Rightarrow> bytes \<Rightarrow> bytes" where
  "sha2_512_tl v m =
     (let sha2 = sha2_512_copy local_512 (sha2_512_pk_seed v);
          sha2 = sha2_512_adrsc sha2 v;
          sha2 = sha2_512_update sha2 m
      in snd (sha2_512_final_len sha2 (prm_n (prm v))))"

definition sha2_512_h :: "slh_var \<Rightarrow> bytes \<Rightarrow> bytes \<Rightarrow> bytes" where
  "sha2_512_h v m1 m2 =
     (let n = prm_n (prm v);
          sha2 = sha2_512_copy local_512 (sha2_512_pk_seed v);
          sha2 = sha2_512_adrsc sha2 v;
          sha2 = sha2_512_update sha2 (take n m1);
          sha2 = sha2_512_update sha2 (take n m2)
      in snd (sha2_512_final_len sha2 n))"

definition sha2_mk_var :: "slh_var \<Rightarrow> bytes option \<Rightarrow> bytes option \<Rightarrow> slh_dims \<Rightarrow> slh_var" where
  "sha2_mk_var v pk sk prm' =
     (let n = prm_n prm'; v = v\<lparr>prm := prm'\<rparr>;
          v = (case sk of
                 Some sk \<Rightarrow> v\<lparr>sk_seed := take n sk, sk_prf := take n (drop n sk), pk_seed := take n (drop (2 * n) sk),
                               pk_root := take n (drop (3 * n) sk)\<rparr>
               | None \<Rightarrow> (case pk of
                   Some pk \<Rightarrow> v\<lparr>pk_seed := take n pk, pk_root := take n (drop n pk)\<rparr>
                 | None \<Rightarrow> v));
          sha2 = sha2_256_init (sha2_256_pk_seed v);
          sha2 = sha2_256_update sha2 (take n (pk_seed v));
          sha2 = sha2_256_update sha2 (replicate (64 - n) 0);
          v = v\<lparr>sha2_256_pk_seed := sha2\<rparr>
      in if n > 16
         then let sha2 = sha2_512_init (sha2_512_pk_seed v);
                  sha2 = sha2_512_update sha2 (take n (pk_seed v));
                  sha2 = sha2_512_update sha2 (replicate (128 - n) 0)
              in v\<lparr>sha2_512_pk_seed := sha2\<rparr>
         else v)"

text \<open>The 32 bytes of state and the 64 bytes of block of the local buffer \<open>sp\<close> of the chain are a pair.\<close>

definition sha2_256_chain_step :: "sha2_256_t \<Rightarrow> nat \<Rightarrow> nat \<Rightarrow> bytes \<times> bytes \<Rightarrow> nat \<Rightarrow> bytes \<times> bytes" where
  "sha2_256_chain_step sha2 n i sp j =
     (let (s, m) = sp;
          m = blit m 22 (take n s);
          m = blit m 18 (slh_tobyte (of_nat (i + j)) 4);
          s = hs sha2;
          m = blit m 0 (take 18 (mp sha2));
          m = blit m (22 + n) (take (64 - 22 - n) (drop (22 + n) (mp sha2)))
      in (sha2_256_compress s m, m))"

definition sha2_256_chain :: "slh_var \<Rightarrow> bytes \<Rightarrow> nat \<Rightarrow> nat \<Rightarrow> bytes \<times> slh_var" where
  "sha2_256_chain v x i s =
     (let n = prm_n (prm v)
      in if s = 0 then (take n x, v)
         else let v = adrs_set_hash_address v i;
                  sha2 = sha2_256_copy local_256 (sha2_256_pk_seed v);
                  sha2 = sha2_256_adrsc sha2 v;
                  sha2 = sha2_256_update sha2 (take n x)
              in if s = 1 then (snd (sha2_256_final_len sha2 n), v)
                 else let sha2 = sha2_256_final_pad sha2;
                          sp = (sha2_256_compress (hs sha2) (mp sha2), mp sha2);
                          sp = foldl (sha2_256_chain_step sha2 n i) sp [1..<s]
                      in (take n (fst sp), v))"

definition sha2_256_wots_chain :: "slh_var \<Rightarrow> nat \<Rightarrow> bytes \<times> slh_var" where
  "sha2_256_wots_chain v s =
     (let v = adrs_set_type v ADRS_WOTS_PRF;
          v = adrs_set_tree_index v 0;
          tmp = sha2_256_prf v;
          v = adrs_set_type v ADRS_WOTS_HASH;
          v = adrs_set_tree_index v 0
      in sha2_256_chain v tmp 0 s)"

definition sha2_256_fors_hash :: "slh_var \<Rightarrow> nat \<Rightarrow> bytes \<times> slh_var" where
  "sha2_256_fors_hash v s =
     (let v = adrs_set_type v ADRS_FORS_PRF;
          v = adrs_set_tree_height v 0;
          tmp = sha2_256_prf v
      in if s = 1 then (let v = adrs_set_type v ADRS_FORS_TREE in (sha2_256_f v tmp, v)) else (tmp, v))"

section \<open>The parameter sets\<close>

text \<open>Category 1 uses SHA-256 only; categories 3 and 5 use SHA-512 for long inputs.\<close>

definition sha2_cat1 :: "string \<Rightarrow> nat \<Rightarrow> nat \<Rightarrow> nat \<Rightarrow> nat \<Rightarrow> nat \<Rightarrow> nat \<Rightarrow> slh_param" where
  "sha2_cat1 ident h d hp a k m =
     \<lparr>prm_n = 16, prm_h = h, prm_d = d, prm_hp = hp, prm_a = a, prm_k = k, prm_lg_w = 4, prm_m = m,
      alg_id = ident, mk_var = sha2_mk_var, chain = sha2_256_chain, wots_chain = sha2_256_wots_chain,
      fors_hash = sha2_256_fors_hash, h_msg = sha2_256_h_msg, h_prf = sha2_256_prf, prf_msg = sha2_256_prf_msg,
      h_f = sha2_256_f, h_h = sha2_256_h, h_t = sha2_256_tl\<rparr>"

definition sha2_cat35 :: "string \<Rightarrow> nat \<Rightarrow> nat \<Rightarrow> nat \<Rightarrow> nat \<Rightarrow> nat \<Rightarrow> nat \<Rightarrow> nat \<Rightarrow> slh_param" where
  "sha2_cat35 ident n h d hp a k m =
     \<lparr>prm_n = n, prm_h = h, prm_d = d, prm_hp = hp, prm_a = a, prm_k = k, prm_lg_w = 4, prm_m = m,
      alg_id = ident, mk_var = sha2_mk_var, chain = sha2_256_chain, wots_chain = sha2_256_wots_chain,
      fors_hash = sha2_256_fors_hash, h_msg = sha2_512_h_msg, h_prf = sha2_256_prf, prf_msg = sha2_512_prf_msg,
      h_f = sha2_256_f, h_h = sha2_512_h, h_t = sha2_512_tl\<rparr>"

definition slh_dsa_sha2_128s :: slh_param where
  "slh_dsa_sha2_128s = sha2_cat1 ''SLH-DSA-SHA2-128s'' 63 7 9 12 14 30"

definition slh_dsa_sha2_128f :: slh_param where
  "slh_dsa_sha2_128f = sha2_cat1 ''SLH-DSA-SHA2-128f'' 66 22 3 6 33 34"

definition slh_dsa_sha2_192s :: slh_param where
  "slh_dsa_sha2_192s = sha2_cat35 ''SLH-DSA-SHA2-192s'' 24 63 7 9 14 17 39"

definition slh_dsa_sha2_192f :: slh_param where
  "slh_dsa_sha2_192f = sha2_cat35 ''SLH-DSA-SHA2-192f'' 24 66 22 3 8 33 42"

definition slh_dsa_sha2_256s :: slh_param where
  "slh_dsa_sha2_256s = sha2_cat35 ''SLH-DSA-SHA2-256s'' 32 64 8 8 14 22 47"

definition slh_dsa_sha2_256f :: slh_param where
  "slh_dsa_sha2_256f = sha2_cat35 ''SLH-DSA-SHA2-256f'' 32 68 17 4 9 35 49"

section \<open>The functions of the standard\<close>

text \<open>
  MGF1 and HMAC over a hash function; \<open>S512\<close> is SHA-512 as the code computes it, which is
  SHA-512 for every message below \<open>2 ^ 61\<close> bytes.
\<close>

definition S512 :: "bytes \<Rightarrow> bytes" where
  "S512 m = md_sha512 sha512_H0 m"

definition MGF1 :: "(bytes \<Rightarrow> bytes) \<Rightarrow> nat \<Rightarrow> bytes \<Rightarrow> nat \<Rightarrow> bytes" where
  "MGF1 H L seed m = take m (concat (map (\<lambda>c. H (seed @ be32_bytes (of_nat c))) [0..<(m + L - 1) div L]))"

definition hmac_of :: "(bytes \<Rightarrow> bytes) \<Rightarrow> nat \<Rightarrow> bytes \<Rightarrow> bytes \<Rightarrow> bytes" where
  "hmac_of H B key m =
     (let k = key @ replicate (B - length key) 0
      in H (map (\<lambda>b. b XOR 0x5C) k @ H (map (\<lambda>b. b XOR 0x36) k @ m)))"

definition adrsc :: "adrs_t \<Rightarrow> bytes" where
  "adrsc A = (let u = adrs_u8 A in [u ! 3] @ take 8 (drop 8 u) @ take 13 (drop 19 u))"

definition sha256_key :: "bytes \<Rightarrow> adrs_t \<Rightarrow> bytes" where
  "sha256_key ps A = ps @ replicate (64 - length ps) 0 @ adrsc A"

definition sha512_key :: "bytes \<Rightarrow> adrs_t \<Rightarrow> bytes" where
  "sha512_key ps A = ps @ replicate (128 - length ps) 0 @ adrsc A"

definition sha2_tweak1 :: "bytes \<Rightarrow> bytes \<Rightarrow> tweak" where
  "sha2_tweak1 ps ss =
     \<lparr>tF = (\<lambda>A x. take 16 (SHA256 (sha256_key ps A @ x))), tH = (\<lambda>A x y. take 16 (SHA256 (sha256_key ps A @ x @ y))),
      tT = (\<lambda>A x. take 16 (SHA256 (sha256_key ps A @ x))), tPRF = (\<lambda>A. take 16 (SHA256 (sha256_key ps A @ ss)))\<rparr>"

definition sha2_tweak35 :: "nat \<Rightarrow> bytes \<Rightarrow> bytes \<Rightarrow> tweak" where
  "sha2_tweak35 n ps ss =
     \<lparr>tF = (\<lambda>A x. take n (SHA256 (sha256_key ps A @ x))), tH = (\<lambda>A x y. take n (S512 (sha512_key ps A @ x @ y))),
      tT = (\<lambda>A x. take n (S512 (sha512_key ps A @ x))), tPRF = (\<lambda>A. take n (SHA256 (sha256_key ps A @ ss)))\<rparr>"

definition sha2_Hm1 :: "nat \<Rightarrow> bytes \<Rightarrow> bytes \<Rightarrow> bytes \<Rightarrow> bytes \<Rightarrow> bytes" where
  "sha2_Hm1 m r ps pr msg = MGF1 SHA256 32 (r @ ps @ SHA256 (r @ ps @ pr @ msg)) m"

definition sha2_Hm35 :: "nat \<Rightarrow> bytes \<Rightarrow> bytes \<Rightarrow> bytes \<Rightarrow> bytes \<Rightarrow> bytes" where
  "sha2_Hm35 m r ps pr msg = MGF1 S512 64 (r @ ps @ S512 (r @ ps @ pr @ msg)) m"

definition sha2_Pm1 :: "bytes \<Rightarrow> bytes \<Rightarrow> bytes \<Rightarrow> bytes" where
  "sha2_Pm1 sp opt msg = take 16 (hmac_of SHA256 64 sp (opt @ msg))"

definition sha2_Pm35 :: "nat \<Rightarrow> bytes \<Rightarrow> bytes \<Rightarrow> bytes \<Rightarrow> bytes" where
  "sha2_Pm35 n sp opt msg = take n (hmac_of S512 128 sp (opt @ msg))"

section \<open>Contexts\<close>

lemma length_S512 [simp]: "length (S512 m) = 64"
  by (simp add: S512_def length_md_sha512)

lemma fin256: "sha_rep sha2_256_h0 c m \<Longrightarrow> snd (sha2_256_final_len c n) = take n (SHA256 m)"
  using sha_rep_final [of sha256_H0 c m n] by (simp add: h0_words SHA256_def)

lemma fin512: "sha512_rep sha2_512_h0 c m \<Longrightarrow> snd (sha2_512_final_len c n) = take n (S512 m)"
  using sha512_rep_final [of sha512_H0 c m n] by (simp add: h0_512_words S512_def)

lemma length_md_put_len [simp]: "length (md_put_len buf i x) = length buf"
  by (induction buf i x rule: md_put_len.induct) (simp add: md_put_len.simps)

lemma length_md_final_pad: "length (mp c) = B \<Longrightarrow> sha_i c < B \<Longrightarrow> length (mp (md_final_pad B P C c)) = B"
  by (simp add: md_final_pad_def Let_def)

lemma fresh_final256: "sha_rep h c m \<Longrightarrow> length (mp (fst (sha2_256_final_len c n))) = 64"
  using sha256s.rep_facts(1-3) [of h c m] by (simp add: sha2_256_final_len_md md_final_len_def Let_def length_md_final_pad)

lemma fresh_final512: "sha512_rep h c m \<Longrightarrow> length (mp (fst (sha2_512_final_len c n))) = 128"
  using sha512s.rep_facts(1-3) [of h c m] by (simp add: sha2_512_final_len_md md_final_len_def Let_def length_md_final_pad)

lemma fresh_locals [simp]: "length (mp local_256) = 64" "length (mp local_512) = 128"
  by (simp_all add: local_256_def local_512_def)

lemma adrsc_22_eq: "adrsc_22 v = adrsc (adrs v)"
proof -
  have "map (\<lambda>i. u ! (i + k)) [0..<l] = take l (drop k u)" if "k + l \<le> length u" for u :: bytes and k l
    using that by (intro nth_equalityI) (simp_all add: add.commute)
  then show ?thesis by (simp add: adrsc_22_def adrsc_def Let_def)
qed

lemma length_adrsc [simp]: "length (adrsc A) = 22"
  by (simp add: adrsc_def Let_def)

lemma adrsc_hash_address: "adrsc (A\<lparr>adrs7 := y\<rparr>) = take 18 (adrsc A) @ be32_bytes y"
  by (simp add: adrsc_def adrs_u8_def be32_bytes_def)

lemma message256:
  assumes "length (mp c) = 64"
  shows "sha_rep sha2_256_h0 (sha2_256_update (sha2_256_prefix ctx (foldl sha2_256_update (sha2_256_init c) xs)) m) (concat xs @ msg_enc ctx m)"
  using sha256.rep_chunks [OF sha256.rep_ini [OF assms], of "xs @ (case ctx of None \<Rightarrow> [] | Some k \<Rightarrow> [[0, of_nat (length k)], k]) @ [m]"]
  by (cases ctx) (simp_all add: sha2_256_prefix_def msg_enc_def)

lemma message512:
  assumes "length (mp c) = 128"
  shows "sha512_rep sha2_512_h0 (sha2_512_update (sha2_512_prefix ctx (foldl sha2_512_update (sha2_512_init c) xs)) m) (concat xs @ msg_enc ctx m)"
  using sha512.rep_chunks [OF sha512.rep_ini [OF assms], of "xs @ (case ctx of None \<Rightarrow> [] | Some k \<Rightarrow> [[0, of_nat (length k)], k]) @ [m]"]
  by (cases ctx) (simp_all add: sha2_512_prefix_def msg_enc_def)

lemma mgf_loop_spec:
  assumes L: "0 < L" and H: "\<And>x. length (H x) = L"
  shows "mgf_loop H L buf m (L * k) = take (m - L * k) (concat (map (\<lambda>c. H (buf @ be32_bytes (of_nat c))) [k..<(m + L - 1) div L]))"
proof (induction "m - L * k" arbitrary: k rule: less_induct)
  case less
  let ?h = "\<lambda>c. H (buf @ be32_bytes (of_nat c))" and ?N = "(m + L - 1) div L"
  show ?case
  proof (cases "L * k < m")
    case True
    then have "Suc k * L \<le> m + L - 1" by (simp add: mult.commute)
    then have "k < ?N" using L less_eq_div_iff_mult_less_eq [of L "Suc k" "m + L - 1"] by simp
    then have N: "[k..<?N] = k # [Suc k..<?N]" by (simp add: upt_conv_Cons)
    have IH: "mgf_loop H L buf m (L * Suc k) = take (m - L * Suc k) (concat (map ?h [Suc k..<?N]))"
      using True L by (intro less.hyps) simp
    have "mgf_loop H L buf m (L * k) = (if m - L * k \<ge> L then ?h k else take (m - L * k) (?h k)) @ mgf_loop H L buf m (L * Suc k)"
      using True L by (subst mgf_loop.simps) (simp add: add.commute Let_def)
    also have "\<dots> = take (m - L * k) (concat (map ?h [k..<?N]))"
      unfolding N IH by (simp add: H diff_diff_left add.commute)
    finally show ?thesis .
  qed (subst mgf_loop.simps, simp)
qed

lemma mgf1: "0 < L \<Longrightarrow> (\<And>x. length (H x) = L) \<Longrightarrow> mgf_loop H L buf m 0 = MGF1 H L buf m"
  using mgf_loop_spec [of L H buf m 0] by (simp add: MGF1_def)

lemma xor_pads: "(b XOR x) XOR (x XOR y) = b XOR (y :: u8)"
  by (rule bit_word_eqI) (auto simp: bit_simps)

lemma hmac_ipad:
  "length key = n \<Longrightarrow> map (\<lambda>b. b XOR x) key @ replicate (B - n) x = map (\<lambda>b. b XOR x) (key @ replicate (B - length key) 0)"
  by simp

lemma hmac_opad: "map (\<lambda>b. b XOR (x XOR y)) (map (\<lambda>b. b XOR x) k) = map (\<lambda>b. b XOR (y :: u8)) k"
  by (simp add: xor_pads comp_def)

section \<open>The contract\<close>

definition sha2_ok :: "slh_param \<Rightarrow> slh_var \<Rightarrow> bool" where
  "sha2_ok p v \<longleftrightarrow> prm v = slh_dims.truncate p \<and> length (pk_seed v) = prm_n p
     \<and> sha_rep sha2_256_h0 (sha2_256_pk_seed v) (pk_seed v @ replicate (64 - prm_n p) 0)
     \<and> (16 < prm_n p \<longrightarrow> sha512_rep sha2_512_h0 (sha2_512_pk_seed v) (pk_seed v @ replicate (128 - prm_n p) 0))"

lemma sha2_okD:
  assumes "sha2_ok p v"
  shows "prm_n (prm v) = prm_n p" "prm_m (prm v) = prm_m p" "length (pk_seed v) = prm_n p"
  using assms by (simp_all add: sha2_ok_def slh_dims.defs)

lemma sha2_ok_adrs: "sha2_ok p (v\<lparr>adrs := A\<rparr>) = sha2_ok p v"
  by (simp add: sha2_ok_def)

lemma keyed256:
  "sha2_ok p v \<Longrightarrow> sha_rep sha2_256_h0 (sha2_256_adrsc (sha2_256_copy local_256 (sha2_256_pk_seed v)) v) (sha256_key (pk_seed v) (adrs v))"
  using sha256.rep_upd [OF sha256s.rep_copy, of _ "pk_seed v @ replicate (64 - prm_n p) 0" local_256 "adrsc (adrs v)"]
  by (simp add: sha2_256_adrsc_def sha2_256_copy_def adrsc_22_eq sha2_ok_def sha256_key_def)

lemma keyed512:
  "sha2_ok p v \<Longrightarrow> 16 < prm_n p \<Longrightarrow>
     sha512_rep sha2_512_h0 (sha2_512_adrsc (sha2_512_copy local_512 (sha2_512_pk_seed v)) v) (sha512_key (pk_seed v) (adrs v))"
  using sha512.rep_upd [OF sha512s.rep_copy, of _ "pk_seed v @ replicate (128 - prm_n p) 0" local_512 "adrsc (adrs v)"]
  by (simp add: sha2_512_adrsc_def sha2_512_copy_def adrsc_22_eq sha2_ok_def sha512_key_def)

lemma hashes256:
  assumes "sha2_ok p v"
  shows "sha2_256_tl v x = take (prm_n p) (SHA256 (sha256_key (pk_seed v) (adrs v) @ x))"
    and "length x = prm_n p \<Longrightarrow> sha2_256_f v x = take (prm_n p) (SHA256 (sha256_key (pk_seed v) (adrs v) @ x))"
    and "length x = prm_n p \<Longrightarrow> length y = prm_n p \<Longrightarrow> sha2_256_h v x y = take (prm_n p) (SHA256 (sha256_key (pk_seed v) (adrs v) @ x @ y))"
    and "length (sk_seed v) = prm_n p \<Longrightarrow> sha2_256_prf v = take (prm_n p) (SHA256 (sha256_key (pk_seed v) (adrs v) @ sk_seed v))"
proof -
  note n = sha2_okD [OF assms] and k = keyed256 [OF assms]
  note k1 = sha256.rep_upd [OF k]
  show tl: "sha2_256_tl v x = take (prm_n p) (SHA256 (sha256_key (pk_seed v) (adrs v) @ x))" for x
    using fin256 [OF k1, of x] by (simp add: sha2_256_tl_def Let_def n)
  show "length x = prm_n p \<Longrightarrow> sha2_256_f v x = take (prm_n p) (SHA256 (sha256_key (pk_seed v) (adrs v) @ x))"
    by (simp add: sha2_256_f_def tl n)
  show "length x = prm_n p \<Longrightarrow> length y = prm_n p \<Longrightarrow> sha2_256_h v x y = take (prm_n p) (SHA256 (sha256_key (pk_seed v) (adrs v) @ x @ y))"
    using fin256 [OF sha256.rep_upd [OF k1, of x], of y] by (simp add: sha2_256_h_def Let_def n)
  show "length (sk_seed v) = prm_n p \<Longrightarrow> sha2_256_prf v = take (prm_n p) (SHA256 (sha256_key (pk_seed v) (adrs v) @ sk_seed v))"
    using fin256 [OF k1, of "sk_seed v" "prm_n p"] by (simp add: sha2_256_prf_def sha2_256_final_len_def Let_def n)
qed

lemma hashes512:
  assumes "sha2_ok p v" "16 < prm_n p"
  shows "sha2_512_tl v x = take (prm_n p) (S512 (sha512_key (pk_seed v) (adrs v) @ x))"
    and "length x = prm_n p \<Longrightarrow> length y = prm_n p \<Longrightarrow> sha2_512_h v x y = take (prm_n p) (S512 (sha512_key (pk_seed v) (adrs v) @ x @ y))"
proof -
  note n = sha2_okD [OF assms(1)] and k = keyed512 [OF assms]
  note k1 = sha512.rep_upd [OF k]
  show "sha2_512_tl v x = take (prm_n p) (S512 (sha512_key (pk_seed v) (adrs v) @ x))"
    using fin512 [OF k1, of x] by (simp add: sha2_512_tl_def Let_def n)
  show "length x = prm_n p \<Longrightarrow> length y = prm_n p \<Longrightarrow> sha2_512_h v x y = take (prm_n p) (S512 (sha512_key (pk_seed v) (adrs v) @ x @ y))"
    using fin512 [OF sha512.rep_upd [OF k1, of x], of y] by (simp add: sha2_512_h_def Let_def n)
qed

lemma h_msg256:
  assumes "sha2_ok p v" "length r = prm_n p" "length (pk_root v) = prm_n p"
  shows "sha2_256_h_msg v r m ctx = sha2_Hm1 (prm_m p) r (pk_seed v) (pk_root v) (msg_enc ctx m)"
proof -
  note n = sha2_okD [OF assms(1)]
  define c where "c = sha2_256_update (sha2_256_prefix ctx (sha2_256_update (sha2_256_update (sha2_256_update
      (sha2_256_init local_256) r) (pk_seed v)) (pk_root v))) m"
  have c: "sha_rep sha2_256_h0 c (r @ pk_seed v @ pk_root v @ msg_enc ctx m)"
    using message256 [of local_256 ctx "[r, pk_seed v, pk_root v]" m] by (simp add: c_def)
  have H: "snd (sha2_256_final_len (sha2_256_update (sha2_256_init (fst (sha2_256_final_len c 32))) x) 32) = SHA256 x" for x
    using fin256 [OF sha256.rep_prefix, of _ x 32] fresh_final256 [OF c] by simp
  have "sha2_256_h_msg v r m ctx = mgf_loop SHA256 32 (r @ pk_seed v @ SHA256 (r @ pk_seed v @ pk_root v @ msg_enc ctx m)) (prm_m p) 0"
    using assms n fin256 [OF c, of 32] by (simp add: sha2_256_h_msg_def Let_def split_def c_def [symmetric] H)
  then show ?thesis by (simp add: mgf1 sha2_Hm1_def)
qed

lemma h_msg512:
  assumes "sha2_ok p v" "length r = prm_n p" "length (pk_root v) = prm_n p"
  shows "sha2_512_h_msg v r m ctx = sha2_Hm35 (prm_m p) r (pk_seed v) (pk_root v) (msg_enc ctx m)"
proof -
  note n = sha2_okD [OF assms(1)]
  define c where "c = sha2_512_update (sha2_512_prefix ctx (sha2_512_update (sha2_512_update (sha2_512_update
      (sha2_512_init local_512) r) (pk_seed v)) (pk_root v))) m"
  have c: "sha512_rep sha2_512_h0 c (r @ pk_seed v @ pk_root v @ msg_enc ctx m)"
    using message512 [of local_512 ctx "[r, pk_seed v, pk_root v]" m] by (simp add: c_def)
  have H: "snd (sha2_512_final_len (sha2_512_update (sha2_512_init (fst (sha2_512_final_len c 64))) x) 64) = S512 x" for x
    using fin512 [OF sha512.rep_prefix, of _ x 64] fresh_final512 [OF c] by simp
  have "sha2_512_h_msg v r m ctx = mgf_loop S512 64 (r @ pk_seed v @ S512 (r @ pk_seed v @ pk_root v @ msg_enc ctx m)) (prm_m p) 0"
    using assms n fin512 [OF c, of 64] by (simp add: sha2_512_h_msg_def Let_def split_def c_def [symmetric] H)
  then show ?thesis by (simp add: mgf1 sha2_Hm35_def)
qed

lemma prf_msg256:
  assumes "sha2_ok p v" "length r = prm_n p" "length (sk_prf v) = prm_n p"
  shows "sha2_256_prf_msg v r m ctx = take (prm_n p) (hmac_of SHA256 64 (sk_prf v) (r @ msg_enc ctx m))"
proof -
  note n = sha2_okD [OF assms(1)]
  define k where "k = sk_prf v @ replicate (64 - length (sk_prf v)) 0"
  define c where "c = sha2_256_update (sha2_256_prefix ctx (sha2_256_update (sha2_256_update
      (sha2_256_init local_256) (map (\<lambda>b. b XOR 0x36) k)) r)) m"
  have c: "sha_rep sha2_256_h0 c (map (\<lambda>b. b XOR 0x36) k @ r @ msg_enc ctx m)"
    using message256 [of local_256 ctx "[map (\<lambda>b. b XOR 0x36) k, r]" m] by (simp add: c_def)
  note o = sha256.rep_upd [OF sha256.rep_prefix [OF fresh_final256 [OF c]]]
  show ?thesis
    unfolding sha2_256_prf_msg_def Let_def n take_all [OF eq_refl [OF assms(2)]] take_all [OF eq_refl [OF assms(3)]]
      hmac_ipad [OF assms(3)] hmac_opad k_def [symmetric] c_def [symmetric] split_def fst_conv snd_conv fin256 [OF c]
    using fin256 [OF o] by (simp add: hmac_of_def Let_def k_def [symmetric])
qed

lemma prf_msg512:
  assumes "sha2_ok p v" "length r = prm_n p" "length (sk_prf v) = prm_n p"
  shows "sha2_512_prf_msg v r m ctx = take (prm_n p) (hmac_of S512 128 (sk_prf v) (r @ msg_enc ctx m))"
proof -
  note n = sha2_okD [OF assms(1)]
  define k where "k = sk_prf v @ replicate (128 - length (sk_prf v)) 0"
  define c where "c = sha2_512_update (sha2_512_prefix ctx (sha2_512_update (sha2_512_update
      (sha2_512_init local_512) (map (\<lambda>b. b XOR 0x36) k)) r)) m"
  have c: "sha512_rep sha2_512_h0 c (map (\<lambda>b. b XOR 0x36) k @ r @ msg_enc ctx m)"
    using message512 [of local_512 ctx "[map (\<lambda>b. b XOR 0x36) k, r]" m] by (simp add: c_def)
  note o = sha512.rep_upd [OF sha512.rep_prefix [OF fresh_final512 [OF c]]]
  show ?thesis
    unfolding sha2_512_prf_msg_def Let_def n take_all [OF eq_refl [OF assms(2)]] take_all [OF eq_refl [OF assms(3)]]
      hmac_ipad [OF assms(3)] hmac_opad k_def [symmetric] c_def [symmetric] split_def fst_conv snd_conv fin512 [OF c]
    using fin512 [OF o] by (simp add: hmac_of_def Let_def k_def [symmetric])
qed

subsection \<open>The chain\<close>

text \<open>The padding that follows a compressed address and \<open>n\<close> bytes in the second block.\<close>

definition chain_pad :: "nat \<Rightarrow> bytes" where
  "chain_pad n = 0x80 # replicate (56 - 1 - (22 + n)) 0 @ replicate (64 - 56 - 8) 0 @ be64_bytes (of_nat (8 * (64 + (22 + n))))"

lemma padded_key:
  assumes rep: "sha_rep sha2_256_h0 c (sha256_key ps A @ x)" and len: "length ps = n" "length x = n" "n \<le> 32"
  shows "hs (sha2_256_final_pad c) = sha2_256_compress sha2_256_h0 (ps @ replicate (64 - n) 0)"
    "mp (sha2_256_final_pad c) = adrsc A @ x @ chain_pad n"
proof -
  let ?b = "ps @ replicate (64 - n) 0"
  have b: "length ?b = 64" using len by simp
  then have wt: "sha256s.whole (sha256_key ps A @ x) = ?b" "sha256s.tail (sha256_key ps A @ x) = adrsc A @ x"
    using sha256s.whole_tail_append [of ?b "adrsc A @ x"] sha256s.whole_tail_short [of "adrsc A @ x"] len
    by (simp_all add: sha256_key_def)
  have l: "length (sha256_key ps A @ x) = 64 + (22 + n)" using len by (simp add: sha256_key_def)
  from sha256s.final_pad_short [OF rep] sha256s.rep_facts(4) [OF rep] wt l b len
  show "hs (sha2_256_final_pad c) = sha2_256_compress sha2_256_h0 ?b"
    "mp (sha2_256_final_pad c) = adrsc A @ x @ chain_pad n"
    by (simp_all add: sha2_256_final_pad_def chain_pad_def)
qed

lemma compress_padded:
  assumes "length ps = n" "length x = n" "n \<le> 32"
  shows "take n (sha2_256_compress (sha2_256_compress sha2_256_h0 (ps @ replicate (64 - n) 0)) (adrsc A @ x @ chain_pad n))
    = take n (SHA256 (sha256_key ps A @ x))"
proof -
  let ?c = "sha2_256_update (sha2_256_init local_256) (sha256_key ps A @ x)"
  have rep: "sha_rep sha2_256_h0 ?c (sha256_key ps A @ x)" by (rule sha256.rep_prefix) simp
  from fin256 [OF rep, of n] padded_key [OF rep assms] show ?thesis by (simp add: sha2_256_final_len_def Let_def)
qed

lemma slh_tobyte_be32: "slh_tobyte (of_nat k) 4 = be32_bytes (of_nat k)"
proof -
  have "(ucast (drop_bit (8 * j) (of_nat k :: u64)) :: u8) = ucast (drop_bit (8 * j) (of_nat k :: u32))" if "j < 4" for j
    by (rule bit_word_eqI) (use that in \<open>simp add: bit_ucast_iff bit_drop_bit_eq bit_of_nat_iff possible_bit_word\<close>)
  from this [of 3] this [of 2] this [of 1] this [of 0] show ?thesis
    by (simp add: slh_tobyte_def be32_bytes_def byte_of_def upt_rec)
qed

lemma length_chain_pad: "n \<le> 32 \<Longrightarrow> length (chain_pad n) = 42 - n"
  by (simp add: chain_pad_def)

lemma chain_step_block:
  assumes mp: "mp c = adrsc A @ x @ chain_pad n" and len: "length x = n" "n \<le> 32" "length m = 64" "length s = 32"
  shows "sha2_256_chain_step c n i (s, m) j =
    (sha2_256_compress (hs c) (adrsc (A\<lparr>adrs7 := of_nat (i + j)\<rparr>) @ take n s @ chain_pad n),
     adrsc (A\<lparr>adrs7 := of_nat (i + j)\<rparr>) @ take n s @ chain_pad n)"
proof -
  let ?a = "be32_bytes (of_nat (i + j))"
  have a: "length ?a = 4" by (simp add: be32_bytes_def)
  have 1: "blit (blit m 22 (take n s)) 18 ?a = take 18 m @ ?a @ take n s @ drop (22 + n) m"
    using len a by (simp add: blit_def)
  have 2: "blit (take 18 m @ ?a @ take n s @ drop (22 + n) m) 0 (take 18 (mp c)) = take 18 (adrsc A) @ ?a @ take n s @ drop (22 + n) m"
    using len mp by (simp add: blit_def)
  have 3: "take (64 - 22 - n) (drop (22 + n) (mp c)) = chain_pad n" using len mp length_chain_pad by simp
  have 4: "blit (take 18 (adrsc A) @ ?a @ take n s @ drop (22 + n) m) (22 + n) (chain_pad n) = take 18 (adrsc A) @ ?a @ take n s @ chain_pad n"
    using len a length_chain_pad [of n] by (simp add: blit_def)
  show ?thesis
    unfolding sha2_256_chain_step_def Let_def prod.case slh_tobyte_be32 1 2 3 4 adrsc_hash_address append_assoc ..
qed

lemma length_sha2_256_compress: "length h = 32 \<Longrightarrow> length b = 64 \<Longrightarrow> length (sha2_256_compress h b) = 32"
  by (simp add: compress_fips length_concat_be32_bytes length_be32_words)

lemma length_sha2_256_h0 [simp]: "length sha2_256_h0 = 32"
  by (simp add: sha2_256_h0_def)

lemma sha2_chain_loop:
  assumes c: "mp c = adrsc (A\<lparr>adrs7 := of_nat i\<rparr>) @ x @ chain_pad n" "hs c = sha2_256_compress sha2_256_h0 (ps @ replicate (64 - n) 0)"
    and len: "length ps = n" "length x = n" "n \<le> 32"
    and F: "\<And>A x. tF K A x = take n (SHA256 (sha256_key ps A @ x))"
  shows "\<exists>s m. foldl (sha2_256_chain_step c n i) (sha2_256_compress (hs c) (mp c), mp c) [1..<Suc k] = (s, m)
     \<and> length s = 32 \<and> length m = 64 \<and> take n s = fips_chain K A x i (Suc k)"
proof (induction k)
  case 0
  have "length (mp c) = 64" using c(1) len length_chain_pad by simp
  moreover have "length (sha2_256_compress (hs c) (mp c)) = 32"
    using c len length_chain_pad by (simp add: length_sha2_256_compress)
  ultimately show ?case using compress_padded [OF len, of "A\<lparr>adrs7 := of_nat i\<rparr>"] c by (simp add: F)
next
  case (Suc k)
  then obtain s m where IH: "foldl (sha2_256_chain_step c n i) (sha2_256_compress (hs c) (mp c), mp c) [1..<Suc k] = (s, m)"
    "length s = 32" "length m = 64" "take n s = fips_chain K A x i (Suc k)" by blast
  have "length (take n s) = n" using IH(2) len by simp
  with chain_step_block [OF c(1) len(2,3) IH(3,2), of i "Suc k"] compress_padded [OF len(1) this len(3), of "A\<lparr>adrs7 := of_nat (i + Suc k)\<rparr>"]
    IH len c(2) length_chain_pad [OF len(3)]
  show ?case by (auto simp: F length_sha2_256_compress)
qed

lemma sha2_chain_spec:
  assumes ok: "sha2_ok p v" and x: "length x = prm_n p" and n: "prm_n p \<le> 32"
    and F: "\<And>A x. tF K A x = take (prm_n p) (SHA256 (sha256_key (pk_seed v) A @ x))"
  shows "\<exists>y. sha2_256_chain v x i s = (fips_chain K (adrs v) x i s, v\<lparr>adrs := (adrs v)\<lparr>adrs7 := y\<rparr>\<rparr>)"
proof (cases "s = 0")
  case True
  then have "sha2_256_chain v x i s = (x, v)" using x sha2_okD [OF ok] by (simp add: sha2_256_chain_def Let_def)
  then show ?thesis using True adrs7_self [of v] by auto
next
  case False
  let ?A = "(adrs v)\<lparr>adrs7 := of_nat i\<rparr>" and ?n = "prm_n p"
  let ?v = "v\<lparr>adrs := ?A\<rparr>"
  define c where "c = sha2_256_update (sha2_256_adrsc (sha2_256_copy local_256 (sha2_256_pk_seed v)) ?v) x"
  have "sha2_ok p ?v" using ok by (simp add: sha2_ok_adrs)
  from sha256.rep_upd [OF keyed256 [OF this], of x] have rep: "sha_rep sha2_256_h0 c (sha256_key (pk_seed v) ?A @ x)" by (simp add: c_def)
  note len = sha2_okD(3) [OF ok] x n
  obtain k where k: "s = Suc k" using False by (cases s) auto
  have code: "sha2_256_chain v x i s = (if s = 1 then (snd (sha2_256_final_len c ?n), ?v)
      else (take ?n (fst (foldl (sha2_256_chain_step (sha2_256_final_pad c) ?n i)
         (sha2_256_compress (hs (sha2_256_final_pad c)) (mp (sha2_256_final_pad c)), mp (sha2_256_final_pad c)) [1..<s])), ?v))"
    using False x unfolding sha2_256_chain_def Let_def sha2_okD(1) [OF ok] adrs_set_hash_address_def c_def by simp
  show ?thesis
  proof (cases "s = 1")
    case True
    then show ?thesis using fin256 [OF rep, of ?n] code by (auto simp: F)
  next
    case False
    with sha2_chain_loop [OF padded_key(2) [OF rep len] padded_key(1) [OF rep len] len F, of k] show ?thesis
      by (auto simp: code [unfolded k] k simp del: upt_Suc fips_chain.simps)
  qed
qed

subsection \<open>The contract\<close>

lemma sha2_seed_contexts:
  assumes "var_ok v0"
  shows "sha_rep sha2_256_h0 (sha2_256_update (sha2_256_update (sha2_256_init (sha2_256_pk_seed v0)) c) z) (c @ z)"
    "sha512_rep sha2_512_h0 (sha2_512_update (sha2_512_update (sha2_512_init (sha2_512_pk_seed v0)) c) z) (c @ z)"
  using assms by (simp_all add: var_ok_def sha256.rep_upd sha256.rep_prefix sha512.rep_upd sha512.rep_prefix)

lemma sha2_mk_sk:
  assumes v0: "var_ok v0" and len: "length a = prm_n p" "length b = prm_n p" "length c = prm_n p" "length d = prm_n p" and n: "prm_n p \<le> 32"
    and v: "v = sha2_mk_var v0 None (Some (a @ b @ c @ d)) (slh_dims.truncate p)"
  shows "sha2_ok p v \<and> sk_seed v = a \<and> sk_prf v = b \<and> pk_seed v = c \<and> pk_root v = d"
proof -
  have "2 * prm_n p = length (a @ b)" "3 * prm_n p = length (a @ b @ c)" using len by simp_all
  then have t: "take (prm_n p) (a @ b @ c @ d) = a" "take (prm_n p) (drop (prm_n p) (a @ b @ c @ d)) = b"
    "take (prm_n p) (drop (2 * prm_n p) (a @ b @ c @ d)) = c" "take (prm_n p) (drop (3 * prm_n p) (a @ b @ c @ d)) = d"
    using append_eq_conv_conj [of "a @ b" "c @ d"] append_eq_conv_conj [of "a @ b @ c" d] len by auto
  have q: "prm_n (slh_dims.truncate p) = prm_n p" by (simp add: slh_dims.defs)
  show ?thesis
    unfolding v sha2_mk_var_def Let_def q option.case t sha2_ok_def using sha2_seed_contexts [OF v0, of c] len by simp
qed

lemma sha2_mk_pk:
  assumes v0: "var_ok v0" and len: "length c = prm_n p" "length d = prm_n p" and n: "prm_n p \<le> 32"
    and v: "v = sha2_mk_var v0 (Some (c @ d)) None (slh_dims.truncate p)"
  shows "sha2_ok p v \<and> pk_seed v = c \<and> pk_root v = d"
  using sha2_seed_contexts [OF v0, of c] len by (simp add: v sha2_mk_var_def Let_def sha2_ok_def slh_dims.defs)

text \<open>What both categories share: the functions built on SHA-256.\<close>

lemma sha2_shared:
  assumes ok: "sha2_ok p v" and n: "prm_n p \<le> 32"
    and F: "\<And>A x. tF K A x = take (prm_n p) (SHA256 (sha256_key (pk_seed v) A @ x))"
    and P: "\<And>A. tPRF K A = take (prm_n p) (SHA256 (sha256_key (pk_seed v) A @ sk_seed v))"
    and ss: "length (sk_seed v) = prm_n p"
  shows "A = (adrs v)\<lparr>adrs4 := ADRS_WOTS_HASH, adrs7 := 0\<rparr> \<Longrightarrow>
      \<exists>y. sha2_256_wots_chain v s = (fips_chain K A (tPRF K (A\<lparr>adrs4 := ADRS_WOTS_PRF\<rparr>)) 0 s, v\<lparr>adrs := A\<lparr>adrs7 := y\<rparr>\<rparr>)"
    and "A = (adrs v)\<lparr>adrs4 := ADRS_FORS_PRF, adrs6 := 0\<rparr> \<Longrightarrow>
      sha2_256_fors_hash v s = (let x = tPRF K A; B = A\<lparr>adrs4 := ADRS_FORS_TREE\<rparr>
        in if s = 1 then (tF K B x, v\<lparr>adrs := B\<rparr>) else (x, v\<lparr>adrs := A\<rparr>))"
proof -
  have ok': "sha2_ok p (v\<lparr>adrs := A\<rparr>)" for A using ok by (simp add: sha2_ok_adrs)
  have key: "sha2_256_prf (v\<lparr>adrs := A\<rparr>) = tPRF K A" for A using hashes256(4) [OF ok', of A] ss by (simp add: P)
  have f: "sha2_256_f (v\<lparr>adrs := A\<rparr>) (tPRF K B) = tF K A (tPRF K B)" for A B
    using hashes256(2) [OF ok', of "tPRF K B" A] n by (simp add: F P)
  have x: "length (tPRF K A) = prm_n p" for A using n by (simp add: P)
  show "\<exists>y. sha2_256_wots_chain v s = (fips_chain K A (tPRF K (A\<lparr>adrs4 := ADRS_WOTS_PRF\<rparr>)) 0 s, v\<lparr>adrs := A\<lparr>adrs7 := y\<rparr>\<rparr>)"
    if "A = (adrs v)\<lparr>adrs4 := ADRS_WOTS_HASH, adrs7 := 0\<rparr>"
    using sha2_chain_spec [OF ok' [of A] x [of "A\<lparr>adrs4 := ADRS_WOTS_PRF\<rparr>"] n, of K 0 s] F
    by (simp add: sha2_256_wots_chain_def Let_def adrs_defs key that adrs_swap)
  show "sha2_256_fors_hash v s = (let x = tPRF K A; B = A\<lparr>adrs4 := ADRS_FORS_TREE\<rparr>
        in if s = 1 then (tF K B x, v\<lparr>adrs := B\<rparr>) else (x, v\<lparr>adrs := A\<rparr>))"
    if "A = (adrs v)\<lparr>adrs4 := ADRS_FORS_PRF, adrs6 := 0\<rparr>"
    by (simp add: sha2_256_fors_hash_def Let_def adrs_defs key f that)
qed

lemma sha2_slh_hash1:
  assumes p: "p = sha2_cat1 ident h d hp a k m" and dims: "dims_ok p"
  shows "slh_hash p sha2_tweak1 (sha2_Hm1 m) sha2_Pm1 (sha2_ok p)"
proof -
  have f [simp]: "prm_n p = 16" "prm_m p = m" "h_f p = sha2_256_f" "h_h p = sha2_256_h" "h_t p = sha2_256_tl" "h_msg p = sha2_256_h_msg"
    "prf_msg p = sha2_256_prf_msg" "chain p = sha2_256_chain" "wots_chain p = sha2_256_wots_chain" "fors_hash p = sha2_256_fors_hash"
    "mk_var p = sha2_mk_var"
    by (simp_all add: p sha2_cat1_def)
  note H = hashes256 [where p = p, simplified] and S = sha2_shared [where p = p, unfolded f(1)]
  show ?thesis
  proof
    fix v A and s :: nat assume v: "sha2_ok p v" "length (sk_seed v) = prm_n p"
    show "A = (adrs v)\<lparr>adrs4 := ADRS_WOTS_HASH, adrs7 := 0\<rparr> \<Longrightarrow> \<exists>y. wots_chain p v s =
        (fips_chain (sha2_tweak1 (pk_seed v) (sk_seed v)) A (tPRF (sha2_tweak1 (pk_seed v) (sk_seed v)) (A\<lparr>adrs4 := ADRS_WOTS_PRF\<rparr>)) 0 s,
         v\<lparr>adrs := A\<lparr>adrs7 := y\<rparr>\<rparr>)"
      unfolding f by (rule S(1) [OF v(1)]) (use v in \<open>simp_all add: sha2_tweak1_def\<close>)
    show "A = (adrs v)\<lparr>adrs4 := ADRS_FORS_PRF, adrs6 := 0\<rparr> \<Longrightarrow> fors_hash p v s =
        (let x = tPRF (sha2_tweak1 (pk_seed v) (sk_seed v)) A; B = A\<lparr>adrs4 := ADRS_FORS_TREE\<rparr>
         in if s = 1 then (tF (sha2_tweak1 (pk_seed v) (sk_seed v)) B x, v\<lparr>adrs := B\<rparr>) else (x, v\<lparr>adrs := A\<rparr>))"
      unfolding f by (rule S(2) [OF v(1)]) (use v in \<open>simp_all add: sha2_tweak1_def\<close>)
  next
    show "\<exists>y. chain p v x i s = (fips_chain (sha2_tweak1 (pk_seed v) (sk_seed v)) (adrs v) x i s, v\<lparr>adrs := (adrs v)\<lparr>adrs7 := y\<rparr>\<rparr>)"
      if "sha2_ok p v" "length x = prm_n p" for v x i s
      using sha2_chain_spec [OF that] by (simp add: sha2_tweak1_def)
    show "sha2_ok p v \<and> sk_seed v = a \<and> sk_prf v = b \<and> pk_seed v = c \<and> pk_root v = d"
      if "var_ok v0" "length a = prm_n p" "length b = prm_n p" "length c = prm_n p" "length d = prm_n p"
        "v = mk_var p v0 None (Some (a @ b @ c @ d)) (slh_dims.truncate p)" for a b c d v v0
      using sha2_mk_sk [OF that(1-5) _ that(6) [simplified]] by simp
    show "sha2_ok p v \<and> pk_seed v = c \<and> pk_root v = d"
      if "var_ok v0" "length c = prm_n p" "length d = prm_n p" "v = mk_var p v0 (Some (c @ d)) None (slh_dims.truncate p)" for c d v v0
      using sha2_mk_pk [OF that(1-3) _ that(4) [simplified]] by simp
  qed (use dims H h_msg256 [where p = p, simplified] prf_msg256 [where p = p, simplified] in
      \<open>simp_all add: sha2_ok_adrs tweak_ok_def same_public_def fun_eq_iff sha2_tweak1_def sha2_Pm1_def hmac_of_def\<close>)
qed

lemma sha2_slh_hash35:
  assumes p: "p = sha2_cat35 ident n h d hp a k m" and dims: "dims_ok p" and n: "16 < n"
  shows "slh_hash p (sha2_tweak35 n) (sha2_Hm35 m) (sha2_Pm35 n) (sha2_ok p)"
proof -
  have f [simp]: "prm_n p = n" "prm_m p = m" "h_f p = sha2_256_f" "h_h p = sha2_512_h" "h_t p = sha2_512_tl" "h_msg p = sha2_512_h_msg"
    "prf_msg p = sha2_512_prf_msg" "chain p = sha2_256_chain" "wots_chain p = sha2_256_wots_chain" "fors_hash p = sha2_256_fors_hash"
    "mk_var p = sha2_mk_var"
    by (simp_all add: p sha2_cat35_def)
  have n32: "n \<le> 32" using dims by (simp add: dims_ok_def)
  note H = hashes256(2) [where p = p, simplified] hashes512 [where p = p, simplified, OF _ n]
    and S = sha2_shared [where p = p, unfolded f(1), OF _ n32]
  show ?thesis
  proof
    fix v A and s :: nat assume v: "sha2_ok p v" "length (sk_seed v) = prm_n p"
    show "A = (adrs v)\<lparr>adrs4 := ADRS_WOTS_HASH, adrs7 := 0\<rparr> \<Longrightarrow> \<exists>y. wots_chain p v s =
        (fips_chain (sha2_tweak35 n (pk_seed v) (sk_seed v)) A (tPRF (sha2_tweak35 n (pk_seed v) (sk_seed v)) (A\<lparr>adrs4 := ADRS_WOTS_PRF\<rparr>)) 0 s,
         v\<lparr>adrs := A\<lparr>adrs7 := y\<rparr>\<rparr>)"
      unfolding f by (rule S(1) [OF v(1)]) (use v in \<open>simp_all add: sha2_tweak35_def\<close>)
    show "A = (adrs v)\<lparr>adrs4 := ADRS_FORS_PRF, adrs6 := 0\<rparr> \<Longrightarrow> fors_hash p v s =
        (let x = tPRF (sha2_tweak35 n (pk_seed v) (sk_seed v)) A; B = A\<lparr>adrs4 := ADRS_FORS_TREE\<rparr>
         in if s = 1 then (tF (sha2_tweak35 n (pk_seed v) (sk_seed v)) B x, v\<lparr>adrs := B\<rparr>) else (x, v\<lparr>adrs := A\<rparr>))"
      unfolding f by (rule S(2) [OF v(1)]) (use v in \<open>simp_all add: sha2_tweak35_def\<close>)
  next
    show "\<exists>y. chain p v x i s = (fips_chain (sha2_tweak35 n (pk_seed v) (sk_seed v)) (adrs v) x i s, v\<lparr>adrs := (adrs v)\<lparr>adrs7 := y\<rparr>\<rparr>)"
      if "sha2_ok p v" "length x = prm_n p" for v x i s
      using sha2_chain_spec [OF that] n32 by (simp add: sha2_tweak35_def)
    show "sha2_ok p v \<and> sk_seed v = a \<and> sk_prf v = b \<and> pk_seed v = c \<and> pk_root v = d"
      if "var_ok v0" "length a = prm_n p" "length b = prm_n p" "length c = prm_n p" "length d = prm_n p"
        "v = mk_var p v0 None (Some (a @ b @ c @ d)) (slh_dims.truncate p)" for a b c d v v0
      using sha2_mk_sk [OF that(1-5) _ that(6) [simplified]] n32 by simp
    show "sha2_ok p v \<and> pk_seed v = c \<and> pk_root v = d"
      if "var_ok v0" "length c = prm_n p" "length d = prm_n p" "v = mk_var p v0 (Some (c @ d)) None (slh_dims.truncate p)" for c d v v0
      using sha2_mk_pk [OF that(1-3) _ that(4) [simplified]] n32 by simp
  qed (use dims n32 H h_msg512 [where p = p, simplified] prf_msg512 [where p = p, simplified] in
      \<open>simp_all add: sha2_ok_adrs tweak_ok_def same_public_def fun_eq_iff sha2_tweak35_def sha2_Pm35_def hmac_of_def\<close>)
qed

interpretation sha2_128s: slh_hash slh_dsa_sha2_128s sha2_tweak1 "sha2_Hm1 30" sha2_Pm1 "sha2_ok slh_dsa_sha2_128s"
  by (rule sha2_slh_hash1 [OF slh_dsa_sha2_128s_def]) (simp add: dims_ok_def slh_dsa_sha2_128s_def sha2_cat1_def)

interpretation sha2_128f: slh_hash slh_dsa_sha2_128f sha2_tweak1 "sha2_Hm1 34" sha2_Pm1 "sha2_ok slh_dsa_sha2_128f"
  by (rule sha2_slh_hash1 [OF slh_dsa_sha2_128f_def]) (simp add: dims_ok_def slh_dsa_sha2_128f_def sha2_cat1_def)

interpretation sha2_192s: slh_hash slh_dsa_sha2_192s "sha2_tweak35 24" "sha2_Hm35 39" "sha2_Pm35 24" "sha2_ok slh_dsa_sha2_192s"
  by (rule sha2_slh_hash35 [OF slh_dsa_sha2_192s_def]) (simp_all add: dims_ok_def slh_dsa_sha2_192s_def sha2_cat35_def)

interpretation sha2_192f: slh_hash slh_dsa_sha2_192f "sha2_tweak35 24" "sha2_Hm35 42" "sha2_Pm35 24" "sha2_ok slh_dsa_sha2_192f"
  by (rule sha2_slh_hash35 [OF slh_dsa_sha2_192f_def]) (simp_all add: dims_ok_def slh_dsa_sha2_192f_def sha2_cat35_def)

interpretation sha2_256s: slh_hash slh_dsa_sha2_256s "sha2_tweak35 32" "sha2_Hm35 47" "sha2_Pm35 32" "sha2_ok slh_dsa_sha2_256s"
  by (rule sha2_slh_hash35 [OF slh_dsa_sha2_256s_def]) (simp_all add: dims_ok_def slh_dsa_sha2_256s_def sha2_cat35_def)

interpretation sha2_256f: slh_hash slh_dsa_sha2_256f "sha2_tweak35 32" "sha2_Hm35 49" "sha2_Pm35 32" "sha2_ok slh_dsa_sha2_256f"
  by (rule sha2_slh_hash35 [OF slh_dsa_sha2_256f_def]) (simp_all add: dims_ok_def slh_dsa_sha2_256f_def sha2_cat35_def)

end
