(* ===== verification/SlhWots.thy ===== *)
theory SlhWots
  imports SlhFips
begin

text \<open>
  The digits of the WOTS+ layer of \<open>slh_dsa.c\<close>: \<open>base_2b\<close> with four bits reads the hexadecimal digits of the
  message, \<open>gen_len2\<close> gives the number of digits that the checksum needs, and with the checksum no
  message has all its chain positions at or behind those of another.
\<close>

section \<open>The number of checksum digits\<close>

lemma gen_len2_loop_bounds:
  assumes lg: "0 < lg_w" and cap: "cap = 2 ^ (lg_w * len2)" and ne: "\<And>k. 2 ^ (lg_w * k) \<noteq> maxs"
    and min: "len2 = 1 \<or> 2 ^ (lg_w * (len2 - 1)) \<le> maxs" and pos: "0 < len2"
  shows "maxs < 2 ^ (lg_w * gen_len2_loop lg_w maxs len2 cap)
    \<and> (gen_len2_loop lg_w maxs len2 cap = 1 \<or> 2 ^ (lg_w * (gen_len2_loop lg_w maxs len2 cap - 1)) \<le> maxs)"
  using assms
proof (induction lg_w maxs len2 cap rule: gen_len2_loop.induct)
  case (1 lg_w maxs len2 cap)
  show ?case
  proof (cases "cap < maxs")
    case True
    have c: "0 < lg_w \<and> 0 < cap \<and> cap < maxs" using True 1 by simp
    have "cap * 2 ^ lg_w = 2 ^ (lg_w * (len2 + 1))" using 1 by (simp add: power_add algebra_simps)
    moreover have "len2 + 1 = 1 \<or> 2 ^ (lg_w * (len2 + 1 - 1)) \<le> maxs" using c 1 by simp
    ultimately show ?thesis using "1.IH" [OF c] c 1 by (subst (1 2 3) gen_len2_loop.simps) simp
  next
    case False
    then have "gen_len2_loop lg_w maxs len2 cap = len2" by (subst gen_len2_loop.simps) simp
    moreover have "maxs < 2 ^ (lg_w * len2)" using False 1 by (metis nat_neq_iff)
    ultimately show ?thesis using 1 by simp
  qed
qed

lemma odd_divides_pow: "odd q \<Longrightarrow> q * m = (2 :: nat) ^ k \<Longrightarrow> q = 1"
proof (induction k arbitrary: m)
  case (Suc k)
  then have "even m" using even_mult_iff [of q m] by simp
  then obtain m' where "m = 2 * m'" by (elim evenE)
  with Suc show ?case by simp
qed simp

lemma pow_not_multiple:
  assumes "1 < lg_w"
  shows "2 ^ k \<noteq> (m :: nat) * (2 ^ lg_w - 1)"
proof
  assume "2 ^ k = m * (2 ^ lg_w - 1 :: nat)"
  then have "2 ^ lg_w - 1 = (1 :: nat)"
    using odd_divides_pow [of "2 ^ lg_w - 1" m k] assms by (simp add: mult.commute)
  moreover have "(2 :: nat) ^ 2 \<le> 2 ^ lg_w" using assms by (intro power_increasing) simp_all
  ultimately show False by simp
qed

lemma gen_len2_minimal:
  assumes "1 < prm_lg_w p"
  defines "maxs \<equiv> get_len1 p * (2 ^ prm_lg_w p - 1)"
  shows "maxs < 2 ^ (prm_lg_w p * gen_len2 p) \<and> (gen_len2 p = 1 \<or> 2 ^ (prm_lg_w p * (gen_len2 p - 1)) \<le> maxs)"
proof (cases "prm_lg_w p = 4 \<and> prm_n p \<ge> 9 \<and> prm_n p \<le> 136")
  case True
  then have "gen_len2 p = 3" "get_len1 p = 2 * prm_n p" by (simp_all add: gen_len2_def get_len1_def)
  then show ?thesis using True by (simp add: maxs_def)
next
  case False
  have "2 ^ (prm_lg_w p * k) \<noteq> maxs" for k
    unfolding maxs_def by (rule pow_not_multiple [OF assms(1)])
  then have "maxs < 2 ^ (prm_lg_w p * gen_len2_loop (prm_lg_w p) maxs 1 (2 ^ prm_lg_w p))
      \<and> (gen_len2_loop (prm_lg_w p) maxs 1 (2 ^ prm_lg_w p) = 1
        \<or> 2 ^ (prm_lg_w p * (gen_len2_loop (prm_lg_w p) maxs 1 (2 ^ prm_lg_w p) - 1)) \<le> maxs)"
    using assms(1) by (intro gen_len2_loop_bounds) simp_all
  moreover have "gen_len2 p = gen_len2_loop (prm_lg_w p) maxs 1 (2 ^ prm_lg_w p)"
    using False by (simp only: gen_len2_def maxs_def if_False)
  ultimately show ?thesis by (simp only:)
qed

lemma gen_len2_pos:
  assumes "1 < prm_lg_w p" "0 < prm_n p"
  shows "0 < gen_len2 p"
proof (rule ccontr)
  assume "\<not> 0 < gen_len2 p"
  then have "get_len1 p * (2 ^ prm_lg_w p - 1) = 0" using gen_len2_minimal [OF assms(1)] by (auto simp: not_less)
  moreover have "1 < (2 :: nat) ^ prm_lg_w p" using assms(1) by (intro one_less_power) simp_all
  ultimately have "get_len1 p = 0" by simp
  then show False using assms by (simp add: get_len1_def div_eq_0_iff)
qed

section \<open>Hexadecimal digits\<close>

definition nibbles :: "u8 \<Rightarrow> nat list" where
  "nibbles b = [unat b div 16, unat b mod 16]"

lemma nibble_bits:
  "unat (drop_bit 4 (push_bit 8 t + ucast (b :: u8) :: u32) AND mask 4) = unat b div 16"
  "unat ((push_bit 8 t + ucast b :: u32) AND mask 4) = unat b mod 16"
proof -
  have d: "push_bit 8 t + ucast b = push_bit 8 t OR (ucast b :: u32)"
    by (rule disjunctive_add) (auto simp: bit_simps bit_imp_le_length dest: bit_imp_le_length)
  have "drop_bit 4 (push_bit 8 t OR ucast b :: u32) AND mask 4 = ucast (drop_bit 4 b)"
    by (rule bit_word_eqI) (auto simp: bit_simps dest: bit_imp_le_length)
  then show "unat (drop_bit 4 (push_bit 8 t + ucast b :: u32) AND mask 4) = unat b div 16"
    by (simp add: d unat_drop_bit_eq) (simp add: drop_bit_eq_div)
  have "(push_bit 8 t OR ucast b :: u32) AND mask 4 = ucast (take_bit 4 b)"
    by (rule bit_word_eqI) (auto simp: bit_simps dest: bit_imp_le_length)
  then show "unat ((push_bit 8 t + ucast b :: u32) AND mask 4) = unat b mod 16"
    by (simp add: d unsigned_take_bit_eq) (simp add: take_bit_eq_mod)
qed

lemma base_2b_fill_byte: "base_2b_fill 4 (b # xs) 0 t = (xs, 8, push_bit 8 t + ucast b)"
  by (cases xs) simp_all

lemma base_2b_fill_stop: "l \<ge> b \<Longrightarrow> base_2b_fill b xs l t = (xs, l, t)"
  by (cases xs) simp_all

lemma base_2b_hex: "map unat (base_2b_loop (2 * length m) 4 m 0 t) = concat (map nibbles m)"
proof (induction m arbitrary: t)
  case (Cons b m)
  let ?t = "push_bit 8 t + ucast b :: u32"
  have "2 * length (b # m) = Suc (Suc (2 * length m))" by simp
  then have eq: "base_2b_loop (2 * length (b # m)) 4 (b # m) 0 t =
      (drop_bit 4 ?t AND mask 4) # (?t AND mask 4) # base_2b_loop (2 * length m) 4 m 0 ?t"
    by (simp only: base_2b_loop.simps base_2b_fill_byte Let_def prod.case) (simp add: base_2b_fill_stop)
  show ?case unfolding eq list.map nibble_bits Cons.IH concat.simps nibbles_def by simp
qed simp

lemma base_2b_hex3: "map unat (base_2b_loop 3 4 (x # y # zs) 0 t) = nibbles x @ [unat y div 16]"
proof -
  let ?t = "push_bit 8 t + ucast x :: u32"
  have "(3 :: nat) = Suc (Suc (Suc 0))" by simp
  then have eq: "base_2b_loop 3 4 (x # y # zs) 0 t =
      [drop_bit 4 ?t AND mask 4, ?t AND mask 4, drop_bit 4 (push_bit 8 ?t + ucast y) AND mask 4]"
    by (simp only: base_2b_loop.simps base_2b_fill_byte Let_def prod.case) (simp add: base_2b_fill_stop base_2b_fill_byte)
  show ?thesis unfolding eq list.map nibble_bits nibbles_def by simp
qed

lemma nibbles_le: "x \<in> set (nibbles b) \<Longrightarrow> x \<le> 15"
proof -
  have "unat b div 16 < 16" by (rule less_mult_imp_div_less) simp
  then show "x \<in> set (nibbles b) \<Longrightarrow> x \<le> 15" by (auto simp: nibbles_def)
qed

section \<open>The checksum\<close>

lemma csum_sum:
  fixes vm :: "u32 list"
  assumes "\<And>x. x \<in> set vm \<Longrightarrow> unat x \<le> 15" "unat c + 15 * length vm < 2 ^ 32"
  shows "unat (foldl (\<lambda>csum x. csum + (mask 4 - x)) c vm) = unat c + sum_list (map (\<lambda>x. 15 - unat x) vm)"
  using assms
proof (induction vm arbitrary: c)
  case (Cons x vm)
  have m: "unat (mask 4 - x :: u32) = 15 - unat x"
    using Cons.prems(1) [of x] by (subst unat_sub) (simp_all add: word_le_nat_alt mask_eq_exp_minus_1)
  then have a: "unat (c + (mask 4 - x)) = unat c + (15 - unat x)"
    using Cons.prems(2) by (subst unat_add_lem [THEN iffD1]) simp_all
  have "unat (foldl (\<lambda>csum x. csum + (mask 4 - x)) (c + (mask 4 - x)) vm) =
      unat (c + (mask 4 - x)) + sum_list (map (\<lambda>x. 15 - unat x) vm)"
    by (rule Cons.IH) (use Cons.prems a in auto)
  then show ?case by (simp only: a foldl.simps list.map sum_list.Cons add.assoc)
qed simp

lemma csum_bytes:
  assumes "unat c < 4096"
  shows "slh_tobyte (ucast (push_bit 4 c :: u32)) 2 = [of_nat (unat c div 16), of_nat (unat c mod 16 * 16)]"
proof -
  have s: "unat (ucast (push_bit 4 c :: u32) :: u64) = unat c * 16"
  proof -
    have "unat (push_bit 4 c) = unat c * 16"
      using assms unat_mult_lem [of c 16] by (simp add: push_bit_eq_mult)
    then show ?thesis
      unfolding unsigned_ucast_eq using assms by (simp only: take_bit_nat_eq_self_iff) simp
  qed
  have b: "(ucast w :: u8) = of_nat (unat w)" for w :: u64 by simp
  have d: "unat c * 16 div 256 = unat c div 16" by simp
  have m: "(of_nat (unat c * 16) :: u8) = of_nat (unat c mod 16 * 16)"
  proof -
    have "unat c = unat c mod 16 + 16 * (unat c div 16)" by simp
    then have "unat c * 16 = unat c mod 16 * 16 + 256 * (unat c div 16)" by linarith
    then have "(of_nat (unat c * 16) :: u8) = of_nat (unat c mod 16 * 16 + 256 * (unat c div 16))" by (simp only:)
    moreover have "(256 :: u8) = 0" by code_simp
    ultimately show ?thesis by simp
  qed
  have "unat (drop_bit 8 (ucast (push_bit 4 c :: u32) :: u64)) = unat c div 16"
    unfolding unat_drop_bit_eq s using d by (simp add: drop_bit_eq_div)
  then have "slh_tobyte (ucast (push_bit 4 c :: u32)) 2 = [of_nat (unat c div 16), of_nat (unat c * 16)]"
    using s b [of "drop_bit 8 (ucast (push_bit 4 c :: u32))"] b [of "ucast (push_bit 4 c :: u32)"]
    by (simp add: slh_tobyte_def upt_rec)
  with m show ?thesis by simp
qed

definition digit_csum :: "nat list \<Rightarrow> nat" where
  "digit_csum ds = sum_list (map (\<lambda>d. 15 - d) ds)"

lemma wots_csum_digits:
  assumes p: "prm_lg_w p = 4" "9 \<le> prm_n p" "prm_n p \<le> 136" and m: "length m = prm_n p"
  defines "ds \<equiv> concat (map nibbles m)"
  shows "map unat (wots_csum m p) =
     ds @ [digit_csum ds div 256, digit_csum ds div 16 mod 16, digit_csum ds mod 16]"
proof -
  have len: "get_len1 p = 2 * length m" "gen_len2 p = 3" using p m by (simp_all add: get_len1_def gen_len2_def)
  define vm where "vm = base_2b m 4 (2 * length m)"
  define c where "c = foldl (\<lambda>csum x. csum + (mask 4 - x)) 0 vm"
  have vm: "map unat vm = ds" by (simp add: vm_def base_2b_def base_2b_hex ds_def)
  have d: "x \<in> set ds \<Longrightarrow> x \<le> 15" for x
    using nibbles_le by (auto simp: ds_def)
  have l: "length ds = 2 * length m" using vm length_base_2b [of m 4 "2 * length m"] by (metis length_map vm_def)
  have v15: "x \<in> set vm \<Longrightarrow> unat x \<le> 15" for x using d [of "unat x"] by (simp flip: vm)
  have "length vm \<le> 272" using l m p(3) vm length_map [of unat vm] by simp
  then have "unat c = sum_list (map (\<lambda>x. 15 - unat x) vm)"
    unfolding c_def by (subst csum_sum [OF v15]) simp_all
  also have "\<dots> = digit_csum ds" by (simp add: digit_csum_def vm [symmetric] comp_def)
  finally have c: "unat c = digit_csum ds" .
  have "digit_csum ds \<le> 15 * length ds" unfolding digit_csum_def by (induction ds) auto
  then have c4: "unat c < 4096" using c l m p by simp
  have "wots_csum m p = vm @ base_2b (slh_tobyte (ucast (push_bit 4 c)) 2 @ [0, 0]) 4 3"
  proof -
    have k: "(8 - 3 * 4 mod 8) mod 8 = (4 :: nat)" "(3 * 4 + 7) div 8 = (2 :: nat)" "replicate (4 - 2) 0 = [0, 0 :: u8]"
      by (simp_all add: numeral_2_eq_2)
    show ?thesis unfolding wots_csum_def Let_def len p(1) k vm_def [symmetric] c_def [symmetric] ..
  qed
  also have "map unat \<dots> = ds @ nibbles (of_nat (unat c div 16)) @ [unat (of_nat (unat c mod 16 * 16) :: u8) div 16]"
    unfolding csum_bytes [OF c4] map_append vm base_2b_def append.simps base_2b_hex3 ..
  also have "\<dots> = ds @ [digit_csum ds div 256, digit_csum ds div 16 mod 16, digit_csum ds mod 16]"
  proof -
    have u: "k < 256 \<Longrightarrow> unat (of_nat k :: u8) = k" for k by (simp add: unat_of_nat)
    have "unat c div 16 < 256" "unat c mod 16 * 16 < 256" using c4 by simp_all
    from u [OF this(1)] u [OF this(2)]
    have "unat (of_nat (unat c div 16) :: u8) = unat c div 16" "unat (of_nat (unat c mod 16 * 16) :: u8) = unat c mod 16 * 16" .
    then show ?thesis by (simp only: nibbles_def) (simp add: c flip: div_mult2_eq)
  qed
  finally show ?thesis .
qed

lemma dominated_sum:
  "list_all2 (\<le>) xs ys \<Longrightarrow> sum_list xs \<le> sum_list (ys :: nat list) \<and> (sum_list xs = sum_list ys \<longrightarrow> xs = ys)"
  by (induction xs ys rule: list_all2_induct) auto

lemma digit_csum_sum: "(\<And>y. y \<in> set ys \<Longrightarrow> y \<le> 15) \<Longrightarrow> digit_csum ys + sum_list ys = 15 * length ys"
proof (induction ys)
  case (Cons y ys)
  then have "y \<le> 15" "digit_csum ys + sum_list ys = 15 * length ys" by simp_all
  then show ?case by (simp add: digit_csum_def)
qed (simp add: digit_csum_def)

lemma nibbles_inj: "nibbles a = nibbles b \<Longrightarrow> a = b"
proof -
  assume "nibbles a = nibbles b"
  then have "unat a div 16 * 16 + unat a mod 16 = unat b div 16 * 16 + unat b mod 16" by (simp add: nibbles_def)
  then show "a = b" by (simp add: word_unat_eq_iff)
qed

lemma length_nibbles [simp]: "length (nibbles b) = 2"
  by (simp add: nibbles_def)

lemma concat_nibbles_inj: "length a = length b \<Longrightarrow> concat (map nibbles a) = concat (map nibbles b) \<Longrightarrow> a = b"
  by (induction a b rule: list_induct2) (auto dest: nibbles_inj)

lemma hex_digits: "(c :: nat) = c div 256 * 256 + c div 16 mod 16 * 16 + c mod 16"
proof -
  have "c = c div 16 * 16 + c mod 16" "c div 16 = c div 16 div 16 * 16 + c div 16 mod 16" by simp_all
  moreover have "c div 16 div 16 = c div 256" by (simp flip: div_mult2_eq)
  ultimately show ?thesis by linarith
qed

lemma wots_dominance:
  assumes p: "prm_lg_w p = 4" "9 \<le> prm_n p" "prm_n p \<le> 136" and m: "length m = prm_n p" "length m' = prm_n p"
    and le: "\<And>i. i < get_len p \<Longrightarrow> wots_digits p m i \<le> wots_digits p m' i"
  shows "m = m'"
proof -
  define ds where "ds = (\<lambda>m. concat (map nibbles m))"
  let ?c = "\<lambda>m. [digit_csum (ds m) div 256, digit_csum (ds m) div 16 mod 16, digit_csum (ds m) mod 16]"
  have "list_all2 (\<le>) (map unat (wots_csum m p)) (map unat (wots_csum m' p))"
    using le by (simp add: list_all2_conv_all_nth wots_digits_def)
  then have "list_all2 (\<le>) (ds m @ ?c m) (ds m' @ ?c m')"
    unfolding wots_csum_digits [OF p m(1)] wots_csum_digits [OF p m(2)] ds_def .
  moreover have len: "length (ds k) = 2 * length k" for k by (induction k) (simp_all add: ds_def nibbles_def)
  ultimately have D: "list_all2 (\<le>) (ds m) (ds m')" and C: "list_all2 (\<le>) (?c m) (?c m')"
    using m by (simp_all only: list_all2_append)
  from C have "digit_csum (ds m) div 256 * 256 + digit_csum (ds m) div 16 mod 16 * 16 + digit_csum (ds m) mod 16
      \<le> digit_csum (ds m') div 256 * 256 + digit_csum (ds m') div 16 mod 16 * 16 + digit_csum (ds m') mod 16"
    by (intro add_mono mult_le_mono1) simp_all
  then have "digit_csum (ds m) \<le> digit_csum (ds m')"
    using hex_digits [of "digit_csum (ds m)"] hex_digits [of "digit_csum (ds m')"] by linarith
  moreover have "digit_csum (ds k) + sum_list (ds k) = 15 * length (ds k)" for k
    by (rule digit_csum_sum) (use nibbles_le in \<open>auto simp: ds_def\<close>)
  from this [of m] this [of m'] have "digit_csum (ds m) + sum_list (ds m) = digit_csum (ds m') + sum_list (ds m')"
    using m len by simp
  ultimately have "sum_list (ds m') \<le> sum_list (ds m)" by linarith
  then have "ds m = ds m'" using dominated_sum [OF D] by auto
  then show ?thesis unfolding ds_def using m by (intro concat_nibbles_inj) simp_all
qed

section \<open>Properties\<close>

text \<open>
  C4: with the checksum, two different messages never have all chain positions of one at or behind those of the
  other: some digit of \<open>wots_csum\<close> strictly decreases, so revealing the chains of one message never
  yields a signature of another by hashing forward.
\<close>

theorem wots_csum_dominance:
  assumes "prm_lg_w p = 4" "9 \<le> prm_n p" "prm_n p \<le> 136" "length m = prm_n p" "length m' = prm_n p" "m \<noteq> m'"
  shows "\<exists>i < get_len p. wots_csum m' p ! i < wots_csum m p ! i"
proof (rule ccontr)
  assume "\<not> ?thesis"
  then have "wots_digits p m i \<le> wots_digits p m' i" if "i < get_len p" for i
    using that unfolding wots_digits_def word_less_nat_alt by (meson not_less)
  from wots_dominance [OF assms(1-5) this] assms(6) show False by simp
qed

theorem wots_csum_dominance_witness:
  "\<exists>i < 35. wots_csum (replicate 16 2) \<lparr>prm_n = 16, prm_h = 63, prm_d = 7, prm_hp = 9, prm_a = 12, prm_k = 14, prm_lg_w = 4, prm_m = 30\<rparr> ! i
     < wots_csum (replicate 16 1) \<lparr>prm_n = 16, prm_h = 63, prm_d = 7, prm_hp = 9, prm_a = 12, prm_k = 14, prm_lg_w = 4, prm_m = 30\<rparr> ! i"
  using wots_csum_dominance [of "\<lparr>prm_n = 16, prm_h = 63, prm_d = 7, prm_hp = 9, prm_a = 12, prm_k = 14, prm_lg_w = 4, prm_m = 30\<rparr>"
      "replicate 16 1" "replicate 16 2"]
  by (simp add: get_len_def get_len1_def gen_len2_def)



end
