(* ===== verification/SlhDsa.thy ===== *)
theory SlhDsa
  imports SlhShake SlhSha2 SlhWots
begin

text \<open>
  SLH-DSA as a whole: the pre-hash variant of \<open>slh_prehash.c\<close>, the table of the twelve parameter sets with
  the FIPS 205 hash functions each of them uses, and the properties of the scheme.
\<close>

section \<open>\<open>slh_prehash.c\<close>\<close>

definition prehash_oid :: "u8 \<Rightarrow> bytes" where
  "prehash_oid k = [0x06, 0x09, 0x60, 0x86, 0x48, 0x01, 0x65, 0x03, 0x04, 0x02, k]"

text \<open>The padded message in \<open>mp\<close>, or \<open>None\<close> where the function returns 0.  A NULL name is \<open>None\<close>.\<close>

definition hash_slh_dsa_pad :: "bytes \<Rightarrow> bytes \<Rightarrow> string option \<Rightarrow> bytes option" where
  "hash_slh_dsa_pad m ctx ph =
     (case ph of None \<Rightarrow> None
      | Some ph \<Rightarrow>
        if length ctx > 255 then None
        else let pm = 1 # of_nat (length ctx) # ctx
             in if ph = ''SHA2-256'' then Some (pm @ prehash_oid 0x01 @ sha2_256 local_256 m)
                else if ph = ''SHA2-384'' then Some (pm @ prehash_oid 0x02 @ sha2_384 local_512 m)
                else if ph = ''SHA2-512'' then Some (pm @ prehash_oid 0x03 @ sha2_512 local_512 m)
                else if ph = ''SHA2-224'' then Some (pm @ prehash_oid 0x04 @ sha2_224 local_256 m)
                else if ph = ''SHA2-512/224'' then Some (pm @ prehash_oid 0x05 @ sha2_512_224 local_512 m)
                else if ph = ''SHA2-512/256'' then Some (pm @ prehash_oid 0x06 @ sha2_512_256 local_512 m)
                else if ph = ''SHA3-224'' then Some (pm @ prehash_oid 0x07 @ sha3 28 m)
                else if ph = ''SHA3-256'' then Some (pm @ prehash_oid 0x08 @ sha3 32 m)
                else if ph = ''SHA3-384'' then Some (pm @ prehash_oid 0x09 @ sha3 48 m)
                else if ph = ''SHA3-512'' then Some (pm @ prehash_oid 0x0A @ sha3 64 m)
                else if ph = ''SHAKE-128'' then Some (pm @ prehash_oid 0x0B @ shake 32 m 16)
                else if ph = ''SHAKE-256'' then Some (pm @ prehash_oid 0x0C @ shake 64 m 32)
                else None)"

definition hash_slh_sign ::
  "slh_param \<Rightarrow> slh_var \<Rightarrow> bytes \<Rightarrow> bytes \<Rightarrow> string option \<Rightarrow> bytes \<Rightarrow> bytes option \<Rightarrow> bytes option" where
  "hash_slh_sign p v0 m ctx ph sk addrnd =
     (case hash_slh_dsa_pad m ctx ph of None \<Rightarrow> None | Some pm \<Rightarrow> Some (slh_sign_internal p v0 pm sk addrnd))"

definition hash_slh_verify ::
  "slh_param \<Rightarrow> slh_var \<Rightarrow> bytes \<Rightarrow> bytes \<Rightarrow> bytes \<Rightarrow> string option \<Rightarrow> bytes \<Rightarrow> bool" where
  "hash_slh_verify p v0 m sig ctx ph pk =
     (case hash_slh_dsa_pad m ctx ph of None \<Rightarrow> False | Some pm \<Rightarrow> slh_verify_internal p v0 pm sig pk)"

section \<open>FIPS 205, section 10.2.2\<close>

text \<open>The hash functions with the last octet of their object identifier and, per name, their digest.\<close>

definition prehash_functions :: "(string \<times> u8 \<times> (bytes \<Rightarrow> bytes)) list" where
  "prehash_functions =
     [(''SHA2-256'', 1, SHA256), (''SHA2-384'', 2, SHA384), (''SHA2-512'', 3, SHA512), (''SHA2-224'', 4, SHA224),
      (''SHA2-512/224'', 5, SHA512_224), (''SHA2-512/256'', 6, SHA512_256),
      (''SHA3-224'', 7, SHA3 28), (''SHA3-256'', 8, SHA3 32), (''SHA3-384'', 9, SHA3 48), (''SHA3-512'', 10, SHA3 64),
      (''SHAKE-128'', 11, \<lambda>m. SHAKE128 m 32), (''SHAKE-256'', 12, \<lambda>m. SHAKE256 m 64)]"

definition fips_prehash :: "bytes \<Rightarrow> bytes \<Rightarrow> string option \<Rightarrow> bytes option" where
  "fips_prehash m ctx ph =
     (if length ctx > 255 then None
      else case Option.bind ph (map_of prehash_functions) of None \<Rightarrow> None
           | Some (k, H) \<Rightarrow> Some (1 # of_nat (length ctx) # ctx @ prehash_oid k @ H m))"

lemma sha2_256_one_shot: "length (mp sha) = 64 \<Longrightarrow> sha2_256 sha m = SHA256 m"
  using sha256.one_shot [of sha m] by (simp add: sha2_256_def sha256_fin_def)

lemma sha512_family_is_fips:
  assumes "length (mp sha) = 128" "length m < 2 ^ 61"
  shows "sha2_512 sha m = SHA512 m" "sha2_384 sha m = SHA384 m"
    "sha2_512_224 sha m = SHA512_224 m" "sha2_512_256 sha m = SHA512_256 m"
  using sha512.one_shot [OF assms(1), of 64 m] sha384.one_shot [OF assms(1), of 48 m]
    sha512_224.one_shot [OF assms(1), of 28 m] sha512_256.one_shot [OF assms(1), of 32 m] md_sha512_fips [OF assms(2)]
  by (simp_all add: sha2_512_def sha2_384_def sha2_512_224_def sha2_512_256_def sha512_fin_def
      SHA512_def SHA384_def SHA512_224_def SHA512_256_def)

lemma shake_is_fips: "shake d m 16 = SHAKE128 m d" "shake d m 32 = SHAKE256 m d"
  using shake128.one_shot [where n = d and x = m] shake256.one_shot [where n = d and x = m] by (simp_all add: shake_def shake_fin_def)

lemma hash_slh_dsa_pad_fips:
  assumes "length m < 2 ^ 61"
  shows "hash_slh_dsa_pad m ctx ph = fips_prehash m ctx ph"
  using assms
  by (cases ph)
    (simp_all add: hash_slh_dsa_pad_def fips_prehash_def prehash_functions_def Let_def sha2_256_one_shot sha2_224_is_fips
      sha512_family_is_fips sha3_spec shake_is_fips local_256_def local_512_def)

lemma fips_prehash_bound: "fips_prehash m ctx ph = Some pm \<Longrightarrow> 0 < length pm \<and> length pm \<le> 332"
  by (cases ph) (auto simp: fips_prehash_def prehash_functions_def prehash_oid_def SHA3_def SHAKE128_def SHA384_def SHA512_def
      SHA512_224_def SHA512_256_def split: if_splits option.splits)

section \<open>The parameter sets\<close>

text \<open>
  The parameter sets of the code with the tweakable hashes, the message hash and the message key function
  that section 11 of FIPS 205 prescribes for them.
\<close>

definition slh_parameter_sets ::
  "(slh_param \<times> (bytes \<Rightarrow> bytes \<Rightarrow> tweak) \<times> (bytes \<Rightarrow> bytes \<Rightarrow> bytes \<Rightarrow> bytes \<Rightarrow> bytes) \<times> (bytes \<Rightarrow> bytes \<Rightarrow> bytes \<Rightarrow> bytes)) list" where
  "slh_parameter_sets =
     [(slh_dsa_shake_128s, shake_tweak 16, shake_Hm 30, shake_Pm 16), (slh_dsa_shake_128f, shake_tweak 16, shake_Hm 34, shake_Pm 16),
      (slh_dsa_shake_192s, shake_tweak 24, shake_Hm 39, shake_Pm 24), (slh_dsa_shake_192f, shake_tweak 24, shake_Hm 42, shake_Pm 24),
      (slh_dsa_shake_256s, shake_tweak 32, shake_Hm 47, shake_Pm 32), (slh_dsa_shake_256f, shake_tweak 32, shake_Hm 49, shake_Pm 32),
      (slh_dsa_sha2_128s, sha2_tweak1, sha2_Hm1 30, sha2_Pm1), (slh_dsa_sha2_128f, sha2_tweak1, sha2_Hm1 34, sha2_Pm1),
      (slh_dsa_sha2_192s, sha2_tweak35 24, sha2_Hm35 39, sha2_Pm35 24), (slh_dsa_sha2_192f, sha2_tweak35 24, sha2_Hm35 42, sha2_Pm35 24),
      (slh_dsa_sha2_256s, sha2_tweak35 32, sha2_Hm35 47, sha2_Pm35 32), (slh_dsa_sha2_256f, sha2_tweak35 32, sha2_Hm35 49, sha2_Pm35 32)]"

lemma parameter_set_hash:
  assumes "(p, K, Hm, Pm) \<in> set slh_parameter_sets"
  obtains ok where "slh_hash p K Hm Pm ok"
  using assms shake_128s.slh_hash_axioms shake_128f.slh_hash_axioms shake_192s.slh_hash_axioms shake_192f.slh_hash_axioms
    shake_256s.slh_hash_axioms shake_256f.slh_hash_axioms sha2_128s.slh_hash_axioms sha2_128f.slh_hash_axioms
    sha2_192s.slh_hash_axioms sha2_192f.slh_hash_axioms sha2_256s.slh_hash_axioms sha2_256f.slh_hash_axioms
  unfolding slh_parameter_sets_def by (simp, blast)

text \<open>A local \<open>slh_var_t\<close> before it is set.\<close>

definition local_var :: slh_var where
  "local_var = \<lparr>prm = \<lparr>prm_n = 0, prm_h = 0, prm_d = 0, prm_hp = 0, prm_a = 0, prm_k = 0, prm_lg_w = 0, prm_m = 0\<rparr>,
     sk_seed = [], sk_prf = [], pk_seed = [], pk_root = [],
     adrs = \<lparr>adrs0 = 0, adrs1 = 0, adrs2 = 0, adrs3 = 0, adrs4 = 0, adrs5 = 0, adrs6 = 0, adrs7 = 0\<rparr>,
     sha2_256_pk_seed = local_256, sha2_512_pk_seed = local_512\<rparr>"

lemma var_ok_local [simp]: "var_ok local_var"
  by (simp add: var_ok_def local_var_def local_256_def local_512_def)

section \<open>Properties\<close>

text \<open>
  C1: for each of the twelve parameter sets, a signature made with a generated key, with any message, context
  of at most 255 bytes and randomiser, has the length of the set and is accepted by the verification with
  the public key of the pair.
\<close>

theorem slh_sign_verify:
  assumes "(p, K, Hm, Pm) \<in> set slh_parameter_sets" "var_ok v0" "var_ok v1" "var_ok v2"
    and "length skseed = prm_n p" "length skprf = prm_n p" "length pkseed = prm_n p"
    and "rand_ok (prm_n p) addrnd" "length ctx \<le> 255" "slh_keygen_internal p v0 skseed skprf pkseed = (sk, pk)"
  shows "\<exists>sig. slh_sign p v1 m ctx sk addrnd = Some sig \<and> length sig = slh_sig_sz p \<and> slh_verify p v2 m sig ctx pk"
  using parameter_set_hash [OF assms(1)] slh_hash.sign_verify [OF _ assms(2-)] by metis

theorem slh_sign_verify_witness:
  "\<exists>sk pk sig. slh_keygen_internal slh_dsa_sha2_192f local_var (replicate 24 1) (replicate 24 2) (replicate 24 3) = (sk, pk)
     \<and> slh_sign slh_dsa_sha2_192f local_var [1, 2] [7] sk None = Some sig \<and> slh_verify slh_dsa_sha2_192f local_var [1, 2] sig [7] pk"
proof -
  let ?k = "slh_keygen_internal slh_dsa_sha2_192f local_var (replicate 24 1) (replicate 24 2) (replicate 24 3)"
  have "prm_n slh_dsa_sha2_192f = 24" by (simp add: slh_dsa_sha2_192f_def sha2_cat35_def)
  then show ?thesis
    using slh_sign_verify [where p = slh_dsa_sha2_192f and K = "sha2_tweak35 24" and Hm = "sha2_Hm35 42" and Pm = "sha2_Pm35 24"
        and ctx = "[7]" and addrnd = None and ?v0.0 = local_var and ?v1.0 = local_var
        and ?v2.0 = local_var and skseed = "replicate 24 1" and skprf = "replicate 24 2" and pkseed = "replicate 24 3"
        and sk = "fst ?k" and pk = "snd ?k" and m = "[1, 2]"]
    by (simp add: slh_parameter_sets_def rand_ok_def) (metis prod.collapse)
qed





end
