(* ===== verification/Platform.thy ===== *)
theory Platform
  imports Prelude
begin

text \<open>
  The platform layer (\<open>src/qudo-pqc-lib/src/qudo_pqc_platform.c\<close>, its POSIX branch): read-write
  locks, one-time initialisation, allocation, clearing and the comparison without early exit.

  What the operating system and the CPU answer is not code of the repository.  It is the parameter
  \<open>env\<close> of every definition that asks: \<open>env_rwlock n\<close> and \<open>env_malloc n\<close> say whether the call
  number \<open>n\<close> to the outside obtains its lock or memory, \<open>env_entropy n len\<close> what \<open>getentropy\<close>
  delivers, \<open>env_aesni\<close> what CPUID reports.  The last three
  fields are the build options \<open>QUDO_FIPS_MODULE\<close>, \<open>QUDO_PQC_DISABLE_EMBEDDED_HMAC\<close> and
  \<open>QUDO_PQC_USE_HOST_DRBG\<close> the sources are compiled with.  \<open>os_calls\<close> numbers these calls, so that nothing is
  assumed about two of them agreeing.

  A lock is seen from one thread: absent, free, held by this thread for reading or for writing, or
  \<open>RwBad\<close> after an unlock that nothing justified.  As POSIX documents, taking a lock the thread
  already holds for writing fails with EDEADLK.
\<close>

record os_st =
  os_calls :: nat

record env =
  env_rwlock :: "nat \<Rightarrow> bool"
  env_malloc :: "nat \<Rightarrow> nat \<Rightarrow> bool"
  env_entropy :: "nat \<Rightarrow> nat \<Rightarrow> bytes option"
  env_aesni :: bool
  fips_module :: bool
  disable_embedded_hmac :: bool
  use_host_drbg :: bool

definition tick :: "'s os_st_scheme \<Rightarrow> 's os_st_scheme" where
  "tick s = s\<lparr>os_calls := os_calls s + 1\<rparr>"

section \<open>Locks\<close>

datatype rwlock = RwNull | RwFree | RwRead | RwWrite | RwBad

definition qudo_rwlock_new :: "'e env_scheme \<Rightarrow> 's os_st_scheme \<Rightarrow> rwlock \<times> 's os_st_scheme" where
  "qudo_rwlock_new E s = (if env_rwlock E (os_calls s) then RwFree else RwNull, tick s)"

fun qudo_rwlock_rdlock :: "rwlock \<Rightarrow> int \<times> rwlock" where
  "qudo_rwlock_rdlock RwFree = (1, RwRead)"
| "qudo_rwlock_rdlock l = (0, l)"

fun qudo_rwlock_wrlock :: "rwlock \<Rightarrow> int \<times> rwlock" where
  "qudo_rwlock_wrlock RwFree = (1, RwWrite)"
| "qudo_rwlock_wrlock l = (0, l)"

fun rw_release :: "rwlock \<Rightarrow> rwlock" where
  "rw_release RwRead = RwFree"
| "rw_release RwWrite = RwFree"
| "rw_release _ = RwBad"

definition qudo_rwlock_rdunlock :: "rwlock \<Rightarrow> rwlock" where
  "qudo_rwlock_rdunlock l = (if l \<noteq> RwNull then rw_release l else l)"

definition qudo_rwlock_unlock :: "rwlock \<Rightarrow> rwlock" where
  "qudo_rwlock_unlock l = (if l \<noteq> RwNull then rw_release l else l)"

text \<open>Destroying a lock that is held is as wrong as releasing one that is not.\<close>

definition qudo_rwlock_free :: "rwlock \<Rightarrow> rwlock" where
  "qudo_rwlock_free l = (if l = RwRead \<or> l = RwWrite then RwBad else l)"

text \<open>\<open>pthread_once\<close>: the flag is whether the routine has run.\<close>

definition qudo_once :: "bool \<Rightarrow> ('s \<Rightarrow> 's) \<Rightarrow> 's \<Rightarrow> int \<times> bool \<times> 's" where
  "qudo_once once init_fn s = (1, True, if once then s else init_fn s)"

definition qudo_once_reset :: bool where
  "qudo_once_reset = False"

definition idle :: "rwlock \<Rightarrow> bool" where
  "idle l \<longleftrightarrow> l = RwNull \<or> l = RwFree"

section \<open>Memory\<close>

text \<open>
  \<open>qudo_malloc\<close> says whether a buffer is obtained; what it holds is never read before it is
  written.  \<open>qudo_zalloc\<close> returns the zeroed buffer.
\<close>

definition qudo_malloc :: "'e env_scheme \<Rightarrow> nat \<Rightarrow> 's os_st_scheme \<Rightarrow> bool \<times> 's os_st_scheme" where
  "qudo_malloc E sz s = (if sz = 0 then (False, s) else (env_malloc E (os_calls s) sz, tick s))"

definition qudo_zalloc :: "'e env_scheme \<Rightarrow> nat \<Rightarrow> 's os_st_scheme \<Rightarrow> bytes option \<times> 's os_st_scheme" where
  "qudo_zalloc E sz s =
     (if sz = 0 then (None, s)
      else (if env_malloc E (os_calls s) sz then Some (replicate sz 0) else None, tick s))"

definition qudo_cleanse :: "bytes option \<Rightarrow> bytes option" where
  "qudo_cleanse buf =
     (case buf of None \<Rightarrow> None
      | Some b \<Rightarrow> if length b = 0 then Some b else Some (replicate (length b) 0))"

definition qudo_memcmp_ct :: "bytes \<Rightarrow> bytes \<Rightarrow> nat \<Rightarrow> int" where
  "qudo_memcmp_ct a b len =
     (let diff = foldl (\<lambda>d i. d OR ucast (a ! i XOR b ! i)) (0 :: u32) [0..<len]
      in if diff \<noteq> 0 then 1 else 0)"

section \<open>Lemmas\<close>

lemma tick_frame [simp]: "os_st.more (tick s) = os_st.more s" "os_calls (tick s) = Suc (os_calls s)"
  by (simp_all add: tick_def)

lemma rwlock_simps [simp]:
  "qudo_rwlock_rdunlock RwRead = RwFree" "qudo_rwlock_unlock RwWrite = RwFree"
  "qudo_rwlock_rdunlock RwNull = RwNull" "qudo_rwlock_unlock RwNull = RwNull"
  "qudo_rwlock_free RwFree = RwFree" "qudo_rwlock_free RwNull = RwNull"
  by (simp_all add: qudo_rwlock_rdunlock_def qudo_rwlock_unlock_def qudo_rwlock_free_def)

lemma idle_simps [simp]: "idle RwNull" "idle RwFree" "\<not> idle RwRead" "\<not> idle RwWrite" "\<not> idle RwBad"
  by (simp_all add: idle_def)

lemma idle_cases: "idle l \<Longrightarrow> (l = RwNull \<Longrightarrow> P) \<Longrightarrow> (l = RwFree \<Longrightarrow> P) \<Longrightarrow> P"
  by (auto simp: idle_def)

lemma ucast_u8_eq_0 [simp]: "(ucast (x::u8) :: u32) = 0 \<longleftrightarrow> x = 0"
  by (metis unat_ucast_u8 unsigned_0 word_unat_eq_iff)

lemma memcmp_diff:
  "foldl (\<lambda>d i. d OR ucast ((a::bytes) ! i XOR b ! i)) (0 :: u32) [0..<n] = 0 \<longleftrightarrow> (\<forall>i<n. a ! i = b ! i)"
proof (induction n)
  case (Suc n)
  then show ?case by (auto simp: or_eq_0_iff_word xor_eq_0_iff less_Suc_eq)
qed simp

lemma memcmp_ct_nth: "qudo_memcmp_ct a b n = 0 \<longleftrightarrow> (\<forall>i<n. a ! i = b ! i)"
  unfolding qudo_memcmp_ct_def Let_def by (simp add: memcmp_diff)

lemma memcmp_ct_eq:
  "n \<le> length a \<Longrightarrow> n \<le> length b \<Longrightarrow> qudo_memcmp_ct a b n = 0 \<longleftrightarrow> take n a = take n b"
  by (auto simp: memcmp_ct_nth list_eq_iff_nth_eq)

section \<open>Properties\<close>

text \<open>
  C20: The comparison that never stops early decides equality: on two buffers of at least \<open>n\<close> bytes it
  returns 0 when their first \<open>n\<close> bytes agree and 1 when they do not.
\<close>

theorem memcmp_ct_decides:
  assumes "n \<le> length a" "n \<le> length b"
  shows "qudo_memcmp_ct a b n = (if take n a = take n b then 0 else 1)"
proof -
  have "qudo_memcmp_ct a b n = 0 \<or> qudo_memcmp_ct a b n = 1"
    by (simp add: qudo_memcmp_ct_def Let_def)
  with memcmp_ct_eq [OF assms] show ?thesis by auto
qed

theorem memcmp_ct_decides_witness:
  "qudo_memcmp_ct [1, 2, 3] [1, 2, 4] 3 = 1 \<and> qudo_memcmp_ct [1, 2, 3] [1, 2, 4] 2 = 0"
  using memcmp_ct_decides [of 3 "[1, 2, 3]" "[1, 2, 4]"] memcmp_ct_decides [of 2 "[1, 2, 3]" "[1, 2, 4]"]
  by simp

end
