(* ===== verification/AuditLog.thy ===== *)
theory AuditLog
  imports Platform
begin

text \<open>
  The audit log (\<open>src/qudo-pqc-lib/src/qudo_pqc_audit.c\<close>) and the error codes of
  \<open>include/qudo_pqc_err.h\<close>.  A callback is the pointer the application registered, as a number;
  \<open>audit_trace\<close> is what the application has received through it, oldest first, and stands for the
  effect of the calls.  A severity is an unsigned number, since the code guards against values
  outside its enumeration.
\<close>

section \<open>Error codes\<close>

datatype qudo_err_t =
    QUDO_ERR_NONE
  | QUDO_ERR_STATE_INVALID
  | QUDO_ERR_MODULE_NOT_RUNNING
  | QUDO_ERR_MODULE_ERROR_STATE
  | QUDO_ERR_INIT_LOCK_FAIL
  | QUDO_ERR_INIT_ONCE_FAIL
  | QUDO_ERR_POST_INTEGRITY_FAIL
  | QUDO_ERR_POST_KAT_FAIL
  | QUDO_ERR_POST_KEYGEN_KAT_FAIL
  | QUDO_ERR_POST_KEM_KAT_FAIL
  | QUDO_ERR_POST_SIG_KAT_FAIL
  | QUDO_ERR_INTEGRITY_HMAC_FAIL
  | QUDO_ERR_INTEGRITY_MISMATCH
  | QUDO_ERR_INTEGRITY_NO_CONFIG
  | QUDO_ERR_PCT_KEYGEN_FAIL
  | QUDO_ERR_PCT_IMPORT_FAIL
  | QUDO_ERR_PCT_ENCAPS_FAIL
  | QUDO_ERR_PCT_SIGN_FAIL
  | QUDO_ERR_CAST_NOT_RUN
  | QUDO_ERR_CAST_FAIL
  | QUDO_ERR_CAST_KEYGEN_FAIL
  | QUDO_ERR_DRBG_NOT_SEEDED
  | QUDO_ERR_DRBG_SEED_FAIL
  | QUDO_ERR_DRBG_HEALTH_FAIL
  | QUDO_ERR_DRBG_RESEED_FAIL
  | QUDO_ERR_DRBG_GENERATE_FAIL
  | QUDO_ERR_KEY_INVALID
  | QUDO_ERR_KEY_SIZE_MISMATCH
  | QUDO_ERR_KEY_ZEROIZE_FAIL
  | QUDO_ERR_ALLOC
  | QUDO_ERR_PARAM_INVALID
  | QUDO_ERR_PARAM_NULL
  | QUDO_ERR_NOT_SUPPORTED
  | QUDO_ERR_INTERNAL

primrec err_code :: "qudo_err_t \<Rightarrow> nat" where
  "err_code QUDO_ERR_NONE = 0x0000"
| "err_code QUDO_ERR_STATE_INVALID = 0x0100"
| "err_code QUDO_ERR_MODULE_NOT_RUNNING = 0x0101"
| "err_code QUDO_ERR_MODULE_ERROR_STATE = 0x0102"
| "err_code QUDO_ERR_INIT_LOCK_FAIL = 0x0103"
| "err_code QUDO_ERR_INIT_ONCE_FAIL = 0x0104"
| "err_code QUDO_ERR_POST_INTEGRITY_FAIL = 0x0200"
| "err_code QUDO_ERR_POST_KAT_FAIL = 0x0201"
| "err_code QUDO_ERR_POST_KEYGEN_KAT_FAIL = 0x0202"
| "err_code QUDO_ERR_POST_KEM_KAT_FAIL = 0x0203"
| "err_code QUDO_ERR_POST_SIG_KAT_FAIL = 0x0204"
| "err_code QUDO_ERR_INTEGRITY_HMAC_FAIL = 0x0205"
| "err_code QUDO_ERR_INTEGRITY_MISMATCH = 0x0206"
| "err_code QUDO_ERR_INTEGRITY_NO_CONFIG = 0x0207"
| "err_code QUDO_ERR_PCT_KEYGEN_FAIL = 0x0300"
| "err_code QUDO_ERR_PCT_IMPORT_FAIL = 0x0301"
| "err_code QUDO_ERR_PCT_ENCAPS_FAIL = 0x0302"
| "err_code QUDO_ERR_PCT_SIGN_FAIL = 0x0303"
| "err_code QUDO_ERR_CAST_NOT_RUN = 0x0400"
| "err_code QUDO_ERR_CAST_FAIL = 0x0401"
| "err_code QUDO_ERR_CAST_KEYGEN_FAIL = 0x0402"
| "err_code QUDO_ERR_DRBG_NOT_SEEDED = 0x0500"
| "err_code QUDO_ERR_DRBG_SEED_FAIL = 0x0501"
| "err_code QUDO_ERR_DRBG_HEALTH_FAIL = 0x0502"
| "err_code QUDO_ERR_DRBG_RESEED_FAIL = 0x0503"
| "err_code QUDO_ERR_DRBG_GENERATE_FAIL = 0x0504"
| "err_code QUDO_ERR_KEY_INVALID = 0x0600"
| "err_code QUDO_ERR_KEY_SIZE_MISMATCH = 0x0601"
| "err_code QUDO_ERR_KEY_ZEROIZE_FAIL = 0x0602"
| "err_code QUDO_ERR_ALLOC = 0x0F00"
| "err_code QUDO_ERR_PARAM_INVALID = 0x0F01"
| "err_code QUDO_ERR_PARAM_NULL = 0x0F02"
| "err_code QUDO_ERR_NOT_SUPPORTED = 0x0F03"
| "err_code QUDO_ERR_INTERNAL = 0x0FFF"

type_synonym qudo_sev_t = nat

abbreviation (input) QUDO_SEV_INFO :: qudo_sev_t where "QUDO_SEV_INFO \<equiv> 0"
abbreviation (input) QUDO_SEV_WARN :: qudo_sev_t where "QUDO_SEV_WARN \<equiv> 1"
abbreviation (input) QUDO_SEV_ERROR :: qudo_sev_t where "QUDO_SEV_ERROR \<equiv> 2"
abbreviation (input) QUDO_SEV_FATAL :: qudo_sev_t where "QUDO_SEV_FATAL \<equiv> 3"

definition qudo_err_table :: "(nat \<times> string) list" where
  "qudo_err_table =
    [(err_code QUDO_ERR_NONE, ''No error''),
     (err_code QUDO_ERR_STATE_INVALID, ''Invalid module state for operation''),
     (err_code QUDO_ERR_MODULE_NOT_RUNNING, ''Module not in RUNNING state''),
     (err_code QUDO_ERR_MODULE_ERROR_STATE, ''Module in ERROR state''),
     (err_code QUDO_ERR_INIT_LOCK_FAIL, ''Failed to acquire initialization lock''),
     (err_code QUDO_ERR_INIT_ONCE_FAIL, ''Once-initialization failed''),
     (err_code QUDO_ERR_POST_INTEGRITY_FAIL, ''Module integrity verification failed''),
     (err_code QUDO_ERR_POST_KAT_FAIL, ''Power-on self-test KAT failed''),
     (err_code QUDO_ERR_POST_KEYGEN_KAT_FAIL, ''POST keygen KAT failed''),
     (err_code QUDO_ERR_POST_KEM_KAT_FAIL, ''POST KEM KAT failed''),
     (err_code QUDO_ERR_POST_SIG_KAT_FAIL, ''POST signature KAT failed''),
     (err_code QUDO_ERR_INTEGRITY_HMAC_FAIL, ''HMAC integrity self-test failed''),
     (err_code QUDO_ERR_INTEGRITY_MISMATCH, ''Module HMAC does not match expected value''),
     (err_code QUDO_ERR_INTEGRITY_NO_CONFIG, ''No integrity configuration or embedded HMAC''),
     (err_code QUDO_ERR_PCT_KEYGEN_FAIL, ''Pairwise consistency test failed (keygen)''),
     (err_code QUDO_ERR_PCT_IMPORT_FAIL, ''Pairwise consistency test failed (import)''),
     (err_code QUDO_ERR_PCT_ENCAPS_FAIL, ''PCT encapsulation/decapsulation mismatch''),
     (err_code QUDO_ERR_PCT_SIGN_FAIL, ''PCT sign/verify mismatch''),
     (err_code QUDO_ERR_CAST_NOT_RUN, ''Conditional self-test not yet executed''),
     (err_code QUDO_ERR_CAST_FAIL, ''Conditional algorithm self-test failed''),
     (err_code QUDO_ERR_CAST_KEYGEN_FAIL, ''CAST temporary key generation failed''),
     (err_code QUDO_ERR_DRBG_NOT_SEEDED, ''DRBG not initialized/seeded''),
     (err_code QUDO_ERR_DRBG_SEED_FAIL, ''DRBG seeding from platform entropy failed''),
     (err_code QUDO_ERR_DRBG_HEALTH_FAIL, ''DRBG health test failed (SP 800-90B)''),
     (err_code QUDO_ERR_DRBG_RESEED_FAIL, ''DRBG reseed failed''),
     (err_code QUDO_ERR_DRBG_GENERATE_FAIL, ''DRBG generate failed''),
     (err_code QUDO_ERR_KEY_INVALID, ''Invalid key material''),
     (err_code QUDO_ERR_KEY_SIZE_MISMATCH, ''Key size does not match algorithm parameters''),
     (err_code QUDO_ERR_KEY_ZEROIZE_FAIL, ''Key zeroization verification failed''),
     (err_code QUDO_ERR_ALLOC, ''Memory allocation failed''),
     (err_code QUDO_ERR_PARAM_INVALID, ''Invalid parameter value''),
     (err_code QUDO_ERR_PARAM_NULL, ''NULL parameter''),
     (err_code QUDO_ERR_NOT_SUPPORTED, ''Operation not supported''),
     (err_code QUDO_ERR_INTERNAL, ''Internal error'')]"

text \<open>The loop over the table; the first entry with the code wins.\<close>

fun err_scan :: "nat \<Rightarrow> (nat \<times> string) list \<Rightarrow> string" where
  "err_scan e [] = ''Unknown error''"
| "err_scan e ((c, msg) # t) = (if c = e then msg else err_scan e t)"

definition qudo_err_string :: "nat \<Rightarrow> string" where
  "qudo_err_string e = err_scan e qudo_err_table"

section \<open>The log\<close>

datatype audit_event = Audit_event (ev_sev: qudo_sev_t) (ev_code: qudo_err_t) (ev_comp: string) (ev_detail: string)
  (ev_cb: nat) (ev_arg: nat)

record audit_st = os_st +
  g_audit_cb :: "nat option"
  g_audit_cb_arg :: nat
  g_audit_count :: "u32 list"
  g_audit_lock :: rwlock
  g_audit_lock_once :: bool
  audit_trace :: "audit_event list"

definition audit_loaded :: "'s audit_st_scheme \<Rightarrow> 's audit_st_scheme" where
  "audit_loaded s = s\<lparr>g_audit_cb := None, g_audit_cb_arg := 0, g_audit_count := [0, 0, 0, 0],
     g_audit_lock := RwNull, g_audit_lock_once := False, audit_trace := []\<rparr>"

definition do_audit_lock_init :: "'e env_scheme \<Rightarrow> 's audit_st_scheme \<Rightarrow> 's audit_st_scheme" where
  "do_audit_lock_init E s = (let (l, s) = qudo_rwlock_new E s in s\<lparr>g_audit_lock := l\<rparr>)"

definition qudo_audit_cleanup :: "'s audit_st_scheme \<Rightarrow> 's audit_st_scheme" where
  "qudo_audit_cleanup s =
     (let s = (if g_audit_lock s \<noteq> RwNull
               then s\<lparr>g_audit_lock := (if qudo_rwlock_free (g_audit_lock s) = RwBad then RwBad else RwNull)\<rparr>
               else s)
      in s\<lparr>g_audit_lock_once := qudo_once_reset, g_audit_cb := None, g_audit_cb_arg := 0\<rparr>)"

definition qudo_audit_set_callback ::
  "'e env_scheme \<Rightarrow> nat option \<Rightarrow> nat \<Rightarrow> 's audit_st_scheme \<Rightarrow> 's audit_st_scheme" where
  "qudo_audit_set_callback E cb cb_arg s =
     (let (_, once, s) = qudo_once (g_audit_lock_once s) (do_audit_lock_init E) s;
          s = s\<lparr>g_audit_lock_once := once\<rparr>;
          s = (if g_audit_lock s \<noteq> RwNull
               then s\<lparr>g_audit_lock := snd (qudo_rwlock_wrlock (g_audit_lock s))\<rparr> else s);
          s = s\<lparr>g_audit_cb := cb, g_audit_cb_arg := cb_arg\<rparr>
      in if g_audit_lock s \<noteq> RwNull
         then s\<lparr>g_audit_lock := qudo_rwlock_unlock (g_audit_lock s)\<rparr> else s)"

definition qudo_audit_log ::
  "qudo_sev_t \<Rightarrow> qudo_err_t \<Rightarrow> string \<Rightarrow> string \<Rightarrow> 's audit_st_scheme \<Rightarrow> 's audit_st_scheme" where
  "qudo_audit_log severity code component detail s =
     (if severity > QUDO_SEV_FATAL then s
      else
        let (cb, cb_arg, s) =
              (if g_audit_lock s \<noteq> RwNull
               then let s1 = s\<lparr>g_audit_lock := snd (qudo_rwlock_rdlock (g_audit_lock s))\<rparr>
                    in (g_audit_cb s1, g_audit_cb_arg s1,
                        s1\<lparr>g_audit_lock := qudo_rwlock_rdunlock (g_audit_lock s1)\<rparr>)
               else (g_audit_cb s, g_audit_cb_arg s, s))
        in case cb of None \<Rightarrow> s
           | Some f \<Rightarrow>
             let count = g_audit_count s ! severity
             in if count \<ge> 100 then s
                else s\<lparr>g_audit_count := (g_audit_count s)[severity := count + 1],
                       audit_trace := audit_trace s @ [Audit_event severity code component detail f cb_arg]\<rparr>)"

section \<open>Lemmas\<close>

lemma audit_log_idle:
  assumes "idle (g_audit_lock s)"
  shows "qudo_audit_log sev c cm d s =
    (if sev > 3 \<or> g_audit_cb s = None \<or> g_audit_count s ! sev \<ge> 100 then s
     else s\<lparr>g_audit_count := (g_audit_count s)[sev := g_audit_count s ! sev + 1],
            audit_trace := audit_trace s @ [Audit_event sev c cm d (the (g_audit_cb s)) (g_audit_cb_arg s)]\<rparr>)"
  using assms by (cases rule: idle_cases) (auto simp: qudo_audit_log_def Let_def split: option.splits)

text \<open>Each operation changes the fields of the log only, whatever record it is part of.\<close>

lemma audit_log_upd:
  obtains l k t where "qudo_audit_log sev c cm d s = s\<lparr>g_audit_lock := l, g_audit_count := k, audit_trace := t\<rparr>"
proof -
  have "\<exists>l k t. qudo_audit_log sev c cm d s = s\<lparr>g_audit_lock := l, g_audit_count := k, audit_trace := t\<rparr>"
  proof (cases "g_audit_lock s = RwNull")
    case True
    then have "qudo_audit_log sev c cm d s = s\<lparr>g_audit_lock := g_audit_lock s,
        g_audit_count := g_audit_count (qudo_audit_log sev c cm d s),
        audit_trace := audit_trace (qudo_audit_log sev c cm d s)\<rparr>"
      by (simp add: audit_log_idle)
    then show ?thesis by blast
  next
    case False
    show ?thesis
      by (rule exI [of _ "g_audit_lock (qudo_audit_log sev c cm d s)"],
          rule exI [of _ "g_audit_count (qudo_audit_log sev c cm d s)"],
          rule exI [of _ "audit_trace (qudo_audit_log sev c cm d s)"])
        (simp add: False qudo_audit_log_def Let_def split: option.split)
  qed
  with that show thesis by blast
qed

lemma audit_log_frame [simp]:
  "os_calls (qudo_audit_log sev c cm d s) = os_calls s"
  "g_audit_cb (qudo_audit_log sev c cm d s) = g_audit_cb s"
  "g_audit_cb_arg (qudo_audit_log sev c cm d s) = g_audit_cb_arg s"
  "g_audit_lock_once (qudo_audit_log sev c cm d s) = g_audit_lock_once s"
  "audit_st.more (qudo_audit_log sev c cm d s) = audit_st.more s"
  by (auto simp: qudo_audit_log_def Let_def split: option.splits)

lemma audit_log_lock [simp]:
  "idle (g_audit_lock s) \<Longrightarrow> g_audit_lock (qudo_audit_log sev c cm d s) = g_audit_lock s"
  by (simp add: audit_log_idle)

lemma rwlock_new_idle [simp]: "idle (fst (qudo_rwlock_new E s))"
  by (simp add: qudo_rwlock_new_def)

lemma set_callback_frame [simp]:
  "g_audit_cb (qudo_audit_set_callback E cb a s) = cb"
  "g_audit_cb_arg (qudo_audit_set_callback E cb a s) = a"
  "g_audit_count (qudo_audit_set_callback E cb a s) = g_audit_count s"
  "audit_trace (qudo_audit_set_callback E cb a s) = audit_trace s"
  "audit_st.more (qudo_audit_set_callback E cb a s) = audit_st.more s"
  by (simp_all add: qudo_audit_set_callback_def Let_def qudo_once_def do_audit_lock_init_def
      qudo_rwlock_new_def tick_def split: prod.splits)

lemma set_callback_lock [simp]:
  "idle (g_audit_lock s) \<Longrightarrow> idle (g_audit_lock (qudo_audit_set_callback E cb a s))"
  by (elim idle_cases; simp add: qudo_audit_set_callback_def Let_def qudo_once_def do_audit_lock_init_def
      qudo_rwlock_new_def tick_def split: prod.splits)

lemma audit_cleanup_frame [simp]:
  "os_calls (qudo_audit_cleanup s) = os_calls s"
  "g_audit_cb (qudo_audit_cleanup s) = None"
  "g_audit_count (qudo_audit_cleanup s) = g_audit_count s"
  "audit_trace (qudo_audit_cleanup s) = audit_trace s"
  "audit_st.more (qudo_audit_cleanup s) = audit_st.more s"
  by (simp_all add: qudo_audit_cleanup_def Let_def)

lemma audit_cleanup_lock [simp]: "idle (g_audit_lock s) \<Longrightarrow> g_audit_lock (qudo_audit_cleanup s) = RwNull"
  by (elim idle_cases; simp add: qudo_audit_cleanup_def Let_def)

text \<open>
  The invariant of the log: the four counters stay within the limit, each counts the records of
  its severity, every record has one of the four severities, and the lock is not held.
\<close>

definition audit_inv :: "'s audit_st_scheme \<Rightarrow> bool" where
  "audit_inv s \<longleftrightarrow> idle (g_audit_lock s) \<and> length (g_audit_count s) = 4 \<and>
     (\<forall>e \<in> set (audit_trace s). ev_sev e \<le> 3) \<and>
     (\<forall>i<4. g_audit_count s ! i \<le> 100 \<and>
        unat (g_audit_count s ! i) = length (filter (\<lambda>e. ev_sev e = i) (audit_trace s)))"

lemma audit_inv_lock [simp]: "audit_inv s \<Longrightarrow> idle (g_audit_lock s)"
  by (simp add: audit_inv_def)

lemma audit_inv_cong:
  "g_audit_lock s = g_audit_lock t \<Longrightarrow> g_audit_count s = g_audit_count t \<Longrightarrow> audit_trace s = audit_trace t
     \<Longrightarrow> audit_inv s = audit_inv t"
  by (simp add: audit_inv_def)

lemma audit_inv_loaded [simp]: "audit_inv (audit_loaded s)"
  by (auto simp: audit_inv_def audit_loaded_def less_Suc_eq numeral_eq_Suc)

lemma unat_inc_small: "(w::u32) < 100 \<Longrightarrow> unat (w + 1) = unat w + 1 \<and> w + 1 \<le> 100"
proof -
  assume a: "w < 100"
  then have u: "unat w < 100" by (simp add: word_less_nat_alt)
  then have "unat (w + 1) = unat w + 1" by (subst unat_add_lem [THEN iffD1]) simp_all
  with u show ?thesis by (simp add: word_le_nat_alt)
qed

lemma audit_inv_log [simp]:
  assumes "audit_inv s"
  shows "audit_inv (qudo_audit_log sev c cm d s)"
proof (cases "sev > 3 \<or> g_audit_cb s = None \<or> g_audit_count s ! sev \<ge> 100")
  case True
  with assms show ?thesis by (simp add: audit_log_idle)
next
  case False
  then have sev: "sev < 4" and small: "g_audit_count s ! sev < 100" by auto
  let ?s = "qudo_audit_log sev c cm d s"
  have s: "?s = s\<lparr>g_audit_count := (g_audit_count s)[sev := g_audit_count s ! sev + 1],
      audit_trace := audit_trace s @ [Audit_event sev c cm d (the (g_audit_cb s)) (g_audit_cb_arg s)]\<rparr>"
    using False assms by (auto simp: audit_log_idle)
  show ?thesis
    unfolding s using assms sev unat_inc_small [OF small]
    by (auto simp: audit_inv_def nth_list_update)
qed

lemma audit_inv_set_callback [simp]: "audit_inv s \<Longrightarrow> audit_inv (qudo_audit_set_callback E cb a s)"
  by (simp add: audit_inv_def)

lemma audit_inv_cleanup [simp]: "audit_inv s \<Longrightarrow> audit_inv (qudo_audit_cleanup s)"
  by (simp add: audit_inv_def)

section \<open>Runs\<close>

text \<open>The three operations as calls, and the state after any sequence of them.\<close>

datatype audit_call = Log qudo_sev_t qudo_err_t string string | Set_callback "nat option" nat | Cleanup

primrec audit_step :: "'e env_scheme \<Rightarrow> audit_call \<Rightarrow> 's audit_st_scheme \<Rightarrow> 's audit_st_scheme" where
  "audit_step E (Log sev c cm d) s = qudo_audit_log sev c cm d s"
| "audit_step E (Set_callback cb a) s = qudo_audit_set_callback E cb a s"
| "audit_step E Cleanup s = qudo_audit_cleanup s"

lemma audit_inv_step: "audit_inv s \<Longrightarrow> audit_inv (audit_step E call s)"
  by (cases call) simp_all

lemma audit_inv_run: "audit_inv s \<Longrightarrow> audit_inv (fold (audit_step E) calls s)"
  by (induction calls arbitrary: s) (simp_all add: audit_inv_step)

lemma audit_inv_bound: "audit_inv s \<Longrightarrow> length (filter (\<lambda>e. ev_sev e = i) (audit_trace s)) \<le> 100"
proof (cases "i < 4")
  case True
  assume "audit_inv s"
  with True have "g_audit_count s ! i \<le> 100" "unat (g_audit_count s ! i) = length (filter (\<lambda>e. ev_sev e = i) (audit_trace s))"
    by (simp_all add: audit_inv_def)
  then show ?thesis by (simp add: word_le_nat_alt)
next
  case False
  assume "audit_inv s"
  with False have "filter (\<lambda>e. ev_sev e = i) (audit_trace s) = []"
    by (auto simp: audit_inv_def filter_empty_conv)
  then show ?thesis by simp
qed

text \<open>Every code of the enumeration has its own message.\<close>

lemma err_scan_map_of: "err_scan e t = (case map_of t e of None \<Rightarrow> ''Unknown error'' | Some m \<Rightarrow> m)"
  by (induction e t rule: err_scan.induct) simp_all

lemma err_table_codes: "distinct (map fst qudo_err_table)"
  unfolding qudo_err_table_def by simp

lemma err_table_msgs: "distinct (''Unknown error'' # map snd qudo_err_table)"
  unfolding qudo_err_table_def by code_simp

lemma err_code_in_table: "\<exists>m. (err_code e, m) \<in> set qudo_err_table"
  unfolding qudo_err_table_def by (cases e) simp_all

lemma err_code_inject: "err_code e = err_code f \<longleftrightarrow> e = f"
  by (cases e; cases f) simp_all

section \<open>Properties\<close>

text \<open>
  C21: Rate limit of the audit log.  After any sequence of log records, callback registrations and
  clean-ups since the module was loaded, an application has received at most 100 records of each
  severity, and the log's lock is not left held.
\<close>

theorem audit_rate_limit:
  "length (filter (\<lambda>e. ev_sev e = sev) (audit_trace (fold (audit_step E) calls (audit_loaded s)))) \<le> 100
   \<and> idle (g_audit_lock (fold (audit_step E) calls (audit_loaded s)))"
  using audit_inv_run [OF audit_inv_loaded, of E calls s] by (simp add: audit_inv_bound)

text \<open>
  The message table is complete and unambiguous: every error code of the enumeration has a
  message, different codes have different messages, and none of them is the fallback message.
\<close>

theorem err_string_complete:
  "qudo_err_string (err_code e) \<noteq> ''Unknown error''
   \<and> (qudo_err_string (err_code e) = qudo_err_string (err_code f) \<longleftrightarrow> e = f)"
proof -
  have str: "(err_code x, qudo_err_string (err_code x)) \<in> set qudo_err_table" for x
  proof -
    obtain m where m: "(err_code x, m) \<in> set qudo_err_table" using err_code_in_table by blast
    then have "map_of qudo_err_table (err_code x) = Some m" by (simp add: err_table_codes)
    with m show ?thesis by (simp add: qudo_err_string_def err_scan_map_of)
  qed
  have msgs: "distinct (map snd qudo_err_table)" "''Unknown error'' \<notin> set (map snd qudo_err_table)"
    using err_table_msgs by simp_all
  have "qudo_err_string (err_code e) \<noteq> ''Unknown error''"
  proof
    assume u: "qudo_err_string (err_code e) = ''Unknown error''"
    have "snd (err_code e, qudo_err_string (err_code e)) \<in> snd ` set qudo_err_table"
      by (rule imageI [OF str])
    with msgs(2) u show False by simp
  qed
  moreover have "e = f" if "qudo_err_string (err_code e) = qudo_err_string (err_code f)"
  proof -
    have "inj_on snd (set qudo_err_table)" using msgs(1) by (simp add: distinct_map)
    from inj_onD [OF this _ str [of e] str [of f]] that have "err_code e = err_code f" by simp
    then show ?thesis by (simp add: err_code_inject)
  qed
  ultimately show ?thesis by blast
qed

end
