(* ===== verification/Monad.thy ===== *)
theory Monad
  imports Prelude "HOL-Library.State_Monad"
begin

text \<open>
  Operations that thread the module's state through many calls are written in the state monad of
  the library, one \<open>do\<close> block per C function, with an early return as a branch of a conditional.
  The weakest precondition \<open>wp m Q s\<close> says that \<open>m\<close>, started in \<open>s\<close>, ends with a result and a
  state that satisfy \<open>Q\<close>.  The equations below compute it through the control structure; an
  operation contributes one rule, its specification, and \<open>wp_use\<close> applies it at a call.
\<close>

abbreviation ret :: "'a \<Rightarrow> ('s, 'a) state" where
  "ret \<equiv> State_Monad.return"

text \<open>Reading the state, changing it, and running a function that does both.\<close>

definition asks :: "('s \<Rightarrow> 'a) \<Rightarrow> ('s, 'a) state" where
  "asks f = State (\<lambda>s. (f s, s))"

definition upd :: "('s \<Rightarrow> 's) \<Rightarrow> ('s, unit) state" where
  "upd f = State (\<lambda>s. ((), f s))"

abbreviation act :: "('s \<Rightarrow> 'a \<times> 's) \<Rightarrow> ('s, 'a) state" where
  "act \<equiv> State"

lemma run_state_asks [simp]: "run_state (asks f) s = (f s, s)"
  by (simp add: asks_def)

lemma run_state_upd [simp]: "run_state (upd f) s = ((), f s)"
  by (simp add: upd_def)

definition wp :: "('s, 'a) state \<Rightarrow> ('a \<Rightarrow> 's \<Rightarrow> bool) \<Rightarrow> 's \<Rightarrow> bool" where
  "wp m Q s = (case run_state m s of (r, t) \<Rightarrow> Q r t)"

lemma wp_ret [simp]: "wp (ret x) Q s = Q x s"
  by (simp add: wp_def)

lemma wp_bind [simp]: "wp (State_Monad.bind m f) Q s = wp m (\<lambda>x. wp (f x) Q) s"
  by (simp add: wp_def split: prod.split)

lemma wp_asks [simp]: "wp (asks f) Q s = Q (f s) s"
  by (simp add: wp_def)

lemma wp_upd [simp]: "wp (upd f) Q s = Q () (f s)"
  by (simp add: wp_def)

lemma wp_act: "wp (act f) Q s = (case f s of (r, t) \<Rightarrow> Q r t)"
  by (simp add: wp_def)

lemma wp_if [simp]: "wp (if b then m else n) Q s = (if b then wp m Q s else wp n Q s)"
  by simp

lemma wp_option [simp]:
  "wp (case x of None \<Rightarrow> m | Some y \<Rightarrow> f y) Q s = (case x of None \<Rightarrow> wp m Q s | Some y \<Rightarrow> wp (f y) Q s)"
  by (simp split: option.split)

lemma wp_prod [simp]: "wp (case p of (a, b) \<Rightarrow> f a b) Q s = (case p of (a, b) \<Rightarrow> wp (f a b) Q s)"
  by (simp split: prod.split)

lemma wp_use: "wp m Q s \<Longrightarrow> (\<And>r t. Q r t \<Longrightarrow> R r t) \<Longrightarrow> wp m R s"
  by (simp add: wp_def split: prod.splits)

lemma wp_conj: "wp m (\<lambda>r t. Q r t \<and> R r t) s \<longleftrightarrow> wp m Q s \<and> wp m R s"
  by (simp add: wp_def split: prod.splits)

lemma wpD: "wp m Q s \<Longrightarrow> run_state m s = (r, t) \<Longrightarrow> Q r t"
  by (simp add: wp_def)

lemma wpI: "(\<And>r t. run_state m s = (r, t) \<Longrightarrow> Q r t) \<Longrightarrow> wp m Q s"
  by (simp add: wp_def split: prod.split)

text \<open>
  The C idiom of a table of tests run in order, the first failure ending the run: \<open>all_ok\<close> returns
  whether every step returned true.
\<close>

primrec all_ok :: "('a \<Rightarrow> ('s, bool) state) \<Rightarrow> 'a list \<Rightarrow> ('s, bool) state" where
  "all_ok f [] = ret True"
| "all_ok f (x # xs) = do { ok \<leftarrow> f x; if ok then all_ok f xs else ret False }"

text \<open>
  A relation between the states before and after that composes carries over from the steps to the
  run, as long as the runs continue only after success.
\<close>

lemma wp_all_ok:
  assumes step: "\<And>x s. x \<in> set xs \<Longrightarrow> P s \<Longrightarrow> wp (f x) (\<lambda>r t. R s t \<and> (r \<longrightarrow> P t \<and> G s t)) s"
    and R: "\<And>s. P s \<Longrightarrow> R s s" "\<And>s t u. G s t \<Longrightarrow> R t u \<Longrightarrow> R s u"
    and G: "\<And>s. P s \<Longrightarrow> G s s" "\<And>s t u. G s t \<Longrightarrow> G t u \<Longrightarrow> G s u"
    and s: "P s"
  shows "wp (all_ok f xs) (\<lambda>r t. R s t \<and> (r \<longrightarrow> P t \<and> G s t)) s"
  using step s
proof (induction xs arbitrary: s)
  case (Cons x xs)
  have 1: "wp (f x) (\<lambda>r t. R s t \<and> (r \<longrightarrow> P t \<and> G s t)) s"
    using Cons.prems by simp
  show ?case
    unfolding all_ok.simps wp_bind wp_if wp_ret
  proof (rule wp_use [OF 1])
    fix r t assume rt: "R s t \<and> (r \<longrightarrow> P t \<and> G s t)"
    show "if r then wp (all_ok f xs) (\<lambda>r t. R s t \<and> (r \<longrightarrow> P t \<and> G s t)) t
        else R s t \<and> (False \<longrightarrow> P t \<and> G s t)"
    proof (cases r)
      case True
      with rt have Pt: "P t" and Gt: "G s t" by simp_all
      have "wp (all_ok f xs) (\<lambda>r u. R t u \<and> (r \<longrightarrow> P u \<and> G t u)) t"
        by (rule Cons.IH) (use Cons.prems Pt in simp_all)
      then have "wp (all_ok f xs) (\<lambda>r t. R s t \<and> (r \<longrightarrow> P t \<and> G s t)) t"
        by (rule wp_use) (use Gt R(2) G(2) in blast)
      with True show ?thesis by simp
    qed (use rt in simp)
  qed
qed (simp add: R G)

end
