(* ===== verification/Module.thy ===== *)
theory Module
  imports AuditLog Monad
begin

text \<open>
  The state of the module and its guards: the globals and the small operations of
  \<open>src/qudo-pqc-lib/src/qudo_pqc_init.c\<close>, the self-test events of \<open>src/qudo_pqc_selftest.h\<close>, the
  flags of \<open>src/qudo_pqc_post.c\<close>, the security levels of \<open>src/qudo_pqc_security.c\<close> and the approval
  indicator of \<open>include/qudo_pqc_indicator.h\<close>.  The operations that run self-tests are in
  \<open>Lifecycle\<close>.

  The self-test callback of the application sees each event and may overwrite the buffer it is
  handed in the CORRUPT phase; it is a function of the events delivered so far, the event and the
  buffer.  Its result is never used by the code.  \<open>st_trace\<close> and \<open>error_trace\<close> are the events and
  error notices the application has received.
\<close>

section \<open>State\<close>

datatype mstate = ST_INIT | ST_SELFTEST | ST_RUNNING | ST_ERROR

primrec state_code :: "mstate \<Rightarrow> int" where
  "state_code ST_INIT = 0"
| "state_code ST_SELFTEST = 1"
| "state_code ST_RUNNING = 2"
| "state_code ST_ERROR = 3"

datatype qudo_st_phase_t = QUDO_ST_PHASE_BEGIN | QUDO_ST_PHASE_CORRUPT | QUDO_ST_PHASE_END

datatype st_event = St_event (st_phase: qudo_st_phase_t) (st_type: string) (st_desc: string) (st_result: int)

type_synonym qudo_st_event_cb = "st_event list \<Rightarrow> st_event \<Rightarrow> bytes \<Rightarrow> bytes"

record mod_st = audit_st +
  g_module_state :: mstate
  g_self_test_lock :: rwlock
  g_self_test_once :: bool
  g_error_report_count :: u32
  g_conditional_error_check :: int
  g_self_test_cb :: "qudo_st_event_cb option"
  g_self_test_cb_arg :: nat
  g_error_cb :: "nat option"
  g_error_cb_arg :: nat
  g_error_reason :: "string option"
  g_config_set :: bool
  g_stored_module_path :: string
  g_stored_module_mac :: string
  g_stored_used_cnf :: bool
  g_cast_status :: "int list"
  g_min_security_level :: int
  g_post_drbg_kat_passed :: bool
  g_post_integrity_passed :: bool
  error_trace :: "(int \<times> string \<times> nat \<times> nat) list"
  st_trace :: "st_event list"

text \<open>The initial values of the globals, before the constructor of the library runs.\<close>

definition mod_started :: mod_st where
  "mod_started = \<lparr>os_calls = 0, g_audit_cb = None, g_audit_cb_arg = 0, g_audit_count = [0, 0, 0, 0],
     g_audit_lock = RwNull, g_audit_lock_once = False, audit_trace = [],
     g_module_state = ST_INIT, g_self_test_lock = RwNull,
     g_self_test_once = False, g_error_report_count = 0, g_conditional_error_check = 1,
     g_self_test_cb = None, g_self_test_cb_arg = 0, g_error_cb = None, g_error_cb_arg = 0,
     g_error_reason = None, g_config_set = False, g_stored_module_path = [],
     g_stored_module_mac = [], g_stored_used_cnf = False, g_cast_status = replicate 12 0,
     g_min_security_level = 1, g_post_drbg_kat_passed = False, g_post_integrity_passed = False,
     error_trace = [], st_trace = []\<rparr>"

definition qudo_dep_init :: "'s mod_st_scheme \<Rightarrow> 's mod_st_scheme" where
  "qudo_dep_init s = s\<lparr>g_module_state := ST_SELFTEST\<rparr>"

definition do_self_test_lock_init :: "'e env_scheme \<Rightarrow> 's mod_st_scheme \<Rightarrow> 's mod_st_scheme" where
  "do_self_test_lock_init E s = (let (l, s) = qudo_rwlock_new E s in s\<lparr>g_self_test_lock := l\<rparr>)"

section \<open>The error state\<close>

text \<open>A call of the error callback, when one is registered.\<close>

definition error_notify :: "nat option \<Rightarrow> nat \<Rightarrow> int \<Rightarrow> string \<Rightarrow> 's mod_st_scheme \<Rightarrow> 's mod_st_scheme" where
  "error_notify cb cb_arg code msg s =
     (case cb of None \<Rightarrow> s | Some f \<Rightarrow> s\<lparr>error_trace := error_trace s @ [(code, msg, f, cb_arg)]\<rparr>)"

text \<open>\<open>snprintf\<close> into the buffer of 128 bytes keeps 127 characters.\<close>

definition error_state_msg :: "string option \<Rightarrow> string" where
  "error_state_msg reason =
     (case reason of
        Some r \<Rightarrow> take 127 (''Module in error state (cause: '' @ r @ '')'')
      | None \<Rightarrow> ''Module in error state (cause unspecified)'')"

definition report_error_state :: "'s mod_st_scheme \<Rightarrow> 's mod_st_scheme" where
  "report_error_state s =
     (if g_error_report_count s < 10
      then let s = s\<lparr>g_error_report_count := g_error_report_count s + 1\<rparr>;
               (cb, cb_arg, reason, s) =
                 (if g_self_test_lock s \<noteq> RwNull
                  then let s1 = s\<lparr>g_self_test_lock := snd (qudo_rwlock_rdlock (g_self_test_lock s))\<rparr>
                       in (g_error_cb s1, g_error_cb_arg s1, g_error_reason s1,
                           s1\<lparr>g_self_test_lock := qudo_rwlock_rdunlock (g_self_test_lock s1)\<rparr>)
                  else (None, 0, None, s));
               msg = error_state_msg reason;
               s = error_notify cb cb_arg 1 msg s
           in qudo_audit_log QUDO_SEV_ERROR QUDO_ERR_MODULE_ERROR_STATE ''STATE'' msg s
      else s)"

definition qudo_pqc_is_running :: "'s mod_st_scheme \<Rightarrow> bool \<times> 's mod_st_scheme" where
  "qudo_pqc_is_running s =
     (let state = g_module_state s;
          s = (if state = ST_ERROR then report_error_state s else s)
      in (state = ST_RUNNING, s))"

definition qudo_pqc_is_running_or_selftest :: "'s mod_st_scheme \<Rightarrow> bool \<times> 's mod_st_scheme" where
  "qudo_pqc_is_running_or_selftest s =
     (let state = g_module_state s;
          s = (if state = ST_ERROR then report_error_state s else s)
      in (state = ST_RUNNING \<or> state = ST_SELFTEST, s))"

definition qudo_pqc_is_self_testing :: "'s mod_st_scheme \<Rightarrow> bool" where
  "qudo_pqc_is_self_testing s \<longleftrightarrow> g_module_state s = ST_SELFTEST"

definition qudo_pqc_get_state :: "'s mod_st_scheme \<Rightarrow> int" where
  "qudo_pqc_get_state s = state_code (g_module_state s)"

definition qudo_pqc_is_fips :: "'e env_scheme \<Rightarrow> int" where
  "qudo_pqc_is_fips E = (if fips_module E then 1 else 0)"

definition qudo_pqc_set_error_state :: "string option \<Rightarrow> 's mod_st_scheme \<Rightarrow> 's mod_st_scheme" where
  "qudo_pqc_set_error_state type s =
     (let cond_test = (case type of None \<Rightarrow> False | Some t \<Rightarrow> t = ''PCT'');
          import_pct = (case type of None \<Rightarrow> False | Some t \<Rightarrow> t = ''Import_PCT'');
          cb = g_error_cb s;
          cb_arg = g_error_cb_arg s
      in if import_pct
         then qudo_audit_log QUDO_SEV_WARN QUDO_ERR_PCT_IMPORT_FAIL ''PCT''
                ''Import PCT failed (transient, no state change)''
                (error_notify cb cb_arg 2 ''Import PCT error (transient)'' s)
         else if \<not> cond_test \<or> g_conditional_error_check s \<noteq> 0
         then qudo_audit_log QUDO_SEV_FATAL QUDO_ERR_MODULE_ERROR_STATE ''STATE''
                ''Module entering ERROR state (fatal)''
                (error_notify cb cb_arg 3 ''Module entering error state''
                   (s\<lparr>g_module_state := ST_ERROR, g_error_reason := type\<rparr>))
         else qudo_audit_log QUDO_SEV_WARN QUDO_ERR_PCT_KEYGEN_FAIL ''PCT''
                ''Conditional PCT error (warning, check disabled)''
                (error_notify cb cb_arg 4 ''Conditional error (warning only)'' s))"

section \<open>Approved algorithms and security levels\<close>

text \<open>\<open>strcasecmp(a, b) == 0\<close> in the C locale.\<close>

definition to_lower :: "char \<Rightarrow> char" where
  "to_lower c = (if 65 \<le> (of_char c :: nat) \<and> (of_char c :: nat) \<le> 90 then char_of ((of_char c :: nat) + 32) else c)"

definition strcasecmp_eq :: "string \<Rightarrow> string \<Rightarrow> bool" where
  "strcasecmp_eq a b \<longleftrightarrow> map to_lower a = map to_lower b"

definition approved_algs :: "string list" where
  "approved_algs =
     [''ML-KEM-512'', ''ML-KEM-768'', ''ML-KEM-1024'', ''ML-DSA-44'', ''ML-DSA-65'', ''ML-DSA-87'',
      ''HashML-DSA-44'', ''HashML-DSA-65'', ''HashML-DSA-87'', ''SLH-DSA-SHA2-128s'',
      ''SLH-DSA-SHA2-128f'', ''SLH-DSA-SHA2-192s'', ''SLH-DSA-SHA2-192f'', ''SLH-DSA-SHA2-256s'',
      ''SLH-DSA-SHA2-256f'', ''SLH-DSA-SHAKE-128s'', ''SLH-DSA-SHAKE-128f'', ''SLH-DSA-SHAKE-192s'',
      ''SLH-DSA-SHAKE-192f'', ''SLH-DSA-SHAKE-256s'', ''SLH-DSA-SHAKE-256f'']"

definition qudo_pqc_is_fips_approved :: "string option \<Rightarrow> bool" where
  "qudo_pqc_is_fips_approved name =
     (case name of None \<Rightarrow> False | Some n \<Rightarrow> list_ex (strcasecmp_eq n) approved_algs)"

definition g_sec_levels :: "(string \<times> int) list" where
  "g_sec_levels =
     [(''ML-KEM-512'', 1), (''ML-KEM-768'', 3), (''ML-KEM-1024'', 5),
      (''ML-DSA-44'', 2), (''ML-DSA-65'', 3), (''ML-DSA-87'', 5),
      (''SLH-DSA-SHA2-128s'', 1), (''SLH-DSA-SHA2-128f'', 1), (''SLH-DSA-SHA2-192s'', 3),
      (''SLH-DSA-SHA2-192f'', 3), (''SLH-DSA-SHA2-256s'', 5), (''SLH-DSA-SHA2-256f'', 5),
      (''SLH-DSA-SHAKE-128s'', 1), (''SLH-DSA-SHAKE-128f'', 1), (''SLH-DSA-SHAKE-192s'', 3),
      (''SLH-DSA-SHAKE-192f'', 3), (''SLH-DSA-SHAKE-256s'', 5), (''SLH-DSA-SHAKE-256f'', 5)]"

fun level_scan :: "string \<Rightarrow> (string \<times> int) list \<Rightarrow> int" where
  "level_scan n [] = 0"
| "level_scan n ((m, l) # t) = (if n = m then l else level_scan n t)"

definition qudo_pqc_get_security_level :: "string option \<Rightarrow> int" where
  "qudo_pqc_get_security_level name = (case name of None \<Rightarrow> 0 | Some n \<Rightarrow> level_scan n g_sec_levels)"

definition qudo_pqc_set_min_security_level :: "int \<Rightarrow> 's mod_st_scheme \<Rightarrow> 's mod_st_scheme" where
  "qudo_pqc_set_min_security_level level s =
     (if level \<ge> 1 \<and> level \<le> 5 then s\<lparr>g_min_security_level := level\<rparr> else s)"

definition qudo_pqc_get_min_security_level :: "'s mod_st_scheme \<Rightarrow> int" where
  "qudo_pqc_get_min_security_level s = g_min_security_level s"

record qudo_fips_ind_t =
  ind_approved :: bool
  ind_strict :: bool

definition qudo_fips_ind_init :: "bool \<Rightarrow> qudo_fips_ind_t" where
  "qudo_fips_ind_init strict = \<lparr>ind_approved = True, ind_strict = strict\<rparr>"

definition qudo_fips_ind_set_unapproved :: "qudo_fips_ind_t option \<Rightarrow> bool \<times> qudo_fips_ind_t option" where
  "qudo_fips_ind_set_unapproved ind =
     (case ind of None \<Rightarrow> (True, None)
      | Some i \<Rightarrow> (\<not> ind_strict i, Some (i\<lparr>ind_approved := False\<rparr>)))"

definition qudo_fips_ind_is_approved :: "qudo_fips_ind_t option \<Rightarrow> bool" where
  "qudo_fips_ind_is_approved ind = (case ind of None \<Rightarrow> True | Some i \<Rightarrow> ind_approved i)"

definition qudo_fips_ind_get_default_strict :: "'e env_scheme \<Rightarrow> bool" where
  "qudo_fips_ind_get_default_strict E = fips_module E"

definition qudo_pqc_check_security_level ::
  "string option \<Rightarrow> qudo_fips_ind_t option \<Rightarrow> 's mod_st_scheme
     \<Rightarrow> bool \<times> qudo_fips_ind_t option \<times> 's mod_st_scheme" where
  "qudo_pqc_check_security_level name ind s =
     (case name of None \<Rightarrow> (False, ind, s)
      | Some n \<Rightarrow>
        let level = qudo_pqc_get_security_level (Some n)
        in if level = 0 then (False, ind, s)
           else if level < g_min_security_level s
           then let s = qudo_audit_log QUDO_SEV_WARN QUDO_ERR_PARAM_INVALID ''INDICATOR''
                          ''Algorithm below minimum security level'' s
                in case ind of
                     Some i \<Rightarrow> (let (r, ind) = qudo_fips_ind_set_unapproved (Some i) in (r, ind, s))
                   | None \<Rightarrow> (False, ind, s)
           else (True, ind, s))"

section \<open>Conditional self-test status and POST flags\<close>

definition qudo_pqc_get_cast_status :: "int \<Rightarrow> 's mod_st_scheme \<Rightarrow> int" where
  "qudo_pqc_get_cast_status cast_id s =
     (if cast_id < 0 \<or> cast_id \<ge> 12 then -1 else g_cast_status s ! nat cast_id)"

definition qudo_pqc_set_cast_status :: "int \<Rightarrow> int \<Rightarrow> 's mod_st_scheme \<Rightarrow> 's mod_st_scheme" where
  "qudo_pqc_set_cast_status cast_id status s =
     (if cast_id \<ge> 0 \<and> cast_id < 12 then s\<lparr>g_cast_status := (g_cast_status s)[nat cast_id := status]\<rparr> else s)"

definition qudo_pqc_post_drbg_kat_passed :: "'s mod_st_scheme \<Rightarrow> bool" where
  "qudo_pqc_post_drbg_kat_passed s = g_post_drbg_kat_passed s"

definition qudo_pqc_post_integrity_passed :: "'s mod_st_scheme \<Rightarrow> bool" where
  "qudo_pqc_post_integrity_passed s = g_post_integrity_passed s"

definition qudo_pqc_post_mark_integrity_passed :: "'s mod_st_scheme \<Rightarrow> 's mod_st_scheme" where
  "qudo_pqc_post_mark_integrity_passed s = s\<lparr>g_post_integrity_passed := True\<rparr>"

definition qudo_pqc_post_reset_status :: "'s mod_st_scheme \<Rightarrow> 's mod_st_scheme" where
  "qudo_pqc_post_reset_status s = s\<lparr>g_post_drbg_kat_passed := False, g_post_integrity_passed := False\<rparr>"

section \<open>Self-test events\<close>

record qudo_st_ctx_t =
  st_cb :: "qudo_st_event_cb option"
  st_cb_arg :: nat
  current_type :: string
  current_desc :: string

definition qudo_st_begin ::
  "qudo_st_ctx_t \<Rightarrow> string \<Rightarrow> string \<Rightarrow> 's mod_st_scheme \<Rightarrow> qudo_st_ctx_t \<times> 's mod_st_scheme" where
  "qudo_st_begin st type desc s =
     (let st = st\<lparr>current_type := type, current_desc := desc\<rparr>
      in case st_cb st of None \<Rightarrow> (st, s)
         | Some cb \<Rightarrow> (st, s\<lparr>st_trace := st_trace s @ [St_event QUDO_ST_PHASE_BEGIN type desc 0]\<rparr>))"

definition qudo_st_corrupt ::
  "qudo_st_ctx_t \<Rightarrow> bytes \<Rightarrow> 's mod_st_scheme \<Rightarrow> bytes \<times> 's mod_st_scheme" where
  "qudo_st_corrupt st data s =
     (case st_cb st of None \<Rightarrow> (data, s)
      | Some cb \<Rightarrow>
        let e = St_event QUDO_ST_PHASE_CORRUPT (current_type st) (current_desc st) 0
        in (cb (st_trace s) e data, s\<lparr>st_trace := st_trace s @ [e]\<rparr>))"

definition qudo_st_end :: "qudo_st_ctx_t \<Rightarrow> bool \<Rightarrow> 's mod_st_scheme \<Rightarrow> 's mod_st_scheme" where
  "qudo_st_end st result s =
     (case st_cb st of None \<Rightarrow> s
      | Some cb \<Rightarrow> s\<lparr>st_trace := st_trace s @
          [St_event QUDO_ST_PHASE_END (current_type st) (current_desc st) (if result then 1 else 0)]\<rparr>)"

definition qudo_pqc_get_st_ctx :: "'s mod_st_scheme \<Rightarrow> qudo_st_ctx_t \<times> 's mod_st_scheme" where
  "qudo_pqc_get_st_ctx s =
     (let (cb, cb_arg, s) =
            (if g_self_test_lock s \<noteq> RwNull
             then let s1 = s\<lparr>g_self_test_lock := snd (qudo_rwlock_rdlock (g_self_test_lock s))\<rparr>
                  in (g_self_test_cb s1, g_self_test_cb_arg s1,
                      s1\<lparr>g_self_test_lock := qudo_rwlock_rdunlock (g_self_test_lock s1)\<rparr>)
             else (None, 0, s))
      in (\<lparr>st_cb = cb, st_cb_arg = cb_arg, current_type = [], current_desc = []\<rparr>, s))"

section \<open>Callbacks\<close>

definition qudo_pqc_unregister_callbacks :: "'e env_scheme \<Rightarrow> nat \<Rightarrow> 's mod_st_scheme \<Rightarrow> 's mod_st_scheme" where
  "qudo_pqc_unregister_callbacks E cb_arg s =
     (if g_self_test_lock s = RwNull then s
      else let (ok, l) = qudo_rwlock_wrlock (g_self_test_lock s); s = s\<lparr>g_self_test_lock := l\<rparr>
           in if ok = 0 then s
              else let s = (if g_self_test_cb_arg s = cb_arg
                            then qudo_audit_set_callback E None 0
                                   (s\<lparr>g_self_test_cb := None, g_self_test_cb_arg := 0,
                                      g_error_cb := None, g_error_cb_arg := 0\<rparr>)
                            else s)
                   in s\<lparr>g_self_test_lock := qudo_rwlock_unlock (g_self_test_lock s)\<rparr>)"

section \<open>What operations keep\<close>

text \<open>
  \<open>mod_inv\<close> is the invariant of the globals.  \<open>svc s t\<close> says that \<open>t\<close> is a state a service may
  leave after starting in \<open>s\<close>: the module is where it was or in the error state, the configuration
  and the self-test lock are untouched, and the invariant is kept.  \<open>calm s t\<close> adds that the state
  of the module has not moved.
\<close>

definition notices :: "'s mod_st_scheme \<Rightarrow> nat" where
  "notices s = length (filter (\<lambda>e. fst e = 1) (error_trace s))"

definition mod_inv :: "'s mod_st_scheme \<Rightarrow> bool" where
  "mod_inv s \<longleftrightarrow> audit_inv s \<and> g_error_report_count s \<le> 10 \<and> notices s \<le> unat (g_error_report_count s)
     \<and> length (g_cast_status s) = 12 \<and> 1 \<le> g_min_security_level s \<and> g_min_security_level s \<le> 5"

definition config_of where
  "config_of s =
     (g_self_test_once s, g_conditional_error_check s, g_self_test_cb s, g_self_test_cb_arg s,
      g_error_cb s, g_error_cb_arg s, g_config_set s,
      g_stored_module_path s, g_stored_module_mac s, g_stored_used_cnf s, g_min_security_level s,
      g_post_drbg_kat_passed s, g_post_integrity_passed s, g_audit_cb s, g_audit_cb_arg s)"

definition svc :: "'s mod_st_scheme \<Rightarrow> 's mod_st_scheme \<Rightarrow> bool" where
  "svc s t \<longleftrightarrow> (g_module_state t = g_module_state s \<or> g_module_state t = ST_ERROR) \<and> config_of t = config_of s
   \<and> g_self_test_lock t = g_self_test_lock s \<and> (mod_inv s \<longrightarrow> mod_inv t)"

definition calm :: "'s mod_st_scheme \<Rightarrow> 's mod_st_scheme \<Rightarrow> bool" where
  "calm s t \<longleftrightarrow> svc s t \<and> g_module_state t = g_module_state s"

text \<open>
  A guard that reports the error state takes the self-test lock, so it needs the lock free; a
  thread that holds it for writing must not meet a guard in the error state.
\<close>

definition lock_ok :: "'s mod_st_scheme \<Rightarrow> bool" where
  "lock_ok s \<longleftrightarrow> idle (g_self_test_lock s) \<or> g_self_test_lock s = RwWrite \<and> g_module_state s \<noteq> ST_ERROR"

lemma svc_refl [simp, intro]: "svc s s"
  by (simp add: svc_def)

lemma calm_refl [simp, intro]: "calm s s"
  by (simp add: calm_def)

lemma svc_trans [trans]: "svc s t \<Longrightarrow> svc t u \<Longrightarrow> svc s u"
  by (auto simp: svc_def)

lemma calm_trans [trans]: "calm s t \<Longrightarrow> calm t u \<Longrightarrow> calm s u"
  by (auto simp: calm_def intro: svc_trans)

lemma calm_svc: "calm s t \<Longrightarrow> svc s t"
  by (simp add: calm_def)

lemma calm_svc_trans: "calm s t \<Longrightarrow> svc t u \<Longrightarrow> svc s u"
  by (blast intro: svc_trans calm_svc)

lemma svc_calm_trans: "svc s t \<Longrightarrow> calm t u \<Longrightarrow> svc s u"
  by (blast intro: svc_trans calm_svc)

lemma calm_state: "calm s t \<Longrightarrow> g_module_state t = g_module_state s"
  by (simp add: calm_def)

lemma svc_lock: "svc s t \<Longrightarrow> g_self_test_lock t = g_self_test_lock s"
  by (simp add: svc_def)

lemma svc_inv: "svc s t \<Longrightarrow> mod_inv s \<Longrightarrow> mod_inv t"
  by (simp add: svc_def)

lemma calm_lock_ok: "calm s t \<Longrightarrow> lock_ok s \<Longrightarrow> lock_ok t"
  by (simp add: calm_def svc_def lock_ok_def)

lemma svc_idle: "svc s t \<Longrightarrow> idle (g_self_test_lock s) \<Longrightarrow> lock_ok t"
  by (simp add: lock_ok_def svc_def)

lemma lock_ok_running [simp]: "g_module_state s \<noteq> ST_ERROR \<Longrightarrow> g_self_test_lock s = RwWrite \<Longrightarrow> lock_ok s"
  by (simp add: lock_ok_def)

lemma audit_log_calm [simp]: "calm s (qudo_audit_log sev c cm d s)"
proof -
  let ?t = "qudo_audit_log sev c cm d s"
  obtain l k t where e: "?t = s\<lparr>g_audit_lock := l, g_audit_count := k, audit_trace := t\<rparr>"
    by (rule audit_log_upd)
  have "mod_inv s \<Longrightarrow> mod_inv ?t"
    unfolding mod_inv_def using audit_inv_log [of s sev c cm d] by (simp add: e notices_def)
  then show ?thesis by (simp add: calm_def svc_def config_of_def e)
qed

lemma mod_inv_cong:
  assumes "g_audit_lock t = g_audit_lock s" "g_audit_count t = g_audit_count s" "audit_trace t = audit_trace s"
    and "g_error_report_count t = g_error_report_count s" "error_trace t = error_trace s"
    and "g_cast_status t = g_cast_status s" "g_min_security_level t = g_min_security_level s"
  shows "mod_inv t = mod_inv s"
  using assms by (simp add: mod_inv_def audit_inv_def notices_def)

lemma calmI:
  "g_module_state t = g_module_state s \<Longrightarrow> config_of t = config_of s \<Longrightarrow> g_self_test_lock t = g_self_test_lock s
     \<Longrightarrow> mod_inv t = mod_inv s \<Longrightarrow> calm s t"
  by (simp add: calm_def svc_def)

lemma tick_calm [simp]: "calm s (tick s)"
  unfolding tick_def by (rule calmI) (simp_all add: config_of_def mod_inv_cong [of "_\<lparr>os_calls := _\<rparr>" s])

lemma st_trace_calm [simp]: "calm s (s\<lparr>st_trace := x\<rparr>)"
  by (rule calmI) (simp_all add: config_of_def mod_inv_cong [of "s\<lparr>st_trace := x\<rparr>" s])

lemma error_trace_calm: "filter (\<lambda>e. fst e = 1) x = filter (\<lambda>e. fst e = 1) (error_trace s) \<Longrightarrow> calm s (s\<lparr>error_trace := x\<rparr>)"
  by (rule calmI) (simp_all add: config_of_def mod_inv_def audit_inv_def notices_def)

lemma malloc_calm: "wp (act (qudo_malloc E n)) (\<lambda>r t. calm s t) s"
  by (simp add: wp_act qudo_malloc_def)

lemma zalloc_calm: "wp (act (qudo_zalloc E n)) (\<lambda>r t. calm s t) s"
  by (simp add: wp_act qudo_zalloc_def)

lemma st_begin_calm [simp]: "calm s (snd (qudo_st_begin st ty d s))"
  by (simp add: qudo_st_begin_def Let_def split: option.split)

lemma st_corrupt_calm [simp]: "calm s (snd (qudo_st_corrupt st b s))"
  by (simp add: qudo_st_corrupt_def Let_def split: option.split)

lemma st_end_calm [simp]: "calm s (qudo_st_end st ok s)"
  by (simp add: qudo_st_end_def split: option.split)

lemma error_notify_calm: "c \<noteq> 1 \<Longrightarrow> calm s (error_notify cb a c m s)"
  by (simp add: error_notify_def error_trace_calm split: option.split)

lemma report_count: "(w::u32) < 10 \<Longrightarrow> unat (w + 1) = unat w + 1 \<and> w + 1 \<le> 10"
proof -
  assume a: "w < 10"
  then have u: "unat w < 10" by (simp add: word_less_nat_alt)
  then have "unat (w + 1) = unat w + 1" by (subst unat_add_lem [THEN iffD1]) simp_all
  with u show ?thesis by (simp add: word_le_nat_alt)
qed

lemma same_lock: "g_self_test_lock s = l \<Longrightarrow> s\<lparr>g_self_test_lock := l\<rparr> = s"
  by auto

lemma report_error_state_calm: "idle (g_self_test_lock s) \<Longrightarrow> calm s (report_error_state s)"
proof (cases "g_error_report_count s < 10")
  case True
  assume lock: "idle (g_self_test_lock s)"
  define cb where "cb = (if g_self_test_lock s = RwNull then None else g_error_cb s)"
  define a where "a = (if g_self_test_lock s = RwNull then 0 else g_error_cb_arg s)"
  define m where "m = error_state_msg (if g_self_test_lock s = RwNull then None else g_error_reason s)"
  define t where "t = error_notify cb a 1 m (s\<lparr>g_error_report_count := g_error_report_count s + 1\<rparr>)"
  have r: "report_error_state s = qudo_audit_log QUDO_SEV_ERROR QUDO_ERR_MODULE_ERROR_STATE ''STATE'' m t"
    by (rule idle_cases [OF lock]; simp add: True report_error_state_def t_def cb_def a_def m_def Let_def same_lock)
  have "calm s t"
    using report_count [OF True]
    by (auto simp: t_def error_notify_def calm_def svc_def config_of_def mod_inv_def audit_inv_def notices_def
        split: option.split)
  then show ?thesis unfolding r by (rule calm_trans) simp
qed (simp add: report_error_state_def)

lemma set_error_state_svc [simp]: "svc s (qudo_pqc_set_error_state ty s)"
proof -
  have e: "svc s (s\<lparr>g_module_state := ST_ERROR, g_error_reason := ty\<rparr>)"
    by (simp add: svc_def config_of_def mod_inv_def audit_inv_def notices_def)
  have l: "svc s (qudo_audit_log sev c cm d (error_notify cb a n m t))" if "n \<noteq> 1" "svc s t" for sev c cm d cb a n m t
    using that by (blast intro: svc_calm_trans error_notify_calm audit_log_calm)
  show ?thesis
    unfolding qudo_pqc_set_error_state_def Let_def by (auto intro!: l e)
qed

lemma check_security_level_calm: "calm s (snd (snd (qudo_pqc_check_security_level name ind s)))"
  by (auto simp: qudo_pqc_check_security_level_def qudo_fips_ind_set_unapproved_def Let_def split: option.split)

lemma get_st_ctx_calm: "idle (g_self_test_lock s) \<Longrightarrow> calm s (snd (qudo_pqc_get_st_ctx s))"
  by (erule idle_cases; simp add: qudo_pqc_get_st_ctx_def Let_def same_lock)

lemma set_error_state_state:
  "g_module_state (qudo_pqc_set_error_state ty s) =
     (if ty = Some ''Import_PCT'' \<or> ty = Some ''PCT'' \<and> g_conditional_error_check s = 0
      then g_module_state s else ST_ERROR)"
proof -
  have l: "g_module_state (qudo_audit_log sev c cm d (error_notify cb a n m t)) = g_module_state t" for sev c cm d cb a n m t
    by (simp add: calm_state [OF audit_log_calm] error_notify_def split: option.split)
  show ?thesis by (auto simp: qudo_pqc_set_error_state_def Let_def l split: option.split)
qed

text \<open>None of these operations touches what a component adds to the state.\<close>

lemma audit_log_more [simp]: "mod_st.more (qudo_audit_log sev c cm d s) = mod_st.more s"
proof -
  obtain l k t where "qudo_audit_log sev c cm d s = s\<lparr>g_audit_lock := l, g_audit_count := k, audit_trace := t\<rparr>"
    by (rule audit_log_upd)
  then show ?thesis by simp
qed

lemma notify_more [simp]: "mod_st.more (error_notify cb a c m s) = mod_st.more s"
  by (simp add: error_notify_def split: option.split)

lemma report_more [simp]: "mod_st.more (report_error_state s) = mod_st.more s"
  by (simp add: report_error_state_def Let_def)

lemma gate_more [simp]:
  "mod_st.more (snd (qudo_pqc_is_running s)) = mod_st.more s"
  "mod_st.more (snd (qudo_pqc_is_running_or_selftest s)) = mod_st.more s"
  by (simp_all add: qudo_pqc_is_running_def qudo_pqc_is_running_or_selftest_def Let_def)

lemma set_error_state_more [simp]: "mod_st.more (qudo_pqc_set_error_state ty s) = mod_st.more s"
  by (simp add: qudo_pqc_set_error_state_def Let_def)

lemma check_security_level_more [simp]:
  "mod_st.more (snd (snd (qudo_pqc_check_security_level name ind s))) = mod_st.more s"
  by (simp add: qudo_pqc_check_security_level_def qudo_fips_ind_set_unapproved_def Let_def split: option.split)

lemma st_more [simp]:
  "mod_st.more (snd (qudo_st_begin st ty d s)) = mod_st.more s"
  "mod_st.more (snd (qudo_st_corrupt st b s)) = mod_st.more s"
  "mod_st.more (qudo_st_end st ok s) = mod_st.more s"
  "mod_st.more (snd (qudo_pqc_get_st_ctx s)) = mod_st.more s"
  by (simp_all add: qudo_st_begin_def qudo_st_corrupt_def qudo_st_end_def qudo_pqc_get_st_ctx_def Let_def
      split: option.split)

lemma tick_more [simp]: "mod_st.more (tick s) = mod_st.more s"
  by (simp add: tick_def)

text \<open>The guards: their answer, and that they leave the module where it is.\<close>

lemma is_running_spec:
  "lock_ok s \<Longrightarrow> wp (act qudo_pqc_is_running) (\<lambda>r t. r = (g_module_state s = ST_RUNNING) \<and> calm s t \<and> mod_st.more t = mod_st.more s
       \<and> (r \<longrightarrow> t = s)) s"
  by (auto simp: wp_act qudo_pqc_is_running_def lock_ok_def report_error_state_calm Let_def)

lemma gate_spec:
  "lock_ok s \<Longrightarrow> wp (act qudo_pqc_is_running_or_selftest)
     (\<lambda>r t. r = (g_module_state s = ST_RUNNING \<or> g_module_state s = ST_SELFTEST) \<and> calm s t
       \<and> mod_st.more t = mod_st.more s \<and> (r \<longrightarrow> t = s)) s"
  by (auto simp: wp_act qudo_pqc_is_running_or_selftest_def lock_ok_def report_error_state_calm Let_def)

lemma level_scan_map_of: "level_scan n t = (case map_of t n of None \<Rightarrow> 0 | Some l \<Rightarrow> l)"
  by (induction n t rule: level_scan.induct) simp_all

text \<open>
  The two tables disagree on the pre-hash variants of ML-DSA: their names are approved, and they have
  no security level, so that the level check rejects them.
\<close>

lemma hash_mldsa_has_no_level:
  "(n \<in> set approved_algs \<and> qudo_pqc_get_security_level (Some n) = 0)
     = (n \<in> {''HashML-DSA-44'', ''HashML-DSA-65'', ''HashML-DSA-87''})"
proof -
  have "filter (\<lambda>n. qudo_pqc_get_security_level (Some n) = 0) approved_algs
      = [''HashML-DSA-44'', ''HashML-DSA-65'', ''HashML-DSA-87'']"
    by code_simp
  from arg_cong [OF this, of set] show ?thesis by auto
qed

section \<open>Properties\<close>

text \<open>
  C22: Entering the error state.  A failed import test never changes the state; a failed pairwise test
  changes it only when conditional errors are enabled; every other failure puts the module in the
  error state, in which both guards refuse service.
\<close>

theorem set_error_state_latches:
  "g_module_state (qudo_pqc_set_error_state ty s) =
     (if ty = Some ''Import_PCT'' \<or> ty = Some ''PCT'' \<and> g_conditional_error_check s = 0
      then g_module_state s else ST_ERROR)
   \<and> (g_module_state (qudo_pqc_set_error_state ty s) = ST_ERROR \<longrightarrow>
        \<not> fst (qudo_pqc_is_running (qudo_pqc_set_error_state ty s))
        \<and> \<not> fst (qudo_pqc_is_running_or_selftest (qudo_pqc_set_error_state ty s)))"
  by (simp add: set_error_state_state qudo_pqc_is_running_def qudo_pqc_is_running_or_selftest_def Let_def)

theorem set_error_state_latches_witness:
  "g_module_state (qudo_pqc_set_error_state (Some ''DRBG_Health'') mod_started) = ST_ERROR
   \<and> \<not> fst (qudo_pqc_is_running (qudo_pqc_set_error_state (Some ''DRBG_Health'') mod_started))"
  using set_error_state_latches [of "Some ''DRBG_Health''" mod_started] by simp



end
