(* ===== verification/Aes.thy ===== *)
theory Aes
  imports Prelude
begin

text \<open>
  AES as \<open>src/qudo-pqc-lib/src/fips/qudo_fips_aes_ct.c\<close> computes it: the table-free S-box
  (a scan of all 256 entries with a mask), the three key schedules and the block
  encryption.  The reference is FIPS 197, over the same byte order as its section 3.4; the
  S-box is checked against its definition as inversion in GF(2^8) followed by the affine map.

  The key schedule writes the array \<open>rd_key\<close> of 60 words in place; \<open>off\<close> is the position of
  the pointer \<open>rk\<close> in it.
\<close>

section \<open>The code\<close>

record qudo_aes_key_t =
  rd_key :: "u32 list"
  rounds :: nat

definition SBOX :: bytes where
  "SBOX = [
      0x63, 0x7c, 0x77, 0x7b, 0xf2, 0x6b, 0x6f, 0xc5, 0x30, 0x01, 0x67, 0x2b,
      0xfe, 0xd7, 0xab, 0x76, 0xca, 0x82, 0xc9, 0x7d, 0xfa, 0x59, 0x47, 0xf0,
      0xad, 0xd4, 0xa2, 0xaf, 0x9c, 0xa4, 0x72, 0xc0, 0xb7, 0xfd, 0x93, 0x26,
      0x36, 0x3f, 0xf7, 0xcc, 0x34, 0xa5, 0xe5, 0xf1, 0x71, 0xd8, 0x31, 0x15,
      0x04, 0xc7, 0x23, 0xc3, 0x18, 0x96, 0x05, 0x9a, 0x07, 0x12, 0x80, 0xe2,
      0xeb, 0x27, 0xb2, 0x75, 0x09, 0x83, 0x2c, 0x1a, 0x1b, 0x6e, 0x5a, 0xa0,
      0x52, 0x3b, 0xd6, 0xb3, 0x29, 0xe3, 0x2f, 0x84, 0x53, 0xd1, 0x00, 0xed,
      0x20, 0xfc, 0xb1, 0x5b, 0x6a, 0xcb, 0xbe, 0x39, 0x4a, 0x4c, 0x58, 0xcf,
      0xd0, 0xef, 0xaa, 0xfb, 0x43, 0x4d, 0x33, 0x85, 0x45, 0xf9, 0x02, 0x7f,
      0x50, 0x3c, 0x9f, 0xa8, 0x51, 0xa3, 0x40, 0x8f, 0x92, 0x9d, 0x38, 0xf5,
      0xbc, 0xb6, 0xda, 0x21, 0x10, 0xff, 0xf3, 0xd2, 0xcd, 0x0c, 0x13, 0xec,
      0x5f, 0x97, 0x44, 0x17, 0xc4, 0xa7, 0x7e, 0x3d, 0x64, 0x5d, 0x19, 0x73,
      0x60, 0x81, 0x4f, 0xdc, 0x22, 0x2a, 0x90, 0x88, 0x46, 0xee, 0xb8, 0x14,
      0xde, 0x5e, 0x0b, 0xdb, 0xe0, 0x32, 0x3a, 0x0a, 0x49, 0x06, 0x24, 0x5c,
      0xc2, 0xd3, 0xac, 0x62, 0x91, 0x95, 0xe4, 0x79, 0xe7, 0xc8, 0x37, 0x6d,
      0x8d, 0xd5, 0x4e, 0xa9, 0x6c, 0x56, 0xf4, 0xea, 0x65, 0x7a, 0xae, 0x08,
      0xba, 0x78, 0x25, 0x2e, 0x1c, 0xa6, 0xb4, 0xc6, 0xe8, 0xdd, 0x74, 0x1f,
      0x4b, 0xbd, 0x8b, 0x8a, 0x70, 0x3e, 0xb5, 0x66, 0x48, 0x03, 0xf6, 0x0e,
      0x61, 0x35, 0x57, 0xb9, 0x86, 0xc1, 0x1d, 0x9e, 0xe1, 0xf8, 0x98, 0x11,
      0x69, 0xd9, 0x8e, 0x94, 0x9b, 0x1e, 0x87, 0xe9, 0xce, 0x55, 0x28, 0xdf,
      0x8c, 0xa1, 0x89, 0x0d, 0xbf, 0xe6, 0x42, 0x68, 0x41, 0x99, 0x2d, 0x0f,
      0xb0, 0x54, 0xbb, 0x16]"

text \<open>\<open>mask = ((diff - 1) >> 8) & 0xFF\<close> on 32-bit \<open>unsigned\<close>.\<close>

definition ct_sbox :: "u8 \<Rightarrow> u8" where
  "ct_sbox x =
     foldl (\<lambda>result i.
       (let diff = (ucast x :: u32) XOR of_nat i;
            mask = drop_bit 8 (diff - 1) AND 0xFF
        in result OR ucast ((ucast (SBOX ! i) :: u32) AND mask))) 0 [0..<256]"

definition ct_subword :: "u32 \<Rightarrow> u32" where
  "ct_subword x = be32 (ct_sbox (byte_of 24 x)) (ct_sbox (byte_of 16 x)) (ct_sbox (byte_of 8 x)) (ct_sbox (byte_of 0 x))"

definition ct_rotword :: "u32 \<Rightarrow> u32" where
  "ct_rotword x = push_bit 8 x OR drop_bit 24 x"

definition rcon :: "u32 list" where
  "rcon = [
      0x01000000, 0x02000000, 0x04000000, 0x08000000, 0x10000000,
      0x20000000, 0x40000000, 0x80000000, 0x1B000000, 0x36000000]"

text \<open>
  The three \<open>while (1)\<close> loops.  The counter starts at 0 and grows by one, so the exit test
  \<open>++i == n\<close> first holds when \<open>i + 1\<close> reaches \<open>n\<close>.
\<close>

function ct_expand128 :: "nat \<Rightarrow> nat \<Rightarrow> u32 list \<Rightarrow> u32 list" where
  "ct_expand128 i off rk0 =
     (let temp = rk0 ! (off + 3);
          rk1 = rk0[off + 4 := rk0 ! off XOR ct_subword (ct_rotword temp) XOR rcon ! i];
          rk2 = rk1[off + 5 := rk1 ! (off + 1) XOR rk1 ! (off + 4)];
          rk3 = rk2[off + 6 := rk2 ! (off + 2) XOR rk2 ! (off + 5)];
          rk4 = rk3[off + 7 := rk3 ! (off + 3) XOR rk3 ! (off + 6)]
      in if i + 1 \<ge> 10 then rk4 else ct_expand128 (i + 1) (off + 4) rk4)"
  by pat_completeness auto
termination
  by (relation "measure (\<lambda>(i, off, rk). 10 - i)") auto

function ct_expand192 :: "nat \<Rightarrow> nat \<Rightarrow> u32 list \<Rightarrow> u32 list" where
  "ct_expand192 i off rk0 =
     (let temp = rk0 ! (off + 5);
          rk1 = rk0[off + 6 := rk0 ! off XOR ct_subword (ct_rotword temp) XOR rcon ! i];
          rk2 = rk1[off + 7 := rk1 ! (off + 1) XOR rk1 ! (off + 6)];
          rk3 = rk2[off + 8 := rk2 ! (off + 2) XOR rk2 ! (off + 7)];
          rk4 = rk3[off + 9 := rk3 ! (off + 3) XOR rk3 ! (off + 8)]
      in if i + 1 \<ge> 8 then rk4
         else (let rk5 = rk4[off + 10 := rk4 ! (off + 4) XOR rk4 ! (off + 9)];
                   rk6 = rk5[off + 11 := rk5 ! (off + 5) XOR rk5 ! (off + 10)]
               in ct_expand192 (i + 1) (off + 6) rk6))"
  by pat_completeness auto
termination
  by (relation "measure (\<lambda>(i, off, rk). 8 - i)") auto

function ct_expand256 :: "nat \<Rightarrow> nat \<Rightarrow> u32 list \<Rightarrow> u32 list" where
  "ct_expand256 i off rk0 =
     (let temp = rk0 ! (off + 7);
          rk1 = rk0[off + 8 := rk0 ! off XOR ct_subword (ct_rotword temp) XOR rcon ! i];
          rk2 = rk1[off + 9 := rk1 ! (off + 1) XOR rk1 ! (off + 8)];
          rk3 = rk2[off + 10 := rk2 ! (off + 2) XOR rk2 ! (off + 9)];
          rk4 = rk3[off + 11 := rk3 ! (off + 3) XOR rk3 ! (off + 10)]
      in if i + 1 \<ge> 7 then rk4
         else (let temp = rk4 ! (off + 11);
                   rk5 = rk4[off + 12 := rk4 ! (off + 4) XOR ct_subword temp];
                   rk6 = rk5[off + 13 := rk5 ! (off + 5) XOR rk5 ! (off + 12)];
                   rk7 = rk6[off + 14 := rk6 ! (off + 6) XOR rk6 ! (off + 13)];
                   rk8 = rk7[off + 15 := rk7 ! (off + 7) XOR rk7 ! (off + 14)]
               in ct_expand256 (i + 1) (off + 8) rk8))"
  by pat_completeness auto
termination
  by (relation "measure (\<lambda>(i, off, rk). 7 - i)") auto

declare ct_expand128.simps [simp del] ct_expand192.simps [simp del] ct_expand256.simps [simp del]

text \<open>\<open>rk[j] = GETU32(userKey + 4 * j)\<close> for \<open>j < n\<close>.\<close>

definition GETU32 :: "bytes \<Rightarrow> nat \<Rightarrow> u32" where
  "GETU32 p o' = be32 (p ! o') (p ! (o' + 1)) (p ! (o' + 2)) (p ! (o' + 3))"

definition load_key_words :: "nat \<Rightarrow> bytes \<Rightarrow> u32 list \<Rightarrow> u32 list" where
  "load_key_words n userKey rk = foldl (\<lambda>rk j. rk[j := GETU32 userKey (4 * j)]) rk [0..<n]"

text \<open>The result code and the key object; a NULL pointer is \<^const>\<open>None\<close>.\<close>

definition qudo_aes_ct_set_encrypt_key ::
  "bytes option \<Rightarrow> int \<Rightarrow> qudo_aes_key_t option \<Rightarrow> int \<times> qudo_aes_key_t option" where
  "qudo_aes_ct_set_encrypt_key userKey bits key =
     (case (userKey, key) of
        (Some k, Some ks) \<Rightarrow>
          if bits \<noteq> 128 \<and> bits \<noteq> 192 \<and> bits \<noteq> 256 then (-2, key)
          else if bits = 128
          then (0, Some (ks\<lparr>rounds := 10, rd_key := ct_expand128 0 0 (load_key_words 4 k (rd_key ks))\<rparr>))
          else if bits = 192
          then (0, Some (ks\<lparr>rounds := 12, rd_key := ct_expand192 0 0 (load_key_words 6 k (rd_key ks))\<rparr>))
          else (0, Some (ks\<lparr>rounds := 14, rd_key := ct_expand256 0 0 (load_key_words 8 k (rd_key ks))\<rparr>))
      | _ \<Rightarrow> (-1, key))"

text \<open>\<open>(u8)((x << 1) ^ (((x >> 7) & 1) * 0x1b))\<close>, computed in \<open>int\<close> and cut to a byte.\<close>

definition xtime :: "u8 \<Rightarrow> u8" where
  "xtime x = push_bit 1 x XOR ((drop_bit 7 x AND 1) * 0x1b)"

text \<open>The 16 state bytes of four words, most significant byte first.\<close>

definition word_bytes :: "u32 list \<Rightarrow> bytes" where
  "word_bytes ws = concat (map be32_bytes ws)"

definition ct_first :: "bytes \<Rightarrow> u32 list \<Rightarrow> bytes" where
  "ct_first inp rk =
     word_bytes [GETU32 inp 0 XOR rk ! 0, GETU32 inp 4 XOR rk ! 1, GETU32 inp 8 XOR rk ! 2, GETU32 inp 12 XOR rk ! 3]"

text \<open>The assignments \<open>state[0] = tmp[0]; ...\<close>: entry \<open>i\<close> is the index read for \<open>state[i]\<close>.\<close>

definition ct_shift :: "bytes \<Rightarrow> bytes" where
  "ct_shift tmp = map ((!) tmp) [0, 5, 10, 15, 4, 9, 14, 3, 8, 13, 2, 7, 12, 1, 6, 11]"

definition ct_mix_column :: "bytes \<Rightarrow> nat \<Rightarrow> bytes" where
  "ct_mix_column state c =
     (let off = c * 4; s0 = state ! off; s1 = state ! (off + 1); s2 = state ! (off + 2); s3 = state ! (off + 3);
          t = s0 XOR s1 XOR s2 XOR s3
      in state[off := s0 XOR xtime (s0 XOR s1) XOR t,
               off + 1 := s1 XOR xtime (s1 XOR s2) XOR t,
               off + 2 := s2 XOR xtime (s2 XOR s3) XOR t,
               off + 3 := s3 XOR xtime (s3 XOR s0) XOR t])"

definition ct_add_key :: "bytes \<Rightarrow> u32 list \<Rightarrow> nat \<Rightarrow> bytes" where
  "ct_add_key state rk r =
     xor_bytes state (word_bytes [rk ! (r * 4), rk ! (r * 4 + 1), rk ! (r * 4 + 2), rk ! (r * 4 + 3)])"

definition ct_round :: "u32 list \<Rightarrow> nat \<Rightarrow> bytes \<Rightarrow> nat \<Rightarrow> bytes" where
  "ct_round rk nr state r =
     (let state1 = ct_shift (map ct_sbox state);
          state2 = (if r < nr then foldl ct_mix_column state1 [0..<4] else state1)
      in ct_add_key state2 rk r)"

definition qudo_aes_ct_encrypt :: "bytes \<Rightarrow> qudo_aes_key_t \<Rightarrow> bytes" where
  "qudo_aes_ct_encrypt inp key =
     foldl (ct_round (rd_key key) (rounds key)) (ct_first inp (rd_key key)) [1..<rounds key + 1]"

section \<open>FIPS 197\<close>

text \<open>Multiplication in GF(2^8) modulo \<open>x^8 + x^4 + x^3 + x + 1\<close>, by the bits of the first factor.\<close>

fun gmul_bits :: "nat \<Rightarrow> u8 \<Rightarrow> u8 \<Rightarrow> u8" where
  "gmul_bits 0 a b = 0"
| "gmul_bits (Suc n) a b =
     (if bit a 0 then b else 0)
       XOR gmul_bits n (drop_bit 1 a) (if bit b 7 then push_bit 1 b XOR 0x1b else push_bit 1 b)"

definition gmul :: "u8 \<Rightarrow> u8 \<Rightarrow> u8" where
  "gmul = gmul_bits 8"

definition rotl8 :: "nat \<Rightarrow> u8 \<Rightarrow> u8" where
  "rotl8 n b = push_bit n b OR drop_bit (8 - n) b"

definition affine :: "u8 \<Rightarrow> u8" where
  "affine b = b XOR rotl8 1 b XOR rotl8 2 b XOR rotl8 3 b XOR rotl8 4 b XOR 0x63"

definition unaffine :: "u8 \<Rightarrow> u8" where
  "unaffine s = rotl8 1 s XOR rotl8 3 s XOR rotl8 6 s XOR 0x05"

text \<open>Section 5.1.1: \<open>s\<close> is the S-box value of \<open>x\<close>, with \<open>b\<close> its inverse (0 for 0).\<close>

definition fips_sbox_rel :: "u8 \<Rightarrow> u8 \<Rightarrow> u8 \<Rightarrow> bool" where
  "fips_sbox_rel x b s \<longleftrightarrow> (if x = 0 then b = 0 else gmul x b = 1) \<and> s = affine b"

definition Sbox :: "u8 \<Rightarrow> u8" where
  "Sbox x = SBOX ! unat x"

definition SubWord :: "u32 \<Rightarrow> u32" where
  "SubWord w = be32 (Sbox (byte_of 24 w)) (Sbox (byte_of 16 w)) (Sbox (byte_of 8 w)) (Sbox (byte_of 0 w))"

definition RotWord :: "u32 \<Rightarrow> u32" where
  "RotWord w = be32 (byte_of 16 w) (byte_of 8 w) (byte_of 0 w) (byte_of 24 w)"

text \<open>\<open>Rcon[j] = [x^(j-1), 0, 0, 0]\<close>.\<close>

primrec xpow :: "nat \<Rightarrow> u8" where
  "xpow 0 = 1"
| "xpow (Suc n) = gmul 2 (xpow n)"

definition Rcon :: "nat \<Rightarrow> u32" where
  "Rcon j = be32 (xpow (j - 1)) 0 0 0"

text \<open>Section 5.2, KEYEXPANSION: word \<open>i\<close> of the schedule for a key of \<open>nk\<close> words.\<close>

fun aes_w :: "nat \<Rightarrow> bytes \<Rightarrow> nat \<Rightarrow> u32" where
  "aes_w nk key i =
     (if nk = 0 \<or> i < nk then GETU32 key (4 * i)
      else aes_w nk key (i - nk) XOR
        (let temp = aes_w nk key (i - 1)
         in if i mod nk = 0 then SubWord (RotWord temp) XOR Rcon (i div nk)
            else if nk > 6 \<and> i mod nk = 4 then SubWord temp else temp))"

declare aes_w.simps [simp del]

text \<open>Section 5.1: byte \<open>r + 4 * c\<close> of a state is \<open>s[r,c]\<close>.\<close>

definition SubBytes :: "bytes \<Rightarrow> bytes" where
  "SubBytes s = map Sbox s"

definition ShiftRows :: "bytes \<Rightarrow> bytes" where
  "ShiftRows s = map (\<lambda>i. s ! (i mod 4 + 4 * ((i div 4 + i mod 4) mod 4))) [0..<16]"

definition MixColumns :: "bytes \<Rightarrow> bytes" where
  "MixColumns s = map (\<lambda>i. let r = i mod 4; c = i div 4; e = (\<lambda>k. s ! ((r + k) mod 4 + 4 * c))
     in gmul 2 (e 0) XOR gmul 3 (e 1) XOR e 2 XOR e 3) [0..<16]"

definition AddRoundKey :: "(nat \<Rightarrow> u32) \<Rightarrow> nat \<Rightarrow> bytes \<Rightarrow> bytes" where
  "AddRoundKey w r s = xor_bytes s (word_bytes (map (\<lambda>c. w (4 * r + c)) [0..<4]))"

definition CIPHER :: "bytes \<Rightarrow> nat \<Rightarrow> (nat \<Rightarrow> u32) \<Rightarrow> bytes" where
  "CIPHER inp nr w =
     (let s = foldl (\<lambda>s r. AddRoundKey w r (MixColumns (ShiftRows (SubBytes s)))) (AddRoundKey w 0 inp) [1..<nr]
      in AddRoundKey w nr (ShiftRows (SubBytes s)))"

text \<open>AES-128, AES-192 and AES-256 encryption of one block.\<close>

definition AES :: "nat \<Rightarrow> bytes \<Rightarrow> bytes \<Rightarrow> bytes" where
  "AES nk key inp = CIPHER inp (nk + 6) (aes_w nk key)"

section \<open>The S-box\<close>

lemma sbox_diff:
  assumes "i < 256"
  shows "drop_bit 8 (((ucast (x::u8) :: u32) XOR of_nat i) - 1) AND 0xFF = (if i = unat x then 0xFF else 0)"
proof (cases "i = unat x")
  case True
  then have "(of_nat i :: u32) = ucast x" by simp
  then show ?thesis using True by (simp add: drop_bit_minus_one mask_eq_exp_minus_1)
next
  case False
  let ?d = "(ucast x :: u32) XOR of_nat i"
  have i: "(of_nat i :: u32) = ucast (of_nat i :: u8)"
    using assms by (simp add: word_eq_iff_unsigned unsigned_of_nat take_bit_nat_eq_self)
  have u: "?d = ucast (x XOR of_nat i)" by (simp add: i unsigned_xor_eq)
  have "x \<noteq> of_nat i" using False assms by (auto simp: unsigned_of_nat take_bit_nat_eq_self)
  then have "x XOR of_nat i \<noteq> 0" by (simp add: xor_eq_0_iff)
  then have "unat (x XOR of_nat i) \<noteq> 0" by (simp only: unat_eq_zero not_False_eq_True)
  moreover have ud: "unat ?d = unat (x XOR of_nat i)" unfolding u by (rule unat_ucast_u8)
  moreover have "unat ?d < 256" by (simp only: ud unat_u8_less)
  ultimately have "?d \<noteq> 0" "unat ?d < 256" by (metis unsigned_0, metis)
  then have "unat (?d - 1) < 256" using unat_minus_one [of ?d] by linarith
  then have "drop_bit 8 (?d - 1) = 0"
    unfolding unat_eq_zero [symmetric] unat_drop_bit_eq by (simp add: drop_bit_eq_div)
  then show ?thesis using False by simp
qed

lemma foldl_select:
  fixes v :: "nat \<Rightarrow> u8"
  shows "foldl (\<lambda>r i. r OR (if i = k then v i else 0)) 0 [0..<n] = (if k < n then v k else 0)"
  by (induction n) auto

lemma ucast_and_FF: "ucast ((ucast (b::u8) :: u32) AND 0xFF) = b"
  by (rule bit_word_eqI) (auto simp: bit_ucast_iff)

lemma ct_sbox_table: "ct_sbox x = SBOX ! unat x"
proof -
  have "ct_sbox x = foldl (\<lambda>r i. r OR (if i = unat x then SBOX ! i else 0)) 0 [0..<256]"
    unfolding ct_sbox_def Let_def
    by (rule foldl_cong) (simp_all add: sbox_diff ucast_and_FF del: upt_rec_numeral)
  also have "\<dots> = SBOX ! unat x" by (simp only: foldl_select) simp
  finally show ?thesis .
qed

lemma gmul_unfold: "gmul a b = gmul_bits (Suc (Suc (Suc (Suc (Suc (Suc (Suc (Suc 0)))))))) a b"
  by (simp add: gmul_def eval_nat_numeral)
definition sbox_entry :: "nat \<Rightarrow> u8 \<Rightarrow> bool" where
  "sbox_entry i s \<longleftrightarrow> fips_sbox_rel (of_nat i) (unaffine s) s"
lemma sbox_fips: "all_from sbox_entry 0 SBOX"
  by (simp add: SBOX_def sbox_entry_def fips_sbox_rel_def gmul_unfold affine_def unaffine_def rotl8_def)

lemma ct_sbox_Sbox: "ct_sbox = Sbox"
  by (rule ext) (simp add: Sbox_def ct_sbox_table)

lemma sbox_fips_rel: "fips_sbox_rel x (unaffine (Sbox x)) (Sbox x)"
proof -
  have "length SBOX = 256" by (simp add: SBOX_def)
  then show ?thesis using all_from_nth [OF sbox_fips, of "unat x"] by (simp add: sbox_entry_def Sbox_def)
qed

section \<open>The key schedule\<close>

lemma ct_subword_SubWord: "ct_subword = SubWord"
  by (rule ext) (simp add: ct_subword_def SubWord_def ct_sbox_Sbox)

lemma ct_rotword_RotWord: "ct_rotword = RotWord"
  by (rule ext, rule bit_word_eqI)
    (auto simp: ct_rotword_def RotWord_def bit_or_iff bit_push_bit_iff bit_drop_bit_eq bit_be32 byte_of_def
      bit_ucast_iff dest: bit_imp_le_length)

lemma rcon_Rcon: "i < 10 \<Longrightarrow> rcon ! i = Rcon (Suc i)"
proof -
  have "all_from (\<lambda>i r. r = Rcon (Suc i)) 0 rcon"
    by (simp add: rcon_def Rcon_def gmul_unfold be32_def)
  then show "i < 10 \<Longrightarrow> rcon ! i = Rcon (Suc i)"
    using all_from_nth [of "\<lambda>i r. r = Rcon (Suc i)" 0 rcon i] by (simp add: rcon_def)
qed

definition ks_ok :: "nat \<Rightarrow> bytes \<Rightarrow> nat \<Rightarrow> u32 list \<Rightarrow> bool" where
  "ks_ok nk key n rk \<longleftrightarrow> length rk = 60 \<and> n \<le> 60 \<and> (\<forall>j<n. rk ! j = aes_w nk key j)"

lemma ks_okD: "ks_ok nk key n rk \<Longrightarrow> j < n \<Longrightarrow> rk ! j = aes_w nk key j"
  by (simp add: ks_ok_def)

lemma ks_ok_step:
  "ks_ok nk key n rk \<Longrightarrow> n < 60 \<Longrightarrow> v = aes_w nk key n \<Longrightarrow> m = Suc n
    \<Longrightarrow> ks_ok nk key m (rk[n := v])"
  by (auto simp: ks_ok_def nth_list_update less_Suc_eq)

text \<open>The three cases of the recursion, and the three ways the code computes the next word.\<close>

lemma aes_w_plain:
  assumes "0 < nk" "nk \<le> n" "n mod nk \<noteq> 0" "\<not> (nk > 6 \<and> n mod nk = 4)"
  shows "aes_w nk key n = aes_w nk key (n - nk) XOR aes_w nk key (n - 1)"
  using assms by (subst aes_w.simps) (auto simp: Let_def)

lemma aes_w_first:
  assumes "0 < nk" "n = nk * Suc i"
  shows "aes_w nk key n = aes_w nk key (n - nk) XOR SubWord (RotWord (aes_w nk key (n - 1))) XOR Rcon (Suc i)"
  using assms by (subst aes_w.simps) (simp add: Let_def)

lemma aes_w_sub:
  assumes "8 \<le> n" "n mod 8 = 4"
  shows "aes_w 8 key n = aes_w 8 key (n - 8) XOR SubWord (aes_w 8 key (n - 1))"
  using assms by (subst aes_w.simps) (simp add: Let_def)

lemma ks_plain:
  assumes "ks_ok nk key n rk" "0 < nk" "nk \<le> n" "n < 60" "n mod nk \<noteq> 0" "\<not> (nk > 6 \<and> n mod nk = 4)"
    and "a = n - nk" "b = n - 1" "m = Suc n"
  shows "ks_ok nk key m (rk[n := rk ! a XOR rk ! b])"
proof (rule ks_ok_step)
  show "rk ! a XOR rk ! b = aes_w nk key n" using assms by (simp add: ks_okD aes_w_plain [of nk n])
qed (use assms in simp_all)

lemma ks_rcon:
  assumes "ks_ok nk key n rk" "0 < nk" "n < 60" "i < 10" "n = nk * Suc i" "a = n - nk" "b = n - 1" "m = Suc n"
  shows "ks_ok nk key m (rk[n := rk ! a XOR ct_subword (ct_rotword (rk ! b)) XOR rcon ! i])"
proof (rule ks_ok_step)
  show "rk ! a XOR ct_subword (ct_rotword (rk ! b)) XOR rcon ! i = aes_w nk key n"
    unfolding aes_w_first [OF assms(2,5)] ct_subword_SubWord ct_rotword_RotWord
    using assms by (simp add: ks_okD rcon_Rcon)
qed (use assms in simp_all)

lemma ks_sub:
  assumes "ks_ok 8 key n rk" "8 \<le> n" "n < 60" "n mod 8 = 4" "a = n - 8" "b = n - 1" "m = Suc n"
  shows "ks_ok 8 key m (rk[n := rk ! a XOR ct_subword (rk ! b)])"
proof (rule ks_ok_step)
  show "rk ! a XOR ct_subword (rk ! b) = aes_w 8 key n"
    unfolding aes_w_sub [OF assms(2,4)] ct_subword_SubWord using assms by (simp add: ks_okD)
qed (use assms in simp_all)

lemma load_key_ok:
  assumes "n \<le> nk" "nk \<le> 60" "length rk = 60"
  shows "ks_ok nk key n (load_key_words n key rk)"
  using assms(1)
proof (induction n)
  case 0
  then show ?case by (simp add: ks_ok_def load_key_words_def assms)
next
  case (Suc n)
  have "ks_ok nk key (Suc n) ((load_key_words n key rk)[n := GETU32 key (4 * n)])"
    using Suc assms by (intro ks_ok_step) (auto simp: aes_w.simps)
  then show ?case by (simp add: load_key_words_def)
qed

lemma ct_expand128_ok:
  assumes "i < 10" "off = 4 * i" "ks_ok 4 key (off + 4) rk"
  shows "ks_ok 4 key 44 (ct_expand128 i off rk)"
  using assms
proof (induction i off rk rule: ct_expand128.induct)
  case (1 i off rk0)
  note P = "1.prems"
  define rk1 where "rk1 = rk0[off + 4 := rk0 ! off XOR ct_subword (ct_rotword (rk0 ! (off + 3))) XOR rcon ! i]"
  define rk2 where "rk2 = rk1[off + 5 := rk1 ! (off + 1) XOR rk1 ! (off + 4)]"
  define rk3 where "rk3 = rk2[off + 6 := rk2 ! (off + 2) XOR rk2 ! (off + 5)]"
  define rk4 where "rk4 = rk3[off + 7 := rk3 ! (off + 3) XOR rk3 ! (off + 6)]"
  have "ks_ok 4 key (off + 5) rk1" unfolding rk1_def
    by (rule ks_rcon) (use P in simp_all)
  then have "ks_ok 4 key (off + 6) rk2" unfolding rk2_def
    by (rule ks_plain) (use P in simp_all)
  then have "ks_ok 4 key (off + 7) rk3" unfolding rk3_def
    by (rule ks_plain) (use P in simp_all)
  then have ok: "ks_ok 4 key (off + 8) rk4" unfolding rk4_def
    by (rule ks_plain) (use P in simp_all)
  have unf: "ct_expand128 i off rk0 = (if i + 1 \<ge> 10 then rk4 else ct_expand128 (i + 1) (off + 4) rk4)"
    by (subst ct_expand128.simps) (simp add: Let_def rk1_def rk2_def rk3_def rk4_def)
  show ?case
  proof (cases "i + 1 \<ge> 10")
    case True
    then have "i = 9" using P by simp
    then show ?thesis using ok unf P by simp
  next
    case False
    then show ?thesis using "1.IH" [OF refl rk1_def rk2_def rk3_def rk4_def] ok unf P by (simp add: add.commute)
  qed
qed

lemma ct_expand192_ok:
  assumes "i < 8" "off = 6 * i" "ks_ok 6 key (off + 6) rk"
  shows "ks_ok 6 key 52 (ct_expand192 i off rk)"
  using assms
proof (induction i off rk rule: ct_expand192.induct)
  case (1 i off rk0)
  note P = "1.prems"
  define rk1 where "rk1 = rk0[off + 6 := rk0 ! off XOR ct_subword (ct_rotword (rk0 ! (off + 5))) XOR rcon ! i]"
  define rk2 where "rk2 = rk1[off + 7 := rk1 ! (off + 1) XOR rk1 ! (off + 6)]"
  define rk3 where "rk3 = rk2[off + 8 := rk2 ! (off + 2) XOR rk2 ! (off + 7)]"
  define rk4 where "rk4 = rk3[off + 9 := rk3 ! (off + 3) XOR rk3 ! (off + 8)]"
  define rk5 where "rk5 = rk4[off + 10 := rk4 ! (off + 4) XOR rk4 ! (off + 9)]"
  define rk6 where "rk6 = rk5[off + 11 := rk5 ! (off + 5) XOR rk5 ! (off + 10)]"
  have "ks_ok 6 key (off + 7) rk1" unfolding rk1_def
    by (rule ks_rcon) (use P in simp_all)
  then have "ks_ok 6 key (off + 8) rk2" unfolding rk2_def
    by (rule ks_plain) (use P in simp_all)
  then have "ks_ok 6 key (off + 9) rk3" unfolding rk3_def
    by (rule ks_plain) (use P in simp_all)
  then have ok: "ks_ok 6 key (off + 10) rk4" unfolding rk4_def
    by (rule ks_plain) (use P in simp_all)
  have unf: "ct_expand192 i off rk0 = (if i + 1 \<ge> 8 then rk4 else ct_expand192 (i + 1) (off + 6) rk6)"
    by (subst ct_expand192.simps) (simp add: Let_def rk1_def rk2_def rk3_def rk4_def rk5_def rk6_def)
  show ?case
  proof (cases "i + 1 \<ge> 8")
    case True
    then have "i = 7" using P by simp
    then show ?thesis using ok unf P by simp
  next
    case False
    from ok have "ks_ok 6 key (off + 11) rk5" unfolding rk5_def
      by (rule ks_plain) (use P False in simp_all)
    then have "ks_ok 6 key (off + 12) rk6" unfolding rk6_def
      by (rule ks_plain) (use P False in simp_all)
    then show ?thesis using False "1.IH" [OF refl rk1_def rk2_def rk3_def rk4_def _ rk5_def rk6_def] unf P by (simp add: add.commute)
  qed
qed

lemma ct_expand256_ok:
  assumes "i < 7" "off = 8 * i" "ks_ok 8 key (off + 8) rk"
  shows "ks_ok 8 key 60 (ct_expand256 i off rk)"
  using assms
proof (induction i off rk rule: ct_expand256.induct)
  case (1 i off rk0)
  note P = "1.prems"
  define rk1 where "rk1 = rk0[off + 8 := rk0 ! off XOR ct_subword (ct_rotword (rk0 ! (off + 7))) XOR rcon ! i]"
  define rk2 where "rk2 = rk1[off + 9 := rk1 ! (off + 1) XOR rk1 ! (off + 8)]"
  define rk3 where "rk3 = rk2[off + 10 := rk2 ! (off + 2) XOR rk2 ! (off + 9)]"
  define rk4 where "rk4 = rk3[off + 11 := rk3 ! (off + 3) XOR rk3 ! (off + 10)]"
  define rk5 where "rk5 = rk4[off + 12 := rk4 ! (off + 4) XOR ct_subword (rk4 ! (off + 11))]"
  define rk6 where "rk6 = rk5[off + 13 := rk5 ! (off + 5) XOR rk5 ! (off + 12)]"
  define rk7 where "rk7 = rk6[off + 14 := rk6 ! (off + 6) XOR rk6 ! (off + 13)]"
  define rk8 where "rk8 = rk7[off + 15 := rk7 ! (off + 7) XOR rk7 ! (off + 14)]"
  have "ks_ok 8 key (off + 9) rk1" unfolding rk1_def
    by (rule ks_rcon) (use P in simp_all)
  then have "ks_ok 8 key (off + 10) rk2" unfolding rk2_def
    by (rule ks_plain) (use P in simp_all)
  then have "ks_ok 8 key (off + 11) rk3" unfolding rk3_def
    by (rule ks_plain) (use P in simp_all)
  then have ok: "ks_ok 8 key (off + 12) rk4" unfolding rk4_def
    by (rule ks_plain) (use P in simp_all)
  have unf: "ct_expand256 i off rk0 = (if i + 1 \<ge> 7 then rk4 else ct_expand256 (i + 1) (off + 8) rk8)"
    by (subst ct_expand256.simps) (simp add: Let_def rk1_def rk2_def rk3_def rk4_def rk5_def rk6_def rk7_def rk8_def)
  show ?case
  proof (cases "i + 1 \<ge> 7")
    case True
    then have "i = 6" using P by simp
    then show ?thesis using ok unf P by simp
  next
    case False
    from ok have "ks_ok 8 key (off + 13) rk5" unfolding rk5_def
      by (rule ks_sub) (use P False in simp_all)
    then have "ks_ok 8 key (off + 14) rk6" unfolding rk6_def
      by (rule ks_plain) (use P False in simp_all)
    then have "ks_ok 8 key (off + 15) rk7" unfolding rk7_def
      by (rule ks_plain) (use P False in simp_all)
    then have "ks_ok 8 key (off + 16) rk8" unfolding rk8_def
      by (rule ks_plain) (use P False in simp_all)
    then show ?thesis using False "1.IH" [OF refl rk1_def rk2_def rk3_def rk4_def _ refl rk5_def rk6_def rk7_def rk8_def] unf P by (simp add: add.commute)
  qed
qed

definition aes_key_ok :: "nat \<Rightarrow> bytes \<Rightarrow> qudo_aes_key_t \<Rightarrow> bool" where
  "aes_key_ok nk key ks \<longleftrightarrow> rounds ks = nk + 6 \<and> ks_ok nk key (4 * (nk + 7)) (rd_key ks)"

lemma ct_set_key_ok:
  assumes "nk \<in> {4, 6, 8}" "length (rd_key ks) = 60"
  obtains ks' where "qudo_aes_ct_set_encrypt_key (Some key) (32 * int nk) (Some ks) = (0, Some ks')"
    "aes_key_ok nk key ks'"
proof -
  have "ks_ok nk key nk (load_key_words nk key (rd_key ks))"
    using assms by (intro load_key_ok) auto
  then show thesis
    using assms(1) that ct_expand128_ok [of 0 0 key] ct_expand192_ok [of 0 0 key] ct_expand256_ok [of 0 0 key]
    by (auto simp: qudo_aes_ct_set_encrypt_key_def aes_key_ok_def)
qed

section \<open>Encryption\<close>

lemma xtime_gmul: "gmul 2 x = xtime x" "gmul 3 x = xtime x XOR x"
proof -
  have "drop_bit 7 x AND 1 = of_bool (bit x 7)"
    by (simp add: bit_iff_odd_drop_bit and_one_eq mod_2_eq_odd)
  then have x: "xtime x = (if bit x 7 then push_bit 1 x XOR 0x1b else push_bit 1 x)"
    by (simp add: xtime_def)
  show "gmul 2 x = xtime x" "gmul 3 x = xtime x XOR x"
    by (simp_all add: x gmul_unfold xor.commute)
qed

lemma xtime_xor: "xtime (a XOR b) = xtime a XOR xtime b"
proof -
  have x: "xtime c = push_bit 1 c XOR (if bit c 7 then 0x1b else 0)" for c
    by (simp add: xtime_def bit_iff_odd_drop_bit and_one_eq mod_2_eq_odd)
  show ?thesis
    by (rule bit_word_eqI) (auto simp: x bit_xor_iff bit_push_bit_iff)
qed

lemma mix_entry:
  fixes a b c d :: u8
  defines "t \<equiv> a XOR b XOR c XOR d"
  shows "a XOR xtime (a XOR b) XOR t = gmul 2 a XOR gmul 3 b XOR c XOR d"
    and "b XOR xtime (b XOR c) XOR t = gmul 2 b XOR gmul 3 c XOR d XOR a"
    and "c XOR xtime (c XOR d) XOR t = gmul 2 c XOR gmul 3 d XOR a XOR b"
    and "d XOR xtime (d XOR a) XOR t = gmul 2 d XOR gmul 3 a XOR b XOR c"
  by (rule bit_word_eqI, auto simp: t_def xtime_gmul xtime_xor bit_xor_iff)+

lemma list16_cases:
  assumes "length s = 16"
  obtains a b c d e f g h i j k l m n p q where "s = [a, b, c, d, e, f, g, h, i, j, k, l, m, n, p, q]"
  using assms by (auto simp: numeral_eq_Suc length_Suc_conv)

lemma ct_shift_ShiftRows: "length s = 16 \<Longrightarrow> ct_shift s = ShiftRows s"
  by (simp add: ct_shift_def ShiftRows_def upt_rec)

lemma ct_mix_MixColumns: "length s = 16 \<Longrightarrow> foldl ct_mix_column s [0..<4] = MixColumns s"
  by (erule list16_cases) (simp add: ct_mix_column_def MixColumns_def mix_entry upt_rec Let_def)

lemma length_spec [simp]:
  "length (ShiftRows s) = 16" "length (MixColumns s) = 16" "length (SubBytes s) = length s"
  "length (word_bytes ws) = 4 * length ws"
  by (simp_all add: ShiftRows_def MixColumns_def SubBytes_def word_bytes_def length_concat_be32_bytes)

lemma length_AddRoundKey [simp]: "length (AddRoundKey w r s) = min (length s) 16"
  by (simp add: AddRoundKey_def)

lemma ct_add_key_AddRoundKey: "\<forall>j < 4 * Suc r. rk ! j = w j \<Longrightarrow> ct_add_key s rk r = AddRoundKey w r s"
  by (simp add: ct_add_key_def AddRoundKey_def upt_rec mult.commute numeral_3_eq_3)

lemma ct_first_AddRoundKey:
  "length inp = 16 \<Longrightarrow> \<forall>j < 4. rk ! j = w j \<Longrightarrow> ct_first inp rk = AddRoundKey w 0 inp"
  by (erule list16_cases)
    (simp add: ct_first_def AddRoundKey_def upt_rec word_bytes_def GETU32_def be32_bytes_def byte_of_xor numeral_2_eq_2 numeral_3_eq_3)

lemma ct_round_spec:
  assumes "length s = 16" "\<forall>j < 4 * Suc r. rk ! j = w j"
  shows "ct_round rk nr s r = AddRoundKey w r ((if r < nr then MixColumns else id) (ShiftRows (SubBytes s)))"
  using assms
  by (simp add: ct_round_def ct_sbox_Sbox SubBytes_def [symmetric] ct_shift_ShiftRows ct_mix_MixColumns
      ct_add_key_AddRoundKey Let_def del: upt_rec_numeral)

lemma foldl_ct_round:
  assumes "length s = 16" "\<forall>j < 4 * n. rk ! j = w j" "n \<le> nr"
  shows "foldl (ct_round rk nr) s [1..<n]
     = foldl (\<lambda>s r. AddRoundKey w r (MixColumns (ShiftRows (SubBytes s)))) s [1..<n]
   \<and> length (foldl (\<lambda>s r. AddRoundKey w r (MixColumns (ShiftRows (SubBytes s)))) s [1..<n]) = 16"
  using assms by (induction n) (simp_all add: ct_round_spec [where w = w])

lemma ct_encrypt_CIPHER:
  assumes "length inp = 16" "rounds ks > 0" "\<forall>j < 4 * (rounds ks + 1). rd_key ks ! j = w j"
  shows "qudo_aes_ct_encrypt inp ks = CIPHER inp (rounds ks) w"
  using assms foldl_ct_round [of "AddRoundKey w 0 inp" "rounds ks" "rd_key ks" w "rounds ks"]
  by (simp add: qudo_aes_ct_encrypt_def CIPHER_def ct_first_AddRoundKey [where w = w] ct_round_spec [where w = w] Let_def)

lemma ct_encrypt_AES:
  "length inp = 16 \<Longrightarrow> aes_key_ok nk key ks \<Longrightarrow> qudo_aes_ct_encrypt inp ks = AES nk key inp"
  using ct_encrypt_CIPHER [of inp ks "aes_w nk key"] by (simp add: aes_key_ok_def ks_ok_def AES_def)

lemma length_AES [simp]: "length (AES nk key inp) = 16"
  by (simp add: AES_def CIPHER_def Let_def)

section \<open>Properties\<close>

text \<open>
  C11: the S-box the code scans with a mask is the one of FIPS 197 section 5.1.1: for every byte
  the value is the affine image of the multiplicative inverse in GF(2^8), 0 standing for its own.
\<close>

theorem ct_sbox_is_fips: "fips_sbox_rel x (unaffine (ct_sbox x)) (ct_sbox x)"
  by (simp add: ct_sbox_Sbox sbox_fips_rel)

text \<open>
  C12: for a key of 128, 192 or 256 bits the table-free key schedule succeeds, and encryption
  under its result is AES of FIPS 197.
\<close>

theorem ct_aes_is_fips:
  assumes "nk \<in> {4, 6, 8}" "length (rd_key ks) = 60" "length inp = 16"
  shows "case qudo_aes_ct_set_encrypt_key (Some key) (32 * int nk) (Some ks) of
      (rc, Some ks') \<Rightarrow> rc = 0 \<and> qudo_aes_ct_encrypt inp ks' = AES nk key inp
    | _ \<Rightarrow> False"
proof -
  obtain ks' where "qudo_aes_ct_set_encrypt_key (Some key) (32 * int nk) (Some ks) = (0, Some ks')"
    and "aes_key_ok nk key ks'" by (rule ct_set_key_ok [OF assms(1,2)])
  then show ?thesis by (simp add: ct_encrypt_AES [OF assms(3)])
qed

theorem ct_aes_is_fips_witness:
  "case qudo_aes_ct_set_encrypt_key (Some (replicate 32 1)) (32 * int 8) (Some \<lparr>rd_key = replicate 60 0, rounds = 0\<rparr>) of
      (rc, Some ks') \<Rightarrow> rc = 0 \<and> qudo_aes_ct_encrypt (replicate 16 2) ks' = AES 8 (replicate 32 1) (replicate 16 2)
    | _ \<Rightarrow> False"
  by (rule ct_aes_is_fips) simp_all

text \<open>
  The key schedule rejects NULL pointers with -1 and any other key size with -2, and leaves
  the key object alone.
\<close>

theorem ct_set_key_errors:
  "qudo_aes_ct_set_encrypt_key None bits key = (-1, key)
   \<and> qudo_aes_ct_set_encrypt_key uk bits None = (-1, None)
   \<and> (if bits \<in> {128, 192, 256} then True
      else qudo_aes_ct_set_encrypt_key (Some k) bits (Some ks) = (-2, Some ks))"
  by (cases uk) (auto simp: qudo_aes_ct_set_encrypt_key_def)

end
