(* ===== verification/AesNi.thy ===== *)
theory AesNi
  imports AesTt
begin

text \<open>
  The AES of \<open>src/qudo-pqc-lib/src/fips/qudo_fips_aes_ni.c\<close> on the x86 AES instructions, and the
  dispatch of \<open>qudo_fips_aes.c\<close> between it and the table-free code.  A 128-bit register is
  four 32-bit lanes, lane 0 the least significant; the intrinsics have the meaning Intel's manual
  gives them, which defines \<open>AESENC\<close> by the transformations of FIPS 197.  On these
  machines a word of \<open>rd_key\<close> is stored with its least significant byte first, so the schedule
  holds the words of FIPS 197 with their bytes swapped.

  The key loads read 16 bytes each: a 192-bit key is read from \<open>userKey + 16\<close> on for 16 bytes,
  of which the last 8 lie behind the key.  They are the second half of \<open>temp2\<close>, and the
  theorems hold whatever they are.
\<close>

section \<open>Registers and instructions\<close>

datatype m128 = M128 (d0: u32) (d1: u32) (d2: u32) (d3: u32)

definition le32 :: "bytes \<Rightarrow> nat \<Rightarrow> u32" where
  "le32 p o' = be32 (p ! (o' + 3)) (p ! (o' + 2)) (p ! (o' + 1)) (p ! o')"

definition mm_loadu :: "bytes \<Rightarrow> nat \<Rightarrow> m128" where
  "mm_loadu p o' = M128 (le32 p o') (le32 p (o' + 4)) (le32 p (o' + 8)) (le32 p (o' + 12))"

definition m_bytes :: "m128 \<Rightarrow> bytes" where
  "m_bytes a = rev (be32_bytes (d0 a)) @ rev (be32_bytes (d1 a)) @ rev (be32_bytes (d2 a)) @ rev (be32_bytes (d3 a))"

definition mm_xor :: "m128 \<Rightarrow> m128 \<Rightarrow> m128" where
  "mm_xor a b = M128 (d0 a XOR d0 b) (d1 a XOR d1 b) (d2 a XOR d2 b) (d3 a XOR d3 b)"

text \<open>\<open>_mm_slli_si128(a, 4)\<close>, \<open>_mm_shuffle_epi32(a, imm)\<close> and \<open>_mm_shuffle_pd(a, b, imm)\<close>.\<close>

definition mm_slli4 :: "m128 \<Rightarrow> m128" where
  "mm_slli4 a = M128 0 (d0 a) (d1 a) (d2 a)"

definition mm_lane :: "m128 \<Rightarrow> nat \<Rightarrow> u32" where
  "mm_lane a i = (if i = 0 then d0 a else if i = 1 then d1 a else if i = 2 then d2 a else d3 a)"

definition mm_shuffle_epi32 :: "m128 \<Rightarrow> nat \<Rightarrow> m128" where
  "mm_shuffle_epi32 a imm =
     M128 (mm_lane a (imm mod 4)) (mm_lane a (imm div 4 mod 4)) (mm_lane a (imm div 16 mod 4)) (mm_lane a (imm div 64 mod 4))"

definition mm_shuffle_pd :: "m128 \<Rightarrow> m128 \<Rightarrow> nat \<Rightarrow> m128" where
  "mm_shuffle_pd a b imm =
     (if even imm then (\<lambda>(x, y). M128 (d0 a) (d1 a) x y) else (\<lambda>(x, y). M128 (d2 a) (d3 a) x y))
       (if even (imm div 2) then (d0 b, d1 b) else (d2 b, d3 b))"

definition mm_aeskeygenassist :: "m128 \<Rightarrow> u8 \<Rightarrow> m128" where
  "mm_aeskeygenassist a imm =
     M128 (SubWord (d1 a)) (word_rotr 8 (SubWord (d1 a)) XOR ucast imm)
          (SubWord (d3 a)) (word_rotr 8 (SubWord (d3 a)) XOR ucast imm)"

definition mm_aesenc :: "m128 \<Rightarrow> m128 \<Rightarrow> m128" where
  "mm_aesenc a k = mm_xor (mm_loadu (MixColumns (ShiftRows (SubBytes (m_bytes a)))) 0) k"

definition mm_aesenclast :: "m128 \<Rightarrow> m128 \<Rightarrow> m128" where
  "mm_aesenclast a k = mm_xor (mm_loadu (ShiftRows (SubBytes (m_bytes a))) 0) k"

section \<open>The code\<close>

text \<open>\<open>rk[i]\<close> of \<open>__m128i *rk = (__m128i *)key->rd_key\<close>.\<close>

definition rk_get :: "u32 list \<Rightarrow> nat \<Rightarrow> m128" where
  "rk_get rk i = M128 (rk ! (4 * i)) (rk ! (4 * i + 1)) (rk ! (4 * i + 2)) (rk ! (4 * i + 3))"

definition rk_set :: "u32 list \<Rightarrow> nat \<Rightarrow> m128 \<Rightarrow> u32 list" where
  "rk_set rk i a = rk[4 * i := d0 a, 4 * i + 1 := d1 a, 4 * i + 2 := d2 a, 4 * i + 3 := d3 a]"

text \<open>The three shifted exclusive ors all helpers share.\<close>

definition ni_spread :: "m128 \<Rightarrow> m128" where
  "ni_spread a =
     (let t = mm_slli4 a; a = mm_xor a t; t = mm_slli4 t; a = mm_xor a t; t = mm_slli4 t in mm_xor a t)"

definition aes_128_assist :: "m128 \<Rightarrow> m128 \<Rightarrow> m128" where
  "aes_128_assist temp1 temp2 = mm_xor (ni_spread temp1) (mm_shuffle_epi32 temp2 0xff)"

definition aes_192_assist :: "m128 \<Rightarrow> m128 \<Rightarrow> m128 \<Rightarrow> m128 \<times> m128" where
  "aes_192_assist temp1 temp2 temp3 =
     (let temp3 = mm_shuffle_epi32 temp3 0x55;
          temp1 = mm_xor (ni_spread temp1) temp3;
          temp3 = mm_shuffle_epi32 temp1 0xff;
          temp4 = mm_slli4 temp2;
          temp2 = mm_xor temp2 temp4
      in (temp1, mm_xor temp2 temp3))"

definition aes_256_assist_1 :: "m128 \<Rightarrow> m128 \<Rightarrow> m128" where
  "aes_256_assist_1 temp1 temp2 = mm_xor (ni_spread temp1) (mm_shuffle_epi32 temp2 0xff)"

definition aes_256_assist_2 :: "m128 \<Rightarrow> m128 \<Rightarrow> m128" where
  "aes_256_assist_2 temp1 temp3 =
     mm_xor (ni_spread temp3) (mm_shuffle_epi32 (mm_aeskeygenassist temp1 0) 0xaa)"

text \<open>\<open>rk[i] = temp1 = aes_128_assist(temp1, _mm_aeskeygenassist_si128(temp1, imm))\<close>.\<close>

definition ni_step128 :: "m128 \<times> u32 list \<Rightarrow> nat \<times> u8 \<Rightarrow> m128 \<times> u32 list" where
  "ni_step128 s x =
     (case (s, x) of ((temp1, rk), (i, imm)) \<Rightarrow>
        let temp1 = aes_128_assist temp1 (mm_aeskeygenassist temp1 imm) in (temp1, rk_set rk i temp1))"

definition ni_expand128 :: "bytes \<Rightarrow> u32 list \<Rightarrow> u32 list" where
  "ni_expand128 userKey rk =
     (let temp1 = mm_loadu userKey 0
      in snd (foldl ni_step128 (temp1, rk_set rk 0 temp1)
           [(1, 0x01), (2, 0x02), (3, 0x04), (4, 0x08), (5, 0x10), (6, 0x20), (7, 0x40), (8, 0x80),
            (9, 0x1b), (10, 0x36)]))"

text \<open>
  The two kinds of step of the 192-bit schedule: the first completes \<open>rk[i]\<close> and writes
  \<open>rk[i + 1]\<close>, the second writes \<open>rk[i]\<close> and the first half of \<open>rk[i + 1]\<close>.
\<close>

definition ni_step192a :: "m128 \<times> m128 \<times> u32 list \<Rightarrow> nat \<Rightarrow> u8 \<Rightarrow> m128 \<times> m128 \<times> u32 list" where
  "ni_step192a s i imm =
     (case s of (temp1, temp2, rk) \<Rightarrow>
        let (temp1, temp2) = aes_192_assist temp1 temp2 (mm_aeskeygenassist temp2 imm);
            rk = rk_set rk i (mm_shuffle_pd (rk_get rk i) temp1 0);
            rk = rk_set rk (i + 1) (mm_shuffle_pd temp1 temp2 1)
        in (temp1, temp2, rk))"

definition ni_step192b :: "m128 \<times> m128 \<times> u32 list \<Rightarrow> nat \<Rightarrow> u8 \<Rightarrow> m128 \<times> m128 \<times> u32 list" where
  "ni_step192b s i imm =
     (case s of (temp1, temp2, rk) \<Rightarrow>
        let (temp1, temp2) = aes_192_assist temp1 temp2 (mm_aeskeygenassist temp2 imm)
        in (temp1, temp2, rk_set (rk_set rk i temp1) (i + 1) temp2))"

definition ni_expand192 :: "bytes \<Rightarrow> u32 list \<Rightarrow> u32 list" where
  "ni_expand192 userKey rk =
     (let temp1 = mm_loadu userKey 0; temp2 = mm_loadu userKey 16;
          s = (temp1, temp2, rk_set (rk_set rk 0 temp1) 1 temp2);
          s = ni_step192b (ni_step192a s 1 0x01) 3 0x02;
          s = ni_step192b (ni_step192a s 4 0x04) 6 0x08;
          s = ni_step192b (ni_step192a s 7 0x10) 9 0x20;
          (temp1, temp2, rk) = ni_step192a s 10 0x40;
          (temp1, temp2) = aes_192_assist temp1 temp2 (mm_aeskeygenassist temp2 0x80)
      in rk_set rk 12 temp1)"

definition ni_step256 :: "m128 \<times> m128 \<times> u32 list \<Rightarrow> nat \<times> u8 \<Rightarrow> m128 \<times> m128 \<times> u32 list" where
  "ni_step256 s x =
     (case (s, x) of ((temp1, temp3, rk), (i, imm)) \<Rightarrow>
        let temp1 = aes_256_assist_1 temp1 (mm_aeskeygenassist temp3 imm);
            rk = rk_set rk i temp1;
            temp3 = aes_256_assist_2 temp1 temp3
        in (temp1, temp3, rk_set rk (i + 1) temp3))"

definition ni_expand256 :: "bytes \<Rightarrow> u32 list \<Rightarrow> u32 list" where
  "ni_expand256 userKey rk =
     (let temp1 = mm_loadu userKey 0; temp3 = mm_loadu userKey 16;
          (temp1, temp3, rk) = foldl ni_step256 (temp1, temp3, rk_set (rk_set rk 0 temp1) 1 temp3)
             [(2, 0x01), (4, 0x02), (6, 0x04), (8, 0x08), (10, 0x10), (12, 0x20)];
          temp1 = aes_256_assist_1 temp1 (mm_aeskeygenassist temp3 0x40)
      in rk_set rk 14 temp1)"

definition qudo_aes_ni_set_encrypt_key ::
  "bytes option \<Rightarrow> int \<Rightarrow> qudo_aes_key_t option \<Rightarrow> int \<times> qudo_aes_key_t option" where
  "qudo_aes_ni_set_encrypt_key userKey bits key =
     (case (userKey, key) of
        (Some k, Some ks) \<Rightarrow>
          if bits \<noteq> 128 \<and> bits \<noteq> 192 \<and> bits \<noteq> 256 then (-2, key)
          else if bits = 128 then (0, Some (ks\<lparr>rounds := 10, rd_key := ni_expand128 k (rd_key ks)\<rparr>))
          else if bits = 192 then (0, Some (ks\<lparr>rounds := 12, rd_key := ni_expand192 k (rd_key ks)\<rparr>))
          else (0, Some (ks\<lparr>rounds := 14, rd_key := ni_expand256 k (rd_key ks)\<rparr>))
      | _ \<Rightarrow> (-1, key))"

definition qudo_aes_ni_encrypt :: "bytes \<Rightarrow> qudo_aes_key_t \<Rightarrow> bytes" where
  "qudo_aes_ni_encrypt inp key =
     (let rk = rd_key key; nr = rounds key;
          block = mm_xor (mm_loadu inp 0) (rk_get rk 0);
          block = foldl (\<lambda>b i. mm_aesenc b (rk_get rk i)) block [1, 2, 3, 4, 5, 6, 7, 8, 9];
          block = (if nr > 10 then foldl (\<lambda>b i. mm_aesenc b (rk_get rk i)) block [10, 11] else block);
          block = (if nr > 12 then foldl (\<lambda>b i. mm_aesenc b (rk_get rk i)) block [12, 13] else block);
          block = mm_aesenclast block (rk_get rk nr)
      in m_bytes block)"

text \<open>
  \<open>qudo_fips_aes.c\<close>: the value of \<open>g_aes_dispatch\<close> after \<open>qudo_aes_init_dispatch\<close>, given the
  answer \<open>aesni\<close> of the CPU.  The variable is 0 at the start and written nowhere else, so every
  call finds the value computed from 0.
\<close>

definition qudo_aes_init_dispatch :: "bool \<Rightarrow> int \<Rightarrow> int" where
  "qudo_aes_init_dispatch aesni g = (if g \<noteq> 0 then g else if aesni then 1 else 2)"

definition qudo_aes_set_encrypt_key ::
  "bool \<Rightarrow> bytes option \<Rightarrow> int \<Rightarrow> qudo_aes_key_t option \<Rightarrow> int \<times> qudo_aes_key_t option" where
  "qudo_aes_set_encrypt_key aesni key bits ctx =
     (case (key, ctx) of
        (Some k, Some c) \<Rightarrow>
          if bits \<noteq> 128 \<and> bits \<noteq> 192 \<and> bits \<noteq> 256 then (-2, ctx)
          else (let c = \<lparr>rd_key = replicate 60 0, rounds = 0\<rparr>
                in if qudo_aes_init_dispatch aesni 0 = 1
                   then qudo_aes_ni_set_encrypt_key key bits (Some c)
                   else qudo_aes_ct_set_encrypt_key key bits (Some c))
      | _ \<Rightarrow> (-1, ctx))"

definition qudo_aes_encrypt :: "bool \<Rightarrow> bytes \<Rightarrow> qudo_aes_key_t \<Rightarrow> bytes" where
  "qudo_aes_encrypt aesni inp key =
     (if qudo_aes_init_dispatch aesni 0 = 1 then qudo_aes_ni_encrypt inp key else qudo_aes_ct_encrypt inp key)"

section \<open>Byte-swapped words\<close>

definition bsw :: "u32 \<Rightarrow> u32" where
  "bsw x = be32 (byte_of 0 x) (byte_of 8 x) (byte_of 16 x) (byte_of 24 x)"

lemma bsw_be32 [simp]: "bsw (be32 a b c d) = be32 d c b a"
  by (simp add: bsw_def)

lemma bsw_bsw [simp]: "bsw (bsw x) = x"
  by (simp add: bsw_def)

lemma bsw_xor: "bsw (x XOR y) = bsw x XOR bsw y"
  by (simp add: bsw_def byte_of_xor be32_xor)

lemma be32_cases:
  obtains a b c d where "x = be32 a b c d"
  using be32_of_bytes [of x] by metis

lemma SubWord_bsw: "SubWord (bsw x) = bsw (SubWord x)"
  by (simp add: SubWord_def bsw_def)

lemma rotr8_be32: "word_rotr 8 (be32 a b c d) = be32 d a b c"
proof (rule bit_word_eqI)
  fix n assume n: "n < LENGTH(32)"
  have "(n + 8) mod 32 = (if n < 24 then n + 8 else n - 24)"
    using n mod_add_self2 [of "n - 24" 32] by (cases "n < 24") (simp_all add: add.commute)
  then show "bit (word_rotr 8 (be32 a b c d)) n = bit (be32 d a b c) n"
    using n by (auto simp: bit_word_rotr_iff bit_be32)
qed

lemma rotr8_bsw: "word_rotr 8 (bsw x) = bsw (RotWord x)"
  by (rule be32_cases [of x]) (simp add: rotr8_be32 RotWord_def)

lemma SubWord_RotWord: "SubWord (RotWord x) = RotWord (SubWord x)"
  by (simp add: SubWord_def RotWord_def)

lemma ucast_be32: "(ucast (b::u8) :: u32) = be32 0 0 0 b"
  by (simp add: be32_def)

definition mw :: "u32 \<Rightarrow> u32 \<Rightarrow> u32 \<Rightarrow> u32 \<Rightarrow> m128" where
  "mw a b c d = M128 (bsw a) (bsw b) (bsw c) (bsw d)"

lemma mw_exhaust: "M128 (bsw a) (bsw b) c d = mw a b (bsw c) (bsw d)"
  by (simp add: mw_def)

lemma keygen_mw:
  "mm_aeskeygenassist (mw a b c d) imm =
     mw (SubWord b) (SubWord (RotWord b) XOR be32 imm 0 0 0) (SubWord d) (SubWord (RotWord d) XOR be32 imm 0 0 0)"
  by (simp add: mm_aeskeygenassist_def mw_def SubWord_bsw rotr8_bsw SubWord_RotWord bsw_xor ucast_be32)

lemma xor_mw: "mm_xor (mw a b c d) (mw a' b' c' d') = mw (a XOR a') (b XOR b') (c XOR c') (d XOR d')"
  by (simp add: mm_xor_def mw_def bsw_xor)

lemma spread_mw: "ni_spread (mw a b c d) = mw a (b XOR a) (c XOR b XOR a) (d XOR c XOR b XOR a)"
  by (simp add: ni_spread_def mm_xor_def mm_slli4_def mw_def bsw_xor Let_def xor.assoc)

lemma shuffle_mw:
  "mm_shuffle_epi32 (mw a b c d) 0xff = mw d d d d" "mm_shuffle_epi32 (mw a b c d) 0xaa = mw c c c c"
  "mm_shuffle_epi32 (mw a b c d) 0x55 = mw b b b b"
  by (simp_all add: mm_shuffle_epi32_def mm_lane_def mw_def)

lemmas ni_mw = keygen_mw xor_mw spread_mw shuffle_mw

text \<open>The helpers on consecutive words of the schedule.\<close>

lemma assist128:
  fixes key :: bytes
  assumes "Rcon (Suc i) = be32 imm 0 0 0" "n = 4 * i"
  defines "w \<equiv> aes_w 4 key"
  shows "aes_128_assist (mw (w n) (w (n + 1)) (w (n + 2)) (w (n + 3)))
      (mm_aeskeygenassist (mw (w n) (w (n + 1)) (w (n + 2)) (w (n + 3))) imm)
    = mw (w (n + 4)) (w (n + 5)) (w (n + 6)) (w (n + 7))"
proof -
  have "w (n + 4) = w n XOR SubWord (RotWord (w (n + 3))) XOR be32 imm 0 0 0"
    "w (n + 5) = w (n + 1) XOR w (n + 4)" "w (n + 6) = w (n + 2) XOR w (n + 5)" "w (n + 7) = w (n + 3) XOR w (n + 6)"
    unfolding w_def using aes_w_first [of 4 "n + 4" i key] assms(1,2)
      aes_w_plain [of 4 "n + 5" key] aes_w_plain [of 4 "n + 6" key] aes_w_plain [of 4 "n + 7" key]
    by (simp_all add: ac_simps)
  then show ?thesis by (simp add: aes_128_assist_def ni_mw ac_simps)
qed

lemma assist192:
  fixes key :: bytes
  assumes "Rcon (Suc i) = be32 imm 0 0 0" "n = 6 * i"
  defines "w \<equiv> aes_w 6 key"
  shows "\<exists>x' y'. aes_192_assist (mw (w n) (w (n + 1)) (w (n + 2)) (w (n + 3))) (mw (w (n + 4)) (w (n + 5)) x y)
      (mm_aeskeygenassist (mw (w (n + 4)) (w (n + 5)) x y) imm)
    = (mw (w (n + 6)) (w (n + 7)) (w (n + 8)) (w (n + 9)), mw (w (n + 10)) (w (n + 11)) x' y')"
proof -
  have "w (n + 6) = w n XOR SubWord (RotWord (w (n + 5))) XOR be32 imm 0 0 0"
    "w (n + 7) = w (n + 1) XOR w (n + 6)" "w (n + 8) = w (n + 2) XOR w (n + 7)" "w (n + 9) = w (n + 3) XOR w (n + 8)"
    "w (n + 10) = w (n + 4) XOR w (n + 9)" "w (n + 11) = w (n + 5) XOR w (n + 10)"
    unfolding w_def using aes_w_first [of 6 "n + 6" i key] assms(1,2)
      aes_w_plain [of 6 "n + 7" key] aes_w_plain [of 6 "n + 8" key] aes_w_plain [of 6 "n + 9" key]
      aes_w_plain [of 6 "n + 10" key] aes_w_plain [of 6 "n + 11" key]
    by (simp_all add: ac_simps)
  moreover have "mm_xor (mw a b c d) (mm_slli4 (mw a b c d)) = mw a (b XOR a) (c XOR b) (d XOR c)" for a b c d
    by (simp add: mm_xor_def mm_slli4_def mw_def bsw_xor)
  ultimately show ?thesis by (simp add: aes_192_assist_def ni_mw Let_def ac_simps) blast
qed

lemma assist256:
  fixes key :: bytes
  assumes "Rcon (Suc i) = be32 imm 0 0 0" "n = 8 * i"
  defines "w \<equiv> aes_w 8 key"
  shows "aes_256_assist_1 (mw (w n) (w (n + 1)) (w (n + 2)) (w (n + 3)))
      (mm_aeskeygenassist (mw (w (n + 4)) (w (n + 5)) (w (n + 6)) (w (n + 7))) imm)
    = mw (w (n + 8)) (w (n + 9)) (w (n + 10)) (w (n + 11))"
   and "aes_256_assist_2 (mw (w (n + 8)) (w (n + 9)) (w (n + 10)) (w (n + 11)))
      (mw (w (n + 4)) (w (n + 5)) (w (n + 6)) (w (n + 7)))
    = mw (w (n + 12)) (w (n + 13)) (w (n + 14)) (w (n + 15))"
proof -
  have "w (n + 8) = w n XOR SubWord (RotWord (w (n + 7))) XOR be32 imm 0 0 0"
    "w (n + 9) = w (n + 1) XOR w (n + 8)" "w (n + 10) = w (n + 2) XOR w (n + 9)" "w (n + 11) = w (n + 3) XOR w (n + 10)"
    unfolding w_def using aes_w_first [of 8 "n + 8" i key] assms(1,2)
      aes_w_plain [of 8 "n + 9" key] aes_w_plain [of 8 "n + 10" key] aes_w_plain [of 8 "n + 11" key]
    by (simp_all add: ac_simps)
  then show "aes_256_assist_1 (mw (w n) (w (n + 1)) (w (n + 2)) (w (n + 3)))
      (mm_aeskeygenassist (mw (w (n + 4)) (w (n + 5)) (w (n + 6)) (w (n + 7))) imm)
    = mw (w (n + 8)) (w (n + 9)) (w (n + 10)) (w (n + 11))" by (simp add: aes_256_assist_1_def ni_mw ac_simps)
  have "w (n + 12) = w (n + 4) XOR SubWord (w (n + 11))"
    "w (n + 13) = w (n + 5) XOR w (n + 12)" "w (n + 14) = w (n + 6) XOR w (n + 13)" "w (n + 15) = w (n + 7) XOR w (n + 14)"
    unfolding w_def using aes_w_sub [of "n + 12" key] assms(1,2)
      aes_w_plain [of 8 "n + 13" key] aes_w_plain [of 8 "n + 14" key] aes_w_plain [of 8 "n + 15" key]
    by (simp_all add: ac_simps)
  then show "aes_256_assist_2 (mw (w (n + 8)) (w (n + 9)) (w (n + 10)) (w (n + 11)))
      (mw (w (n + 4)) (w (n + 5)) (w (n + 6)) (w (n + 7)))
    = mw (w (n + 12)) (w (n + 13)) (w (n + 14)) (w (n + 15))" by (simp add: aes_256_assist_2_def ni_mw ac_simps)
qed

section \<open>The key schedule\<close>

definition ks_ni :: "nat \<Rightarrow> bytes \<Rightarrow> nat \<Rightarrow> u32 list \<Rightarrow> bool" where
  "ks_ni nk key n rk \<longleftrightarrow> length rk = 60 \<and> (\<forall>j<n. rk ! j = bsw (aes_w nk key j))"

abbreviation mws :: "nat \<Rightarrow> bytes \<Rightarrow> nat \<Rightarrow> m128" where
  "mws nk key n \<equiv> mw (aes_w nk key n) (aes_w nk key (n + 1)) (aes_w nk key (n + 2)) (aes_w nk key (n + 3))"

lemma less_add4: "(j::nat) < n + 4 \<longleftrightarrow> j < n \<or> j = n \<or> j = n + 1 \<or> j = n + 2 \<or> j = n + 3"
  by auto

lemma rk_set_ni:
  assumes "ks_ni nk key n rk" "4 * i \<le> n" "i < 15" "m = 4 * i + 4"
  shows "ks_ni nk key m (rk_set rk i (mws nk key (4 * i)))"
  using assms by (auto simp: ks_ni_def rk_set_def mw_def less_add4 nth_list_update)

lemma rk_set_ni_half:
  assumes "ks_ni nk key n rk" "4 * i \<le> n" "i < 15" "m = 4 * i + 2"
  shows "ks_ni nk key m (rk_set rk i (mw (aes_w nk key (4 * i)) (aes_w nk key (4 * i + 1)) x y))"
  using assms by (auto simp: ks_ni_def rk_set_def mw_def nth_list_update less_Suc_eq)

lemma le32_bsw: "le32 p o' = bsw (GETU32 p o')"
  by (simp add: le32_def GETU32_def)

lemma mm_loadu_mws:
  "4 \<le> nk \<Longrightarrow> mm_loadu key 0 = mws nk key 0"
  "8 \<le> nk \<Longrightarrow> mm_loadu key 16 = mws nk key 4"
  "6 \<le> nk \<Longrightarrow> mm_loadu key 16 = mw (aes_w nk key 4) (aes_w nk key 5) (GETU32 key 24) (GETU32 key 28)"
  by (simp_all add: mm_loadu_def mw_def le32_bsw aes_w.simps [of nk])

text \<open>128 bits.\<close>

lemma ni_expand128_ok:
  assumes "length rk = 60"
  shows "ks_ni 4 key 44 (ni_expand128 key rk)"
proof -
  let ?Q = "\<lambda>j (i, imm). i = Suc j \<and> j < 14 \<and> Rcon (Suc j) = be32 imm 0 0 0"
  let ?P = "\<lambda>j (t, rk). t = mws 4 key (4 * j) \<and> ks_ni 4 key (4 * j + 4) rk"
  let ?xs = "[(1, 0x01), (2, 0x02), (3, 0x04), (4, 0x08), (5, 0x10), (6, 0x20), (7, 0x40), (8, 0x80),
            (9, 0x1b), (10, 0x36)] :: (nat \<times> u8) list"
  let ?t = "mm_loadu key 0"
  have t: "?t = mws 4 key 0" by (rule mm_loadu_mws) simp
  have "ks_ni 4 key 0 rk" using assms by (simp add: ks_ni_def)
  then have "?P 0 (?t, rk_set rk 0 ?t)" using rk_set_ni [of 4 key 0 rk 0 4] t by simp
  note p = this
  have q: "all_from ?Q 0 ?xs" by (simp add: Rcon_def gmul_unfold be32_inject)
  have st: "?P (Suc j) (ni_step128 s x)" if "?Q j x" "?P j s" for j s x
    using that assist128 [of j "snd x" "4 * j" key] rk_set_ni [of 4 key "4 * j + 4" "snd s" "Suc j" "4 * Suc j + 4"]
    by (auto simp: ni_step128_def Let_def algebra_simps split: prod.splits)
  have "?P (0 + length ?xs) (foldl ni_step128 (?t, rk_set rk 0 ?t) ?xs)"
    by (rule foldl_all_from [where P = ?P, OF q p]) (rule st)
  then show ?thesis by (simp only: ni_expand128_def Let_def) (simp split: prod.splits)
qed
text \<open>192 bits.\<close>

definition ni192_inv :: "bytes \<Rightarrow> nat \<Rightarrow> nat \<Rightarrow> m128 \<times> m128 \<times> u32 list \<Rightarrow> bool" where
  "ni192_inv key i m s \<longleftrightarrow> (case s of (t1, t2, rk) \<Rightarrow>
     t1 = mws 6 key (6 * i) \<and> (\<exists>x y. t2 = mw (aes_w 6 key (6 * i + 4)) (aes_w 6 key (6 * i + 5)) x y)
     \<and> ks_ni 6 key m rk)"

lemma ni192_assist:
  assumes "ni192_inv key i m s" "Rcon (Suc i) = be32 imm 0 0 0"
  obtains t1 t2 rk x y where "s = (t1, t2, rk)" "ks_ni 6 key m rk"
    "aes_192_assist t1 t2 (mm_aeskeygenassist t2 imm)
      = (mws 6 key (6 * i + 6), mw (aes_w 6 key (6 * i + 10)) (aes_w 6 key (6 * i + 11)) x y)"
  using assms assist192 [OF assms(2) refl, of key] by (fastforce simp: ni192_inv_def algebra_simps split: prod.splits)

lemma ni_step192a_ok:
  assumes "ni192_inv key (2 * e) (12 * e + 6) s" "Rcon (Suc (2 * e)) = be32 imm 0 0 0" "e < 4"
  shows "ni192_inv key (2 * e + 1) (12 * e + 12) (ni_step192a s (3 * e + 1) imm)"
proof -
  obtain t1 t2 rk x y where s: "s = (t1, t2, rk)" and k: "ks_ni 6 key (12 * e + 6) rk"
    and a: "aes_192_assist t1 t2 (mm_aeskeygenassist t2 imm)
      = (mws 6 key (6 * (2 * e) + 6), mw (aes_w 6 key (6 * (2 * e) + 10)) (aes_w 6 key (6 * (2 * e) + 11)) x y)"
    using ni192_assist [OF assms(1,2)] by blast
  let ?q = "3 * e + 1"
  have p: "mm_shuffle_pd (rk_get rk ?q) (mws 6 key (6 * (2 * e) + 6)) 0 = mws 6 key (4 * ?q)"
    "mm_shuffle_pd (mws 6 key (6 * (2 * e) + 6)) (mw (aes_w 6 key (6 * (2 * e) + 10)) (aes_w 6 key (6 * (2 * e) + 11)) x y) 1
      = mws 6 key (4 * (?q + 1))"
    using k by (simp_all add: mm_shuffle_pd_def rk_get_def mw_def ks_ni_def ac_simps)
  have "ks_ni 6 key (4 * ?q + 4) (rk_set rk ?q (mws 6 key (4 * ?q)))"
    by (rule rk_set_ni [OF k]) (use assms in auto)
  then have "ks_ni 6 key (12 * e + 12) (rk_set (rk_set rk ?q (mws 6 key (4 * ?q))) (?q + 1) (mws 6 key (4 * (?q + 1))))"
    by (rule rk_set_ni) (use assms in auto)
  then show ?thesis
    unfolding s ni_step192a_def prod.case a Let_def p ni192_inv_def by (auto simp: algebra_simps)
qed

lemma ni_step192b_ok:
  assumes "ni192_inv key (2 * e + 1) (12 * e + 12) s" "Rcon (Suc (2 * e + 1)) = be32 imm 0 0 0" "e < 3"
  shows "ni192_inv key (2 * Suc e) (12 * Suc e + 6) (ni_step192b s (3 * e + 3) imm)"
proof -
  obtain t1 t2 rk x y where s: "s = (t1, t2, rk)" and k: "ks_ni 6 key (12 * e + 12) rk"
    and a: "aes_192_assist t1 t2 (mm_aeskeygenassist t2 imm)
      = (mws 6 key (6 * (2 * e + 1) + 6), mw (aes_w 6 key (6 * (2 * e + 1) + 10)) (aes_w 6 key (6 * (2 * e + 1) + 11)) x y)"
    using ni192_assist [OF assms(1,2)] by blast
  let ?q = "3 * e + 3"
  have "ks_ni 6 key (4 * ?q + 4) (rk_set rk ?q (mws 6 key (4 * ?q)))"
    by (rule rk_set_ni [OF k]) (use assms in auto)
  then have "ks_ni 6 key (12 * Suc e + 6) (rk_set (rk_set rk ?q (mws 6 key (4 * ?q))) (?q + 1)
      (mw (aes_w 6 key (4 * (?q + 1))) (aes_w 6 key (4 * (?q + 1) + 1)) x y))"
    by (rule rk_set_ni_half) (use assms in auto)
  then show ?thesis
    unfolding s ni_step192b_def prod.case a Let_def ni192_inv_def by (auto simp: algebra_simps)
qed

lemma Rcon_vals:
  "Rcon 1 = be32 0x01 0 0 0" "Rcon 2 = be32 0x02 0 0 0" "Rcon 3 = be32 0x04 0 0 0" "Rcon 4 = be32 0x08 0 0 0"
  "Rcon 5 = be32 0x10 0 0 0" "Rcon 6 = be32 0x20 0 0 0" "Rcon 7 = be32 0x40 0 0 0" "Rcon 8 = be32 0x80 0 0 0"
  by (simp_all add: Rcon_def gmul_unfold eval_nat_numeral be32_inject)

lemma ni_expand192_ok:
  assumes "length rk = 60"
  shows "ks_ni 6 key 52 (ni_expand192 key rk)"
proof -
  let ?t1 = "mm_loadu key 0" and ?t2 = "mm_loadu key 16"
  define s0 where "s0 = (?t1, ?t2, rk_set (rk_set rk 0 ?t1) 1 ?t2)"
  define s1 where "s1 = ni_step192b (ni_step192a s0 1 0x01) 3 0x02"
  define s2 where "s2 = ni_step192b (ni_step192a s1 4 0x04) 6 0x08"
  define s3 where "s3 = ni_step192b (ni_step192a s2 7 0x10) 9 0x20"
  define s4 where "s4 = ni_step192a s3 10 0x40"
  have t: "?t1 = mws 6 key 0" "?t2 = mw (aes_w 6 key 4) (aes_w 6 key 5) (GETU32 key 24) (GETU32 key 28)"
    by (simp_all add: mm_loadu_mws [of 6])
  have "ks_ni 6 key 0 rk" using assms by (simp add: ks_ni_def)
  then have "ks_ni 6 key 4 (rk_set rk 0 ?t1)" using rk_set_ni [of 6 key 0 rk 0 4] t by simp
  from rk_set_ni_half [OF this, of 1 6 "GETU32 key 24" "GETU32 key 28"]
  have "ks_ni 6 key 6 (rk_set (rk_set rk 0 ?t1) 1 ?t2)" unfolding t(2) by simp
  then have "ni192_inv key (2 * 0) (12 * 0 + 6) s0" using t by (auto simp: s0_def ni192_inv_def)
  from ni_step192b_ok [OF ni_step192a_ok [OF this, of 1], of 2] have "ni192_inv key (2 * 1) (12 * 1 + 6) s1"
    using Rcon_vals by (simp add: s1_def numeral_2_eq_2)
  from ni_step192b_ok [OF ni_step192a_ok [OF this, of 4], of 8] have "ni192_inv key (2 * 2) (12 * 2 + 6) s2"
    using Rcon_vals by (simp add: s2_def)
  from ni_step192b_ok [OF ni_step192a_ok [OF this, of "0x10"], of "0x20"] have "ni192_inv key (2 * 3) (12 * 3 + 6) s3"
    using Rcon_vals by (simp add: s3_def)
  from ni_step192a_ok [OF this, of "0x40"] have "ni192_inv key 7 48 s4"
    using Rcon_vals by (simp add: s4_def)
  then obtain t1 t2 rk' x y where s: "s4 = (t1, t2, rk')" "ks_ni 6 key 48 rk'"
    "aes_192_assist t1 t2 (mm_aeskeygenassist t2 0x80)
      = (mws 6 key (6 * 7 + 6), mw (aes_w 6 key (6 * 7 + 10)) (aes_w 6 key (6 * 7 + 11)) x y)"
    by (rule ni192_assist) (use Rcon_vals in simp)
  have e: "ni_expand192 key rk = rk_set rk' 12 (mws 6 key (6 * 7 + 6))"
    unfolding ni_expand192_def Let_def s0_def [symmetric] s1_def [symmetric] s2_def [symmetric] s3_def [symmetric]
      s4_def [symmetric] s prod.case ..
  show ?thesis unfolding e using rk_set_ni [OF s(2), of 12 52] by simp
qed

lemma ni_expand256_ok:
  assumes "length rk = 60"
  shows "ks_ni 8 key 60 (ni_expand256 key rk)"
proof -
  let ?Q = "\<lambda>j (i, imm). i = 2 * j + 2 \<and> j < 6 \<and> Rcon (Suc j) = be32 imm 0 0 0"
  let ?P = "\<lambda>j (t1, t3, rk). t1 = mws 8 key (8 * j) \<and> t3 = mws 8 key (8 * j + 4) \<and> ks_ni 8 key (8 * j + 8) rk"
  let ?xs = "[(2, 0x01), (4, 0x02), (6, 0x04), (8, 0x08), (10, 0x10), (12, 0x20)] :: (nat \<times> u8) list"
  let ?t1 = "mm_loadu key 0" and ?t3 = "mm_loadu key 16"
  let ?s = "(?t1, ?t3, rk_set (rk_set rk 0 ?t1) 1 ?t3)"
  have t: "?t1 = mws 8 key 0" "?t3 = mws 8 key 4" by (rule mm_loadu_mws, simp)+
  have "ks_ni 8 key 0 rk" using assms by (simp add: ks_ni_def)
  from rk_set_ni [OF this, of 0 4] have "ks_ni 8 key 4 (rk_set rk 0 ?t1)" unfolding t(1) by simp
  from rk_set_ni [OF this, of 1 8] have "ks_ni 8 key 8 (rk_set (rk_set rk 0 ?t1) 1 ?t3)" unfolding t(2) by simp
  then have p: "?P 0 ?s" by (simp add: t)
  have q: "all_from ?Q 0 ?xs" by (simp add: Rcon_def gmul_unfold be32_inject)
  have st: "?P (Suc j) (ni_step256 s x)" if "?Q j x" "?P j s" for j s x
  proof -
    obtain i imm t1 t3 rk where x: "x = (i, imm)" and s: "s = (t1, t3, rk)" by (metis prod.exhaust)
    have a: "aes_256_assist_1 t1 (mm_aeskeygenassist t3 imm) = mws 8 key (4 * (2 * j + 2))"
      "aes_256_assist_2 (mws 8 key (4 * (2 * j + 2))) t3 = mws 8 key (4 * (2 * j + 2 + 1))"
      using that assist256 [of j imm "8 * j" key] by (simp_all add: x s algebra_simps)
    have "ks_ni 8 key (8 * j + 12) (rk_set rk (2 * j + 2) (mws 8 key (4 * (2 * j + 2))))"
      by (rule rk_set_ni [of _ _ "8 * j + 8"]) (use that in \<open>auto simp: x s\<close>)
    then have "ks_ni 8 key (8 * j + 16) (rk_set (rk_set rk (2 * j + 2) (mws 8 key (4 * (2 * j + 2)))) (2 * j + 2 + 1)
        (mws 8 key (4 * (2 * j + 2 + 1))))"
      by (rule rk_set_ni) (use that in \<open>auto simp: x s\<close>)
    then show ?thesis using that(1) unfolding ni_step256_def x s prod.case Let_def a by (simp add: a algebra_simps)
  qed
  have "?P (0 + length ?xs) (foldl ni_step256 ?s ?xs)"
    by (rule foldl_all_from [where P = ?P, OF q p]) (rule st)
  then obtain rk' where f: "foldl ni_step256 ?s ?xs = (mws 8 key 48, mws 8 key 52, rk')" "ks_ni 8 key 56 rk'"
    by (cases "foldl ni_step256 ?s ?xs") (auto simp del: foldl.simps)
  have e: "ni_expand256 key rk = rk_set rk' 14 (mws 8 key (4 * 14))"
    using assist256(1) [of 6 "0x40" 48 key] Rcon_vals unfolding ni_expand256_def Let_def f prod.case by simp
  show ?thesis unfolding e by (rule rk_set_ni [OF f(2)]) simp_all
qed

section \<open>Encryption\<close>

definition ni_key_ok :: "nat \<Rightarrow> bytes \<Rightarrow> qudo_aes_key_t \<Rightarrow> bool" where
  "ni_key_ok nk key ks \<longleftrightarrow> rounds ks = nk + 6 \<and> ks_ni nk key (4 * (nk + 7)) (rd_key ks)"

lemma ni_set_key_ok:
  assumes "nk \<in> {4, 6, 8}" "length (rd_key ks) = 60"
  obtains ks' where "qudo_aes_ni_set_encrypt_key (Some key) (32 * int nk) (Some ks) = (0, Some ks')"
    "ni_key_ok nk key ks'"
  using assms that ni_expand128_ok [OF assms(2)] ni_expand192_ok [OF assms(2)] ni_expand256_ok [OF assms(2)]
  by (auto simp: qudo_aes_ni_set_encrypt_key_def ni_key_ok_def)

lemma m_bytes_bsw: "rev (be32_bytes (bsw x)) = be32_bytes x"
  by (simp add: bsw_def) (simp add: be32_bytes_def)

lemma m_bytes_loadu: "length s = 16 \<Longrightarrow> m_bytes (mm_loadu s 0) = s"
  by (erule list16_cases) (simp add: m_bytes_def mm_loadu_def le32_def)

lemma m_bytes_xor: "m_bytes (mm_xor a b) = xor_bytes (m_bytes a) (m_bytes b)"
  by (simp add: m_bytes_def mm_xor_def be32_bytes_def byte_of_xor)

lemma m_bytes_rk:
  assumes "\<forall>j < 4 * Suc r. rk ! j = bsw (w j)"
  shows "xor_bytes s (m_bytes (rk_get rk r)) = AddRoundKey w r s"
proof -
  have l: "[w (4 * r), w (4 * r + 1), w (4 * r + 2), w (4 * r + 3)] = map (\<lambda>c. w (4 * r + c)) [0..<4]"
    by (simp add: upt_rec numeral_2_eq_2 numeral_3_eq_3)
  show ?thesis using assms unfolding AddRoundKey_def l [symmetric]
    by (simp add: m_bytes_def rk_get_def m_bytes_bsw word_bytes_def)
qed

lemma aesenc_bytes:
  assumes "\<forall>j < 4 * Suc r. rk ! j = bsw (w j)"
  shows "m_bytes (mm_aesenc a (rk_get rk r)) = AddRoundKey w r (MixColumns (ShiftRows (SubBytes (m_bytes a))))"
    and "m_bytes (mm_aesenclast a (rk_get rk r)) = AddRoundKey w r (ShiftRows (SubBytes (m_bytes a)))"
  by (simp_all add: mm_aesenc_def mm_aesenclast_def m_bytes_xor m_bytes_loadu m_bytes_rk [OF assms])

lemma foldl_aesenc:
  assumes "\<forall>r \<in> set rs. \<forall>j < 4 * Suc r. rk ! j = bsw (w j)"
  shows "m_bytes (foldl (\<lambda>b i. mm_aesenc b (rk_get rk i)) a rs)
    = foldl (\<lambda>s r. AddRoundKey w r (MixColumns (ShiftRows (SubBytes s)))) (m_bytes a) rs"
  using assms by (induction rs arbitrary: a) (simp_all add: aesenc_bytes [where w = w])

lemma ni_encrypt_AES:
  assumes "length inp = 16" "nk \<in> {4, 6, 8}" "ni_key_ok nk key ks"
  shows "qudo_aes_ni_encrypt inp ks = AES nk key inp"
proof -
  let ?w = "aes_w nk key" and ?rk = "rd_key ks" and ?nr = "rounds ks"
  let ?F = "\<lambda>s r. AddRoundKey ?w r (MixColumns (ShiftRows (SubBytes s)))"
  have nr: "?nr = nk + 6" and k: "\<And>r. r \<le> ?nr \<Longrightarrow> \<forall>j < 4 * Suc r. ?rk ! j = bsw (?w j)"
    using assms(3) by (auto simp: ni_key_ok_def ks_ni_def)
  have f: "m_bytes (foldl (\<lambda>b i. mm_aesenc b (rk_get ?rk i)) a rs) = foldl ?F (m_bytes a) rs"
    if "\<forall>r \<in> set rs. r \<le> ?nr" for a rs
    using that by (intro foldl_aesenc) (auto simp: k)
  have l: "[1..<?nr] = [1, 2, 3, 4, 5, 6, 7, 8, 9] @ (if ?nr > 10 then [10, 11] else []) @ (if ?nr > 12 then [12, 13] else [])"
    using assms(2) nr by (auto simp: upt_rec)
  show ?thesis
    unfolding qudo_aes_ni_encrypt_def AES_def CIPHER_def Let_def aesenc_bytes(2) [OF k [OF order_refl]] nr [symmetric] l foldl_append
    using assms(2) nr
    by (auto simp: f m_bytes_xor m_bytes_loadu [OF assms(1)] m_bytes_rk [OF k [of 0]] simp del: foldl_Cons)
qed

section \<open>The dispatch\<close>

definition aes_ready :: "bool \<Rightarrow> nat \<Rightarrow> qudo_aes_key_t \<Rightarrow> bytes \<Rightarrow> bool" where
  "aes_ready aesni nk ks key \<longleftrightarrow> (if aesni then ni_key_ok nk key ks else aes_key_ok nk key ks)"

lemma aes_set_key_ready:
  assumes "nk \<in> {4, 6, 8}"
  obtains ks' where "qudo_aes_set_encrypt_key aesni (Some key) (32 * int nk) (Some c) = (0, Some ks')"
    "aes_ready aesni nk ks' key"
proof -
  let ?c = "\<lparr>rd_key = replicate 60 0, rounds = 0\<rparr> :: qudo_aes_key_t"
  have b: "32 * int nk = 128 \<or> 32 * int nk = 192 \<or> 32 * int nk = 256" using assms by auto
  obtain k1 where 1: "qudo_aes_ni_set_encrypt_key (Some key) (32 * int nk) (Some ?c) = (0, Some k1)"
    and r1: "ni_key_ok nk key k1" by (rule ni_set_key_ok [OF assms, of ?c key]) simp
  obtain k2 where 2: "qudo_aes_ct_set_encrypt_key (Some key) (32 * int nk) (Some ?c) = (0, Some k2)"
    and r2: "aes_key_ok nk key k2" by (rule ct_set_key_ok [OF assms, of ?c key]) simp
  show thesis
  proof (cases aesni)
    case True
    then have "qudo_aes_set_encrypt_key aesni (Some key) (32 * int nk) (Some c) = (0, Some k1)"
      using b 1 by (auto simp: qudo_aes_set_encrypt_key_def qudo_aes_init_dispatch_def)
    then show thesis using that r1 True by (simp add: aes_ready_def)
  next
    case False
    then have "qudo_aes_set_encrypt_key aesni (Some key) (32 * int nk) (Some c) = (0, Some k2)"
      using b 2 by (auto simp: qudo_aes_set_encrypt_key_def qudo_aes_init_dispatch_def)
    then show thesis using that r2 False by (simp add: aes_ready_def)
  qed
qed

lemma aes_encrypt_ready:
  assumes "length inp = 16" "nk \<in> {4, 6, 8}" "aes_ready aesni nk ks key"
  shows "qudo_aes_encrypt aesni inp ks = AES nk key inp"
  using assms ct_encrypt_AES [OF assms(1)] ni_encrypt_AES [OF assms(1,2)]
  by (auto simp: aes_ready_def qudo_aes_encrypt_def qudo_aes_init_dispatch_def split: if_splits)

section \<open>The contract of a block cipher\<close>

text \<open>
  What the random bit generator relies on: an object set up with a valid key is keyed with it, and
  encryption under a keyed object is the cipher \<open>E\<close> of that key.
\<close>

locale block_cipher =
  fixes setkey :: "'key \<Rightarrow> 'obj \<Rightarrow> 'obj"
    and enc :: "bytes \<Rightarrow> 'obj \<Rightarrow> bytes"
    and keyed :: "'obj \<Rightarrow> 'key \<Rightarrow> bool"
    and valid :: "'key \<Rightarrow> bool"
    and E :: "'key \<Rightarrow> bytes \<Rightarrow> bytes"
  assumes keyed_setkey: "valid key \<Longrightarrow> keyed (setkey key k) key"
    and enc_keyed: "keyed k key \<Longrightarrow> length x = 16 \<Longrightarrow> enc x k = E key x"
    and length_E: "length (E key x) = 16"
begin

lemma length_enc: "keyed k key \<Longrightarrow> length x = 16 \<Longrightarrow> length (enc x k) = 16"
  by (simp add: enc_keyed length_E)

lemma enc_setkey: "valid key \<Longrightarrow> length x = 16 \<Longrightarrow> enc x (setkey key k) = E key x"
  by (rule enc_keyed [OF keyed_setkey])

lemma concat_enc:
  "keyed k key \<Longrightarrow> list_all (\<lambda>x. length x = 16) xs \<Longrightarrow> concat (map (\<lambda>x. enc x k) xs) = concat (map (E key) xs)"
  by (induction xs) (simp_all add: enc_keyed)

end

text \<open>The key object \<open>qudo_aes_set_encrypt_key(key, 32 * nk, k)\<close> leaves behind.\<close>

definition aes_setkey :: "bool \<Rightarrow> nat \<times> bytes \<Rightarrow> qudo_aes_key_t \<Rightarrow> qudo_aes_key_t" where
  "aes_setkey aesni nk_key k =
     (case nk_key of (nk, key) \<Rightarrow>
        case snd (qudo_aes_set_encrypt_key aesni (Some key) (32 * int nk) (Some k)) of Some k' \<Rightarrow> k' | None \<Rightarrow> k)"

definition aes_valid :: "nat \<times> bytes \<Rightarrow> bool" where
  "aes_valid nk_key \<longleftrightarrow> fst nk_key \<in> {4, 6, 8}"

definition aes_keyed :: "bool \<Rightarrow> qudo_aes_key_t \<Rightarrow> nat \<times> bytes \<Rightarrow> bool" where
  "aes_keyed aesni k nk_key \<longleftrightarrow> aes_valid nk_key \<and> aes_ready aesni (fst nk_key) k (snd nk_key)"

definition aes_E :: "nat \<times> bytes \<Rightarrow> bytes \<Rightarrow> bytes" where
  "aes_E nk_key x = AES (fst nk_key) (snd nk_key) x"

interpretation aes: block_cipher "aes_setkey aesni" "qudo_aes_encrypt aesni" "aes_keyed aesni" aes_valid aes_E
  for aesni
proof
  fix nk_key k
  assume v: "aes_valid nk_key"
  obtain k' where "qudo_aes_set_encrypt_key aesni (Some (snd nk_key)) (32 * int (fst nk_key)) (Some k) = (0, Some k')"
    "aes_ready aesni (fst nk_key) k' (snd nk_key)"
    using v unfolding aes_valid_def by (rule aes_set_key_ready)
  then show "aes_keyed aesni (aes_setkey aesni nk_key k) nk_key"
    using v by (cases nk_key) (simp add: aes_keyed_def aes_setkey_def)
next
  fix k nk_key x
  assume "aes_keyed aesni k nk_key" "length (x::bytes) = 16"
  then show "qudo_aes_encrypt aesni x k = aes_E nk_key x"
    using aes_encrypt_ready [of x] by (simp add: aes_keyed_def aes_valid_def aes_E_def)
qed (simp add: aes_E_def)

lemma AES_take:
  assumes "0 < nk" "4 * nk \<le> length key"
  shows "AES nk (take (4 * nk) key) = AES nk key"
proof -
  have "aes_w nk (take (4 * nk) key) i = aes_w nk key i" for i
  proof (induction i rule: less_induct)
    case (less i)
    have "4 * i + 3 < 4 * nk" if "i < nk" using that by simp
    then show ?case using less assms
      by (subst (1 2) aes_w.simps) (auto simp: GETU32_def Let_def)
  qed
  then have "aes_w nk (take (4 * nk) key) = aes_w nk key" by (rule ext)
  then show ?thesis by (intro ext) (simp add: AES_def)
qed

section \<open>Properties\<close>

text \<open>
  C14: on the AES instructions too, key schedule and encryption are AES of FIPS 197, for the three
  key sizes and whatever the bytes behind a 192-bit key are.
\<close>

theorem ni_aes_is_fips:
  assumes "nk \<in> {4, 6, 8}" "length (rd_key ks) = 60" "length inp = 16"
  shows "case qudo_aes_ni_set_encrypt_key (Some key) (32 * int nk) (Some ks) of
      (rc, Some ks') \<Rightarrow> rc = 0 \<and> qudo_aes_ni_encrypt inp ks' = AES nk key inp
    | _ \<Rightarrow> False"
proof -
  obtain ks' where "qudo_aes_ni_set_encrypt_key (Some key) (32 * int nk) (Some ks) = (0, Some ks')"
    and "ni_key_ok nk key ks'" by (rule ni_set_key_ok [OF assms(1,2)])
  then show ?thesis by (simp add: ni_encrypt_AES [OF assms(3,1)])
qed

theorem ni_aes_is_fips_witness:
  "case qudo_aes_ni_set_encrypt_key (Some (replicate 24 1)) (32 * int 6) (Some \<lparr>rd_key = replicate 60 0, rounds = 0\<rparr>) of
      (rc, Some ks') \<Rightarrow> rc = 0 \<and> qudo_aes_ni_encrypt (replicate 16 2) ks' = AES 6 (replicate 24 1) (replicate 16 2)
    | _ \<Rightarrow> False"
  by (rule ni_aes_is_fips) simp_all

text \<open>
  C15: whichever implementation the dispatch selects, \<open>qudo_aes_set_encrypt_key\<close> followed by
  \<open>qudo_aes_encrypt\<close> gives the same block, the one of FIPS 197; the previous content of the key
  object does not matter.
\<close>

theorem aes_dispatch_agrees:
  assumes "nk \<in> {4, 6, 8}" "length inp = 16"
  shows "case qudo_aes_set_encrypt_key aesni (Some key) (32 * int nk) (Some c) of
      (rc, Some ks') \<Rightarrow> rc = 0 \<and> qudo_aes_encrypt aesni inp ks' = AES nk key inp
    | _ \<Rightarrow> False"
proof -
  obtain ks' where "qudo_aes_set_encrypt_key aesni (Some key) (32 * int nk) (Some c) = (0, Some ks')"
    and "aes_ready aesni nk ks' key" by (rule aes_set_key_ready [OF assms(1)])
  then show ?thesis by (simp add: aes_encrypt_ready [OF assms(2,1)])
qed

theorem aes_dispatch_agrees_witness:
  "case qudo_aes_set_encrypt_key True (Some (replicate 32 1)) (32 * int 8) (Some \<lparr>rd_key = [], rounds = 3\<rparr>) of
      (rc, Some ks') \<Rightarrow> rc = 0 \<and> qudo_aes_encrypt True (replicate 16 2) ks' = AES 8 (replicate 32 1) (replicate 16 2)
    | _ \<Rightarrow> False"
  by (rule aes_dispatch_agrees) simp_all

end
