(* ===== verification/CtrDrbg.thy ===== *)
theory CtrDrbg
  imports AesNi
begin

text \<open>
  The CTR_DRBG of \<open>src/qudo-pqc-lib/src/fips/qudo_fips_ctrdrbg.c\<close>: the context, the counter
  increment, \<open>ctr_XOR\<close>, \<open>ctr_update\<close> and the four operations, with result code 0 or -1 and NULL
  pointers as \<^const>\<open>None\<close>.  The reference is CTR_DRBG without derivation function of NIST
  SP 800-90A section 10.2.1, over AES of FIPS 197; the operations are shown to refine it under the
  abstraction \<open>drbg_abs\<close>.  \<open>aesni\<close> is the answer of the CPU the AES dispatch asks for.
\<close>

section \<open>The code\<close>

record qudo_ctrdrbg_ctx_t =
  drbg_aes :: qudo_aes_key_t
  drbg_V :: bytes
  drbg_K :: bytes
  keylen :: nat
  seedlen :: nat
  drbg_initialized :: bool

text \<open>\<open>do { --n; c += p[n]; p[n] = (uint8_t)c; c >>= 8; } while (n);\<close>\<close>

fun inc_loop :: "nat \<Rightarrow> u32 \<Rightarrow> bytes \<Rightarrow> bytes" where
  "inc_loop 0 c p = p"
| "inc_loop (Suc n) c p = (let c = c + ucast (p ! n) in inc_loop n (drop_bit 8 c) (p[n := ucast c]))"

definition inc_128 :: "qudo_ctrdrbg_ctx_t \<Rightarrow> qudo_ctrdrbg_ctx_t" where
  "inc_128 ctx = ctx\<lparr>drbg_V := inc_loop 16 1 (drbg_V ctx)\<rparr>"

text \<open>\<open>for (i = 0; i < n; i++) dst[i] ^= src[i];\<close>\<close>

definition xor_into :: "bytes \<Rightarrow> bytes \<Rightarrow> nat \<Rightarrow> bytes" where
  "xor_into dst src n = foldl (\<lambda>d i. d[i := d ! i XOR src ! i]) dst [0..<n]"

definition ctr_XOR :: "qudo_ctrdrbg_ctx_t \<Rightarrow> bytes option \<Rightarrow> qudo_ctrdrbg_ctx_t" where
  "ctr_XOR ctx inp =
     (case inp of None \<Rightarrow> ctx
      | Some inp \<Rightarrow>
        if length inp = 0 then ctx
        else (let n = (if length inp < keylen ctx then length inp else keylen ctx);
                  ctx1 = ctx\<lparr>drbg_K := xor_into (drbg_K ctx) inp n\<rparr>
              in if length inp \<le> keylen ctx then ctx1
                 else (let n = length inp - keylen ctx; n = (if n > 16 then 16 else n)
                       in ctx1\<lparr>drbg_V := xor_into (drbg_V ctx) (drop (keylen ctx) inp) n\<rparr>)))"

definition ctr_update :: "bool \<Rightarrow> qudo_ctrdrbg_ctx_t \<Rightarrow> bytes option \<Rightarrow> qudo_ctrdrbg_ctx_t" where
  "ctr_update aesni ctx provided =
     (let v0 = drbg_V ctx;
          ctx1 = inc_128 ctx;
          v1 = drbg_V ctx1;
          (ctx2, V_tmp) = (if keylen ctx = 16 then (ctx1, [v0, v1])
                           else (let c = inc_128 ctx1 in (c, [v0, v1, drbg_V c])));
          out = concat (map (\<lambda>v. qudo_aes_encrypt aesni v (drbg_aes ctx)) V_tmp);
          ctx3 = ctx2\<lparr>drbg_K := blit (drbg_K ctx) 0 (take (keylen ctx) out),
                      drbg_V := take 16 (drop (keylen ctx) out)\<rparr>;
          ctx4 = ctr_XOR ctx3 provided
      in ctx4\<lparr>drbg_aes := aes_setkey aesni (keylen ctx div 4, drbg_K ctx4) (drbg_aes ctx)\<rparr>)"

text \<open>The operations return the result code; a failing call leaves the context alone.\<close>

definition qudo_ctrdrbg_init ::
  "bool \<Rightarrow> qudo_ctrdrbg_ctx_t option \<Rightarrow> nat \<Rightarrow> bytes option \<Rightarrow> int \<times> qudo_ctrdrbg_ctx_t option" where
  "qudo_ctrdrbg_init aesni ctx kl seed =
     (case (seed, ctx) of
        (Some s, Some c) \<Rightarrow>
          if kl \<noteq> 16 \<and> kl \<noteq> 24 \<and> kl \<noteq> 32 then (-1, ctx)
          else if length s \<noteq> kl + 16 then (-1, ctx)
          else (let c1 = c\<lparr>keylen := kl, seedlen := length s, drbg_K := replicate 32 0, drbg_V := replicate 16 0\<rparr>;
                    c2 = c1\<lparr>drbg_aes := aes_setkey aesni (kl div 4, drbg_K c1) (drbg_aes c1)\<rparr>;
                    c3 = ctr_update aesni (inc_128 c2) (Some s)
                in (0, Some (c3\<lparr>drbg_initialized := True\<rparr>)))
      | _ \<Rightarrow> (-1, ctx))"

text \<open>The loop that fills the output; \<open>rem\<close> is \<open>out_len - off\<close>.\<close>

function drbg_fill :: "bool \<Rightarrow> qudo_ctrdrbg_ctx_t \<Rightarrow> nat \<Rightarrow> qudo_ctrdrbg_ctx_t \<times> bytes" where
  "drbg_fill aesni ctx rem =
     (if rem = 0 then (ctx, [])
      else (let ctx1 = inc_128 ctx;
                block = qudo_aes_encrypt aesni (drbg_V ctx1) (drbg_aes ctx1);
                chunk = (if rem > 16 then 16 else rem);
                (ctx2, rest) = drbg_fill aesni ctx1 (rem - chunk)
            in (ctx2, take chunk block @ rest)))"
  by pat_completeness auto
termination
  by (relation "measure (\<lambda>(aesni, ctx, rem). rem)") auto

declare drbg_fill.simps [simp del]

text \<open>
  \<open>out_null\<close> says whether the output pointer is NULL; the third component of the result is what
  was written to it, \<^const>\<open>None\<close> when the call fails.
\<close>

definition qudo_ctrdrbg_generate ::
  "bool \<Rightarrow> qudo_ctrdrbg_ctx_t option \<Rightarrow> bool \<Rightarrow> nat \<Rightarrow> bytes option
     \<Rightarrow> int \<times> qudo_ctrdrbg_ctx_t option \<times> bytes option" where
  "qudo_ctrdrbg_generate aesni ctx out_null out_len additional =
     (case ctx of None \<Rightarrow> (-1, ctx, None)
      | Some c \<Rightarrow>
        if \<not> drbg_initialized c \<or> out_len > 65536 then (-1, ctx, None)
        else if out_null \<and> out_len > 0 then (-1, ctx, None)
        else
          let add = (case additional of None \<Rightarrow> None | Some a \<Rightarrow> if length a = 0 then None else Some a)
          in case add of
               Some a \<Rightarrow>
                 if length a > seedlen c then (-1, ctx, None)
                 else (let add_buf = take (seedlen c) (blit (replicate 48 0) 0 a);
                           c1 = ctr_update aesni (inc_128 c) (Some add_buf);
                           (c2, out) = drbg_fill aesni c1 out_len
                       in (0, Some (ctr_update aesni (inc_128 c2) (Some add_buf)), Some out))
             | None \<Rightarrow>
                 (let (c2, out) = drbg_fill aesni c out_len
                  in (0, Some (ctr_update aesni (inc_128 c2) None), Some out)))"

definition qudo_ctrdrbg_reseed ::
  "bool \<Rightarrow> qudo_ctrdrbg_ctx_t option \<Rightarrow> bytes option \<Rightarrow> int \<times> qudo_ctrdrbg_ctx_t option" where
  "qudo_ctrdrbg_reseed aesni ctx seed =
     (case (ctx, seed) of
        (Some c, Some s) \<Rightarrow>
          if \<not> drbg_initialized c then (-1, ctx)
          else if length s \<noteq> seedlen c then (-1, ctx)
          else (0, Some (ctr_update aesni (inc_128 c) (Some s)))
      | _ \<Rightarrow> (-1, ctx))"

definition drbg_cleared :: qudo_ctrdrbg_ctx_t where
  "drbg_cleared = \<lparr>drbg_aes = \<lparr>rd_key = replicate 60 0, rounds = 0\<rparr>, drbg_V = replicate 16 0,
     drbg_K = replicate 32 0, keylen = 0, seedlen = 0, drbg_initialized = False\<rparr>"

definition qudo_ctrdrbg_free :: "qudo_ctrdrbg_ctx_t option \<Rightarrow> qudo_ctrdrbg_ctx_t option" where
  "qudo_ctrdrbg_free ctx = (case ctx of None \<Rightarrow> None | Some c \<Rightarrow> Some drbg_cleared)"

section \<open>NIST SP 800-90A, section 10.2.1\<close>

primrec nat_be :: "nat \<Rightarrow> nat \<Rightarrow> bytes" where
  "nat_be 0 x = []"
| "nat_be (Suc n) x = nat_be n (x div 256) @ [of_nat (x mod 256)]"

definition V_inc :: "bytes \<Rightarrow> bytes" where
  "V_inc V = nat_be 16 ((be_nat V + 1) mod 2 ^ 128)"

text \<open>\<open>n\<close> iterations of \<open>V = (V + 1) mod 2^blocklen; temp = temp || Block_Encrypt(Key, V)\<close>.\<close>

fun ctr_blocks :: "(bytes \<Rightarrow> bytes) \<Rightarrow> nat \<Rightarrow> bytes \<Rightarrow> bytes \<times> bytes" where
  "ctr_blocks E 0 V = ([], V)"
| "ctr_blocks E (Suc n) V = (let V = V_inc V; (temp, V') = ctr_blocks E n V in (E V @ temp, V'))"

definition CTR_DRBG_Update :: "nat \<Rightarrow> bytes \<Rightarrow> bytes \<times> bytes \<Rightarrow> bytes \<times> bytes" where
  "CTR_DRBG_Update nk provided_data KV =
     (case KV of (Key, V) \<Rightarrow>
        let seedlen = 4 * nk + 16;
            temp = fst (ctr_blocks (AES nk Key) ((seedlen + 15) div 16) V);
            temp = xor_bytes (take seedlen temp) provided_data
        in (take (4 * nk) temp, drop (4 * nk) temp))"

definition CTR_DRBG_Instantiate :: "nat \<Rightarrow> bytes \<Rightarrow> bytes \<times> bytes" where
  "CTR_DRBG_Instantiate nk seed_material =
     CTR_DRBG_Update nk seed_material (replicate (4 * nk) 0, replicate 16 0)"

definition CTR_DRBG_Reseed :: "nat \<Rightarrow> bytes \<times> bytes \<Rightarrow> bytes \<Rightarrow> bytes \<times> bytes" where
  "CTR_DRBG_Reseed nk KV seed_material = CTR_DRBG_Update nk seed_material KV"

text \<open>Section 10.2.1.5.1, with an absent or empty additional input as Null.\<close>

definition CTR_DRBG_Generate :: "nat \<Rightarrow> bytes \<times> bytes \<Rightarrow> nat \<Rightarrow> bytes \<Rightarrow> bytes \<times> (bytes \<times> bytes)" where
  "CTR_DRBG_Generate nk KV n additional_input =
     (let seedlen = 4 * nk + 16;
          (additional_input, KV) =
            (if additional_input \<noteq> []
             then (let a = additional_input @ replicate (seedlen - length additional_input) 0
                   in (a, CTR_DRBG_Update nk a KV))
             else (replicate seedlen 0, KV));
          (temp, V) = ctr_blocks (AES nk (fst KV)) ((n + 15) div 16) (snd KV);
          returned_bits = take n temp
      in (returned_bits, CTR_DRBG_Update nk additional_input (fst KV, V)))"

section \<open>The counter\<close>

lemma be_nat_snoc: "be_nat (xs @ [x]) = be_nat xs * 256 + unat x"
  by (simp add: be_nat_append)

lemma length_nat_be [simp]: "length (nat_be n x) = n"
  by (induction n arbitrary: x) simp_all

lemma be_nat_nat_be: "be_nat (nat_be n x) = x mod 256 ^ n"
proof (induction n arbitrary: x)
  case (Suc n)
  have "unat (of_nat (x mod 256) :: u8) = x mod 256"
    by (simp add: unsigned_of_nat take_bit_eq_mod)
  then show ?case using Suc [of "x div 256"] mod_mult2_eq [of x 256 "256 ^ n"] by (simp add: be_nat_snoc)
qed simp

lemma be_nat_inject: "length xs = length ys \<Longrightarrow> be_nat xs = be_nat ys \<Longrightarrow> xs = ys"
proof (induction xs arbitrary: ys rule: rev_induct)
  case (snoc x xs)
  then obtain ys' y where ys: "ys = ys' @ [y]" by (cases ys rule: rev_cases) auto
  have e: "be_nat xs * 256 + unat x = be_nat ys' * 256 + unat y" using snoc.prems ys by (simp add: be_nat_snoc)
  have "unat x = unat y" "be_nat xs = be_nat ys'"
    using arg_cong [OF e, of "\<lambda>z. z mod 256"] arg_cong [OF e, of "\<lambda>z. z div 256"] by simp_all
  then have "x = y" "xs = ys'" using snoc ys by (simp_all add: word_unat_eq_iff)
  then show ?case using ys by simp
qed simp

lemma length_inc_loop [simp]: "length (inc_loop n c p) = length p"
  by (induction n arbitrary: c p) (simp_all add: Let_def)

lemma inc_loop_nat:
  assumes "n \<le> length p" "unat c \<le> 1"
  shows "be_nat (take n (inc_loop n c p)) = (be_nat (take n p) + unat c) mod 256 ^ n
    \<and> drop n (inc_loop n c p) = drop n p"
  using assms
proof (induction n arbitrary: c p)
  case (Suc n)
  let ?s = "c + ucast (p ! n) :: u32" and ?q = "p[n := ucast (c + ucast (p ! n) :: u32)]"
  have u: "unat ?s = unat c + unat (p ! n)"
  proof -
    have "unat c + unat (p ! n) < 4294967296" using Suc.prems(2) unat_u8_less [of "p ! n"] by linarith
    then have "unat c + unat (ucast (p ! n) :: u32) < 2 ^ LENGTH(32)" by simp
    then have "unat ?s = unat c + unat (ucast (p ! n) :: u32)" by (rule unat_add_lem [THEN iffD1])
    then show ?thesis by simp
  qed
  let ?r = "inc_loop n (drop_bit 8 ?s) ?q" and ?A = "be_nat (take n p)"
  have d: "unat (drop_bit 8 ?s) = unat ?s div 256"
    unfolding unat_drop_bit_eq by (simp add: drop_bit_eq_div)
  moreover have "unat ?s \<le> 256" using u Suc.prems(2) unat_u8_less [of "p ! n"] by linarith
  ultimately have "unat (drop_bit 8 ?s) \<le> 1" by linarith
  from Suc.IH [of ?q, OF _ this] have IH: "be_nat (take n ?r) = (?A + unat ?s div 256) mod 256 ^ n"
    "drop n ?r = drop n ?q" using Suc.prems(1) by (simp_all add: d)
  have "?r ! n = ?q ! n" using arg_cong [OF IH(2), of "\<lambda>l. l ! 0"] Suc.prems(1) by simp
  then have "take (Suc n) ?r = take n ?r @ [ucast ?s]"
    using Suc.prems(1) by (simp add: take_Suc_conv_app_nth)
  moreover have "unat (ucast ?s :: u8) = unat ?s mod 256" by (simp add: unsigned_ucast_eq take_bit_eq_mod)
  ultimately have "be_nat (take (Suc n) ?r) = 256 * ((?A + unat ?s div 256) mod 256 ^ n) + unat ?s mod 256"
    by (simp add: be_nat_snoc IH(1))
  also have "\<dots> = (?A * 256 + unat ?s) mod (256 * 256 ^ n)"
    by (simp add: mod_mult2_eq)
  also have "\<dots> = (be_nat (take (Suc n) p) + unat c) mod 256 ^ Suc n"
    using Suc.prems(1) by (simp only: take_Suc_conv_app_nth be_nat_snoc u power_Suc) (simp add: ac_simps)
  finally have "be_nat (take (Suc n) ?r) = (be_nat (take (Suc n) p) + unat c) mod 256 ^ Suc n" .
  moreover have "drop (Suc n) ?r = drop (Suc n) p"
    using arg_cong [OF IH(2), of "drop 1"] by simp
  ultimately show ?case by (simp add: Let_def)
qed simp

lemma inc_128_V_inc:
  assumes "length (drbg_V ctx) = 16"
  shows "inc_128 ctx = ctx\<lparr>drbg_V := V_inc (drbg_V ctx)\<rparr>"
proof -
  have "be_nat (inc_loop 16 1 (drbg_V ctx)) = (be_nat (drbg_V ctx) + 1) mod 256 ^ 16"
    using inc_loop_nat [of 16 "drbg_V ctx" 1] assms by simp
  also have "\<dots> = be_nat (V_inc (drbg_V ctx))" by (simp add: V_inc_def be_nat_nat_be)
  finally have "inc_loop 16 1 (drbg_V ctx) = V_inc (drbg_V ctx)"
    by (rule be_nat_inject [rotated]) (simp add: V_inc_def assms)
  then show ?thesis by (simp add: inc_128_def)
qed

lemma length_V_inc [simp]: "length (V_inc V) = 16"
  by (simp add: V_inc_def)

section \<open>Refinement\<close>

definition drbg_inv :: "bool \<Rightarrow> nat \<Rightarrow> qudo_ctrdrbg_ctx_t \<Rightarrow> bool" where
  "drbg_inv aesni nk ctx \<longleftrightarrow>
     nk \<in> {4, 6, 8} \<and> keylen ctx = 4 * nk \<and> seedlen ctx = 4 * nk + 16 \<and> length (drbg_V ctx) = 16
     \<and> length (drbg_K ctx) = 32 \<and> aes_keyed aesni (drbg_aes ctx) (nk, drbg_K ctx)"

definition drbg_abs :: "qudo_ctrdrbg_ctx_t \<Rightarrow> bytes \<times> bytes" where
  "drbg_abs ctx = (take (keylen ctx) (drbg_K ctx), drbg_V ctx)"

lemma xor_into_eq:
  assumes "n \<le> length dst" "n \<le> length src"
  shows "xor_into dst src n = xor_bytes (take n dst) (take n src) @ drop n dst"
  using assms
proof (induction n)
  case (Suc n)
  let ?d = "xor_bytes (take n dst) (take n src) @ drop n dst"
  have "xor_into dst src (Suc n) = ?d[n := ?d ! n XOR src ! n]"
    using Suc by (simp add: xor_into_def)
  also have "\<dots> = xor_bytes (take (Suc n) dst) (take (Suc n) src) @ drop (Suc n) dst"
    using Suc.prems by (simp add: take_Suc_conv_app_nth xor_bytes_append nth_append list_update_append
        Cons_nth_drop_Suc [symmetric])
  finally show ?case .
qed (simp add: xor_into_def)

lemma take_xor_bytes: "take n (xor_bytes xs ys) = xor_bytes (take n xs) (take n ys)"
  by (simp add: xor_bytes_def take_map take_zip)

lemma drop_xor_bytes: "drop n (xor_bytes xs ys) = xor_bytes (drop n xs) (drop n ys)"
  by (simp add: xor_bytes_def drop_map drop_zip)

text \<open>The counter blocks of one update, with \<open>v0\<close> the counter already incremented.\<close>

lemma ctr_blocks_23:
  "fst (ctr_blocks E 2 V) = E (V_inc V) @ E (V_inc (V_inc V))"
  "fst (ctr_blocks E 3 V) = E (V_inc V) @ E (V_inc (V_inc V)) @ E (V_inc (V_inc (V_inc V)))"
  by (simp_all add: numeral_2_eq_2 numeral_3_eq_3 Let_def split: prod.splits)

lemma update_blocks:
  assumes "drbg_inv aesni nk ctx"
  shows "concat (map (\<lambda>v. qudo_aes_encrypt aesni v (drbg_aes ctx))
      (if keylen ctx = 16 then [V_inc V, V_inc (V_inc V)] else [V_inc V, V_inc (V_inc V), V_inc (V_inc (V_inc V))]))
    = fst (ctr_blocks (AES nk (take (4 * nk) (drbg_K ctx))) ((4 * nk + 16 + 15) div 16) V)"
proof -
  have k: "aes_keyed aesni (drbg_aes ctx) (nk, drbg_K ctx)" and nk: "nk = 4 \<or> nk = 6 \<or> nk = 8"
    and l: "keylen ctx = 4 * nk" "length (drbg_K ctx) = 32"
    using assms by (auto simp: drbg_inv_def)
  have e: "qudo_aes_encrypt aesni (V_inc v) (drbg_aes ctx) = AES nk (drbg_K ctx) (V_inc v)" for v
    using aes.enc_keyed [OF k] by (simp add: aes_E_def)
  have t: "AES nk (take (4 * nk) (drbg_K ctx)) = AES nk (drbg_K ctx)"
    by (rule AES_take) (use nk l in auto)
  show ?thesis unfolding t using nk l
    by (elim disjE) (simp_all add: e ctr_blocks_23)
qed

definition provided :: "nat \<Rightarrow> bytes option \<Rightarrow> bytes" where
  "provided nk p = (case p of None \<Rightarrow> replicate (4 * nk + 16) 0 | Some s \<Rightarrow> s)"

lemma ctr_XOR_provided:
  assumes "length (provided nk p) = 4 * nk + 16" "keylen ctx = 4 * nk" "0 < nk" "4 * nk \<le> 32"
    and "length (drbg_K ctx) = 32" "length (drbg_V ctx) = 16"
  shows "ctr_XOR ctx p = ctx\<lparr>drbg_K := xor_bytes (take (4 * nk) (drbg_K ctx)) (take (4 * nk) (provided nk p))
        @ drop (4 * nk) (drbg_K ctx), drbg_V := xor_bytes (drbg_V ctx) (drop (4 * nk) (provided nk p))\<rparr>"
  using assms by (cases p) (auto simp: ctr_XOR_def provided_def xor_into_eq Let_def)

lemma ctr_update_refines:
  assumes inv: "drbg_inv aesni nk ctx" and p: "length (provided nk p) = 4 * nk + 16"
  defines "ctx' \<equiv> ctr_update aesni (inc_128 ctx) p"
  shows "drbg_inv aesni nk ctx'" and "drbg_abs ctx' = CTR_DRBG_Update nk (provided nk p) (drbg_abs ctx)"
    and "drbg_initialized ctx' = drbg_initialized ctx"
proof -
  define V where "V = drbg_V ctx"
  define out where "out = fst (ctr_blocks (AES nk (take (4 * nk) (drbg_K ctx))) ((4 * nk + 16 + 15) div 16) V)"
  have nk: "nk \<in> {4, 6, 8}" and kl: "keylen ctx = 4 * nk" "seedlen ctx = 4 * nk + 16" "length V = 16"
    "length (drbg_K ctx) = 32" "4 * nk \<le> 32"
    using inv by (auto simp: drbg_inv_def V_def)
  have lo: "length out \<ge> 4 * nk + 16"
    using nk by (auto simp: out_def ctr_blocks_23)
  define c where "c = inc_128 ctx"
  have c: "c = ctx\<lparr>drbg_V := V_inc V\<rparr>" using inc_128_V_inc [of ctx] kl by (simp add: c_def V_def)
  have u: "concat (map (\<lambda>v. qudo_aes_encrypt aesni v (drbg_aes ctx))
      (if keylen ctx = 16 then [V_inc V, V_inc (V_inc V)] else [V_inc V, V_inc (V_inc V), V_inc (V_inc (V_inc V))])) = out"
    unfolding out_def by (rule update_blocks [OF inv])
  define K1 where "K1 = blit (drbg_K ctx) 0 (take (4 * nk) out)"
  define V1 where "V1 = take 16 (drop (4 * nk) out)"
  have l1: "length K1 = 32" "length V1 = 16" "take (4 * nk) K1 = take (4 * nk) out"
    using kl lo by (simp_all add: K1_def V1_def blit_def)
  have e: "ctx' = (let c4 = ctr_XOR (ctx\<lparr>drbg_K := K1, drbg_V := V1\<rparr>) p
        in c4\<lparr>drbg_aes := aes_setkey aesni (nk, drbg_K c4) (drbg_aes ctx)\<rparr>)"
    unfolding ctx'_def c_def [symmetric] ctr_update_def c
    using u kl by (auto simp: inc_128_V_inc K1_def V1_def Let_def split: if_splits)
  define K2 where "K2 = xor_bytes (take (4 * nk) K1) (take (4 * nk) (provided nk p)) @ drop (4 * nk) K1"
  define V2 where "V2 = xor_bytes V1 (drop (4 * nk) (provided nk p))"
  have "ctr_XOR (ctx\<lparr>drbg_K := K1, drbg_V := V1\<rparr>) p = ctx\<lparr>drbg_K := K2, drbg_V := V2\<rparr>"
    using ctr_XOR_provided [OF p, of "ctx\<lparr>drbg_K := K1, drbg_V := V1\<rparr>"] kl l1 nk by (auto simp: K2_def V2_def)
  then have c': "ctx' = ctx\<lparr>drbg_K := K2, drbg_V := V2, drbg_aes := aes_setkey aesni (nk, K2) (drbg_aes ctx)\<rparr>"
    using e by (simp add: Let_def)
  have l2: "length K2 = 32" "length V2 = 16" using l1 kl p lo by (simp_all add: K2_def V2_def)
  show "drbg_inv aesni nk ctx'"
    using aes.keyed_setkey [of "(nk, K2)"] nk kl l2 by (auto simp: c' drbg_inv_def aes_valid_def)
  have sp: "CTR_DRBG_Update nk (provided nk p) (drbg_abs ctx) =
      (take (4 * nk) (xor_bytes (take (4 * nk + 16) out) (provided nk p)),
       drop (4 * nk) (xor_bytes (take (4 * nk + 16) out) (provided nk p)))"
    by (simp only: drbg_abs_def CTR_DRBG_Update_def Let_def prod.case out_def V_def kl)
  have "take (4 * nk) K2 = xor_bytes (take (4 * nk) out) (take (4 * nk) (provided nk p))"
    using l1 kl p lo by (simp add: K2_def)
  then show "drbg_abs ctx' = CTR_DRBG_Update nk (provided nk p) (drbg_abs ctx)"
    unfolding sp using kl lo by (simp add: drbg_abs_def c' take_xor_bytes drop_xor_bytes V2_def V1_def drop_take)
  show "drbg_initialized ctx' = drbg_initialized ctx" by (simp add: c')
qed

text \<open>The output loop.\<close>

lemma drbg_fill_refines:
  assumes "drbg_inv aesni nk ctx"
  shows "drbg_fill aesni ctx n =
      (ctx\<lparr>drbg_V := snd (ctr_blocks (AES nk (take (4 * nk) (drbg_K ctx))) ((n + 15) div 16) (drbg_V ctx))\<rparr>,
       take n (fst (ctr_blocks (AES nk (take (4 * nk) (drbg_K ctx))) ((n + 15) div 16) (drbg_V ctx))))"
  using assms
proof (induction aesni ctx n rule: drbg_fill.induct)
  case (1 aesni ctx n)
  note inv = "1.prems"
  let ?E = "AES nk (take (4 * nk) (drbg_K ctx))"
  have k: "aes_keyed aesni (drbg_aes ctx) (nk, drbg_K ctx)" and v: "length (drbg_V ctx) = 16"
    and nk: "0 < nk" "4 * nk \<le> length (drbg_K ctx)"
    using inv by (auto simp: drbg_inv_def)
  let ?c = "ctx\<lparr>drbg_V := V_inc (drbg_V ctx)\<rparr>"
  have e: "qudo_aes_encrypt aesni (V_inc (drbg_V ctx)) (drbg_aes ctx) = ?E (V_inc (drbg_V ctx))"
    using aes.enc_keyed [OF k] by (simp add: aes_E_def AES_take [OF nk])
  show ?case
  proof (cases "n = 0")
    case True
    then show ?thesis by (simp add: drbg_fill.simps)
  next
    case False
    let ?k = "if n > 16 then 16 else n"
    have ic: "drbg_inv aesni nk ?c" using inv by (simp add: drbg_inv_def)
    have d: "(n + 15) div 16 = Suc ((n - ?k + 15) div 16)" using False by auto
    have t: "take n (?E (V_inc (drbg_V ctx)) @ ys) = take ?k (?E (V_inc (drbg_V ctx))) @ take (n - ?k) ys" for ys
      using False by (auto simp: take_append)
    have i: "inc_128 ctx = ?c" by (rule inc_128_V_inc [OF v])
    have IH: "drbg_fill aesni ?c (n - ?k) =
      (?c\<lparr>drbg_V := snd (ctr_blocks ?E ((n - ?k + 15) div 16) (drbg_V ?c))\<rparr>,
       take (n - ?k) (fst (ctr_blocks ?E ((n - ?k + 15) div 16) (drbg_V ?c))))"
      using "1.IH" [OF False refl refl refl] ic unfolding i by simp
    show ?thesis
      using False unfolding d ctr_blocks.simps Let_def
      by (subst drbg_fill.simps) (simp add: i IH Let_def e t split: prod.split)
  qed
qed

lemma ctr_blocks_Suc:
  "ctr_blocks E (Suc n) V = (E (V_inc V) @ fst (ctr_blocks E n (V_inc V)), snd (ctr_blocks E n (V_inc V)))"
  by (simp add: Let_def case_prod_beta)

lemma length_ctr_blocks: "(\<And>x. length (E x) = 16) \<Longrightarrow> length (fst (ctr_blocks E k V)) = 16 * k"
  by (induction k arbitrary: V) (simp_all add: ctr_blocks_Suc del: ctr_blocks.simps(2))

lemma length_ctr_blocks_V: "length V = 16 \<Longrightarrow> length (snd (ctr_blocks E k V)) = 16"
  by (induction k arbitrary: V) (simp_all add: ctr_blocks_Suc del: ctr_blocks.simps(2))

lemma generate_refines:
  assumes inv: "drbg_inv aesni nk c" and i: "drbg_initialized c" and n: "n \<le> 65536" and o: "out_null \<longrightarrow> n = 0"
    and a: "length (case additional of None \<Rightarrow> [] | Some a \<Rightarrow> a) \<le> seedlen c"
  obtains c' out where "qudo_ctrdrbg_generate aesni (Some c) out_null n additional = (0, Some c', Some out)"
    "drbg_inv aesni nk c'" "drbg_initialized c'"
    "(out, drbg_abs c') = CTR_DRBG_Generate nk (drbg_abs c) n (case additional of None \<Rightarrow> [] | Some a \<Rightarrow> a)"
proof -
  have sl: "seedlen c = 4 * nk + 16" "4 * nk + 16 \<le> 48" using inv by (auto simp: drbg_inv_def)
  define ad where "ad = (case additional of None \<Rightarrow> [] | Some a \<Rightarrow> a)"
  define p where "p = (if ad = [] then None else Some (ad @ replicate (4 * nk + 16 - length ad) 0))"
  define c1 where "c1 = (if ad = [] then c else ctr_update aesni (inc_128 c) p)"
  have lp: "length (provided nk p) = 4 * nk + 16" using a sl by (auto simp: p_def provided_def ad_def)
  have inv1: "drbg_inv aesni nk c1" and i1: "drbg_initialized c1"
    and a1: "drbg_abs c1 = (if ad = [] then drbg_abs c else CTR_DRBG_Update nk (provided nk p) (drbg_abs c))"
    using ctr_update_refines [OF inv lp] inv i by (auto simp: c1_def)
  obtain c2 out where f: "drbg_fill aesni c1 n = (c2, out)" by fastforce
  let ?B = "ctr_blocks (AES nk (fst (drbg_abs c1))) ((n + 15) div 16) (snd (drbg_abs c1))"
  have kl: "keylen c1 = 4 * nk" using inv1 by (simp add: drbg_inv_def)
  have f2: "c2 = c1\<lparr>drbg_V := snd ?B\<rparr>" "out = take n (fst ?B)"
    using drbg_fill_refines [OF inv1, of n] f by (simp_all add: drbg_abs_def kl)
  have inv2: "drbg_inv aesni nk c2" using inv1 by (simp add: f2 drbg_inv_def drbg_abs_def length_ctr_blocks_V)
  have b: "take (4 * nk + 16) (blit (replicate 48 0) 0 ad) = ad @ replicate (4 * nk + 16 - length ad) 0"
    using a sl by (simp add: blit_def ad_def take_replicate)
  have g: "qudo_ctrdrbg_generate aesni (Some c) out_null n additional
      = (0, Some (ctr_update aesni (inc_128 c2) p), Some out)"
    using i n o a f b
    by (cases additional) (auto simp: qudo_ctrdrbg_generate_def ad_def p_def c1_def sl Let_def)
  note u = ctr_update_refines [OF inv2 lp]
  have pr: "provided nk p = (if ad = [] then replicate (4 * nk + 16) 0 else ad @ replicate (4 * nk + 16 - length ad) 0)"
    by (simp add: p_def provided_def)
  have "CTR_DRBG_Generate nk (drbg_abs c) n ad = (take n (fst ?B), CTR_DRBG_Update nk (provided nk p) (fst (drbg_abs c1), snd ?B))"
    unfolding CTR_DRBG_Generate_def pr a1 Let_def by (simp split: prod.split)
  moreover have "drbg_abs c2 = (fst (drbg_abs c1), snd ?B)" unfolding f2(1) by (simp add: drbg_abs_def)
  ultimately have s: "(out, drbg_abs (ctr_update aesni (inc_128 c2) p)) = CTR_DRBG_Generate nk (drbg_abs c) n ad"
    by (simp only: u(2) f2(2))
  show thesis using that [OF g u(1)] u(3) i1 s f2 by (simp add: ad_def)
qed

lemma length_generate: "length (fst (CTR_DRBG_Generate nk KV n ad)) = n"
proof -
  have "n \<le> 16 * ((n + 15) div 16)" by linarith
  then show ?thesis by (simp add: CTR_DRBG_Generate_def Let_def length_ctr_blocks case_prod_beta)
qed

lemma init_refines:
  assumes "kl \<in> {16, 24, 32}" "length s = kl + 16"
  obtains c' where "qudo_ctrdrbg_init aesni (Some c) kl (Some s) = (0, Some c')"
    "drbg_inv aesni (kl div 4) c'" "drbg_initialized c'" "drbg_abs c' = CTR_DRBG_Instantiate (kl div 4) s"
proof -
  let ?nk = "kl div 4"
  define c1 where "c1 = c\<lparr>keylen := kl, seedlen := length s, drbg_K := replicate 32 0, drbg_V := replicate 16 0\<rparr>"
  define c2 where "c2 = c1\<lparr>drbg_aes := aes_setkey aesni (?nk, drbg_K c1) (drbg_aes c1)\<rparr>"
  have nk: "?nk \<in> {4, 6, 8}" "4 * ?nk = kl" using assms(1) by auto
  have inv: "drbg_inv aesni ?nk c2"
    using aes.keyed_setkey [of "(?nk, replicate 32 0)"] nk assms
    by (simp add: drbg_inv_def c2_def c1_def aes_valid_def)
  have lp: "length (provided ?nk (Some s)) = 4 * ?nk + 16" using nk assms by (simp add: provided_def)
  note u = ctr_update_refines [OF inv lp]
  have "drbg_abs c2 = (replicate (4 * ?nk) 0, replicate 16 0)"
    using nk assms by (auto simp: drbg_abs_def c2_def c1_def)
  then have "drbg_abs (ctr_update aesni (inc_128 c2) (Some s)) = CTR_DRBG_Instantiate ?nk s"
    using u(2) by (simp add: CTR_DRBG_Instantiate_def provided_def)
  then show thesis
    using that [of "ctr_update aesni (inc_128 c2) (Some s)\<lparr>drbg_initialized := True\<rparr>"] u(1) assms
    by (auto simp: qudo_ctrdrbg_init_def c2_def c1_def drbg_inv_def drbg_abs_def Let_def)
qed

lemma reseed_refines:
  assumes "drbg_inv aesni nk c" "drbg_initialized c" "length s = seedlen c"
  obtains c' where "qudo_ctrdrbg_reseed aesni (Some c) (Some s) = (0, Some c')" "drbg_inv aesni nk c'"
    "drbg_initialized c'" "drbg_abs c' = CTR_DRBG_Reseed nk (drbg_abs c) s"
proof -
  have "length (provided nk (Some s)) = 4 * nk + 16"
    using assms by (simp add: provided_def drbg_inv_def)
  from ctr_update_refines [OF assms(1) this] show ?thesis
    using assms that by (simp add: qudo_ctrdrbg_reseed_def CTR_DRBG_Reseed_def provided_def)
qed

section \<open>Properties\<close>

text \<open>
  The carry loop of \<open>inc_128\<close> adds one to the 128-bit big-endian counter, modulo 2^128, and
  changes nothing else of the context.
\<close>

theorem inc_128_counts:
  assumes "length (drbg_V ctx) = 16"
  shows "be_nat (drbg_V (inc_128 ctx)) = (be_nat (drbg_V ctx) + 1) mod 2 ^ 128
    \<and> (inc_128 ctx)\<lparr>drbg_V := drbg_V ctx\<rparr> = ctx"
  by (simp add: inc_128_V_inc [OF assms] V_inc_def be_nat_nat_be)

theorem inc_128_counts_witness:
  "be_nat (drbg_V (inc_128 (drbg_cleared\<lparr>drbg_V :=
     [0xFF, 0xFF, 0xFF, 0xFF, 0xFF, 0xFF, 0xFF, 0xFF, 0xFF, 0xFF, 0xFF, 0xFF, 0xFF, 0xFF, 0xFF, 0xFF]\<rparr>))) = 0"
  using inc_128_counts [of "drbg_cleared\<lparr>drbg_V :=
     [0xFF, 0xFF, 0xFF, 0xFF, 0xFF, 0xFF, 0xFF, 0xFF, 0xFF, 0xFF, 0xFF, 0xFF, 0xFF, 0xFF, 0xFF, 0xFF]\<rparr>"] by simp

text \<open>
  C16: \<open>qudo_ctrdrbg_init\<close> with a key length of 16, 24 or 32 bytes and a seed of that length plus 16
  succeeds, establishes the invariant of the context and leaves the Key and V that Instantiate of
  SP 800-90A computes from the seed.
\<close>

theorem drbg_init_refines:
  assumes "kl \<in> {16, 24, 32}" "length s = kl + 16"
  shows "\<exists>c'. qudo_ctrdrbg_init aesni (Some c) kl (Some s) = (0, Some c') \<and> drbg_inv aesni (kl div 4) c'
    \<and> drbg_initialized c' \<and> drbg_abs c' = CTR_DRBG_Instantiate (kl div 4) s"
  using init_refines [OF assms, of aesni c] by blast

theorem drbg_init_refines_witness:
  "\<exists>c'. qudo_ctrdrbg_init True (Some drbg_cleared) 32 (Some (replicate 48 5)) = (0, Some c')
    \<and> drbg_inv True (32 div 4) c' \<and> drbg_initialized c' \<and> drbg_abs c' = CTR_DRBG_Instantiate (32 div 4) (replicate 48 5)"
  by (rule drbg_init_refines) simp_all

text \<open>
  C17: on an initialised context, \<open>qudo_ctrdrbg_generate\<close> returns the bytes and leaves the Key and V of
  Generate of SP 800-90A, with and without additional input, for every request up to 65536 bytes,
  the empty one included; the invariant is kept and exactly the requested length is written.
\<close>

theorem drbg_generate_refines:
  assumes "drbg_inv aesni nk c" "drbg_initialized c" "n \<le> 65536" "out_null \<longrightarrow> n = 0"
    and "length (case additional of None \<Rightarrow> [] | Some a \<Rightarrow> a) \<le> seedlen c"
  shows "\<exists>c' out. qudo_ctrdrbg_generate aesni (Some c) out_null n additional = (0, Some c', Some out)
    \<and> drbg_inv aesni nk c' \<and> drbg_initialized c' \<and> length out = n
    \<and> (out, drbg_abs c') = CTR_DRBG_Generate nk (drbg_abs c) n (case additional of None \<Rightarrow> [] | Some a \<Rightarrow> a)"
proof -
  obtain c' out where g: "qudo_ctrdrbg_generate aesni (Some c) out_null n additional = (0, Some c', Some out)"
    "drbg_inv aesni nk c'" "drbg_initialized c'"
    and o: "(out, drbg_abs c') = CTR_DRBG_Generate nk (drbg_abs c) n (case additional of None \<Rightarrow> [] | Some a \<Rightarrow> a)"
    by (rule generate_refines [OF assms])
  have "length out = n" using arg_cong [OF o, of fst] by (simp add: length_generate)
  then show ?thesis using g o by blast
qed

theorem drbg_generate_refines_witness:
  "\<exists>c c' out. qudo_ctrdrbg_init True (Some drbg_cleared) 16 (Some (replicate 32 5)) = (0, Some c)
    \<and> qudo_ctrdrbg_generate True (Some c) False 20 (Some [1, 2]) = (0, Some c', Some out)
    \<and> (out, drbg_abs c') = CTR_DRBG_Generate 4 (drbg_abs c) 20 [1, 2]"
proof -
  obtain c where c: "qudo_ctrdrbg_init True (Some drbg_cleared) 16 (Some (replicate 32 5)) = (0, Some c)"
    "drbg_inv True (16 div 4) c" "drbg_initialized c"
    by (rule init_refines [of 16 "replicate 32 5" True drbg_cleared]) simp_all
  then show ?thesis
    using drbg_generate_refines [of True 4 c 20 False "Some [1, 2]"] by (auto simp: drbg_inv_def)
qed

text \<open>
  C18: \<open>qudo_ctrdrbg_reseed\<close> with a seed of the context's seed length is Reseed of SP 800-90A, and
  keeps the invariant.
\<close>

theorem drbg_reseed_refines:
  assumes "drbg_inv aesni nk c" "drbg_initialized c" "length s = seedlen c"
  shows "\<exists>c'. qudo_ctrdrbg_reseed aesni (Some c) (Some s) = (0, Some c') \<and> drbg_inv aesni nk c'
    \<and> drbg_initialized c' \<and> drbg_abs c' = CTR_DRBG_Reseed nk (drbg_abs c) s"
  using reseed_refines [OF assms] by blast

theorem drbg_reseed_refines_witness:
  "\<exists>c c'. qudo_ctrdrbg_init False (Some drbg_cleared) 24 (Some (replicate 40 5)) = (0, Some c)
    \<and> qudo_ctrdrbg_reseed False (Some c) (Some (replicate 40 6)) = (0, Some c')
    \<and> drbg_abs c' = CTR_DRBG_Reseed 6 (drbg_abs c) (replicate 40 6)"
proof -
  obtain c where c: "qudo_ctrdrbg_init False (Some drbg_cleared) 24 (Some (replicate 40 5)) = (0, Some c)"
    "drbg_inv False (24 div 4) c" "drbg_initialized c"
    by (rule init_refines [of 24 "replicate 40 5" False drbg_cleared]) simp_all
  then show ?thesis
    using drbg_reseed_refines [of False 6 c "replicate 40 6"] by (auto simp: drbg_inv_def)
qed


end
