(* ===== verification/Rand.thy ===== *)
theory Rand
  imports Module CtrDrbg
begin

text \<open>
  The module's random generator (\<open>src/qudo-pqc-lib/src/fips/qudo_fips_rand.c\<close>): the entropy source
  with its SP 800-90B health tests, the global CTR_DRBG with its reseeding, and the provider a host
  may install.  The entropy source is the \<open>getentropy\<close> branch of the code; what the system call
  delivers is \<open>env_entropy\<close>.  A function that fills a buffer returns the bytes it has written, and
  one that can fail before it is done returns what it wrote until then.
\<close>

section \<open>State\<close>

record rand_st = mod_st +
  g_fips_drbg :: qudo_ctrdrbg_ctx_t
  g_fips_rand_ready :: bool
  g_fips_rand_gen_count :: u32
  g_startup_tested :: bool
  g_rct_a :: u8
  g_rct_b :: u32
  g_apt_a :: u8
  g_apt_b :: u32
  g_apt_i :: u32
  g_health_failed :: bool
  g_fips_rand_lock :: rwlock
  g_fips_rand_lock_once :: bool
  g_host_rand_provider :: "(nat \<Rightarrow> nat \<Rightarrow> bytes option) option"

definition RESEED_INTERVAL :: u32 where "RESEED_INTERVAL = push_bit 20 1"
definition FIPS_RAND_SEEDLEN :: nat where "FIPS_RAND_SEEDLEN = 32 + 16"
definition FIPS_ENTROPY_H :: nat where "FIPS_ENTROPY_H = 8"
definition rct_critical :: "u32 list" where "rct_critical = [41, 21, 11, 8, 6, 5, 5, 4, 4]"
definition FIPS_APT_WINDOW :: u32 where "FIPS_APT_WINDOW = 512"
definition apt_critical :: "u32 list" where "apt_critical = [410, 311, 177, 103, 62, 39, 25, 18, 13]"
definition FIPS_ENTROPY_STARTUP_SAMPLES :: nat where "FIPS_ENTROPY_STARTUP_SAMPLES = 1024"

definition qudo_pqc_set_rand_provider ::
  "(nat \<Rightarrow> nat \<Rightarrow> bytes option) option \<Rightarrow> 's rand_st_scheme \<Rightarrow> 's rand_st_scheme" where
  "qudo_pqc_set_rand_provider fn s = s\<lparr>g_host_rand_provider := fn\<rparr>"

definition do_fips_rand_lock_init :: "'e env_scheme \<Rightarrow> 's rand_st_scheme \<Rightarrow> 's rand_st_scheme" where
  "do_fips_rand_lock_init E s = (let (l, s) = qudo_rwlock_new E s in s\<lparr>g_fips_rand_lock := l\<rparr>)"

definition rand_wrlock :: "('s rand_st_scheme, int) state" where
  "rand_wrlock = act (\<lambda>s. let (r, l) = qudo_rwlock_wrlock (g_fips_rand_lock s) in (r, s\<lparr>g_fips_rand_lock := l\<rparr>))"

definition rand_unlock :: "('s rand_st_scheme, unit) state" where
  "rand_unlock = upd (\<lambda>s. s\<lparr>g_fips_rand_lock := qudo_rwlock_unlock (g_fips_rand_lock s)\<rparr>)"

section \<open>Entropy and its health tests\<close>

definition getentropy :: "'e env_scheme \<Rightarrow> nat \<Rightarrow> ('s rand_st_scheme, bytes option) state" where
  "getentropy E n = act (\<lambda>s. (env_entropy E (os_calls s) n, tick s))"

function raw_platform_entropy :: "'e env_scheme \<Rightarrow> nat \<Rightarrow> ('s rand_st_scheme, bytes option) state" where
  "raw_platform_entropy E len =
     (if len = 0 then ret (Some [])
      else let chunk = (if len < 256 then len else 256)
           in do {
             b \<leftarrow> getentropy E chunk;
             (case b of
                None \<Rightarrow> ret None
              | Some out \<Rightarrow> do {
                  rest \<leftarrow> raw_platform_entropy E (len - chunk);
                  ret (case rest of None \<Rightarrow> None | Some r \<Rightarrow> Some (out @ r))
                })
           })"
  by pat_completeness auto
termination
  by (relation "measure (\<lambda>(E, len). len)") auto

declare raw_platform_entropy.simps [simp del]

definition rct_test :: "u8 \<Rightarrow> 's rand_st_scheme \<Rightarrow> bool \<times> 's rand_st_scheme" where
  "rct_test nxt s =
     (if g_rct_b s \<noteq> 0 \<and> nxt = g_rct_a s
      then let s = s\<lparr>g_rct_b := g_rct_b s + 1\<rparr>
           in (if g_rct_b s \<ge> rct_critical ! FIPS_ENTROPY_H then False else True, s)
      else (True, s\<lparr>g_rct_a := nxt, g_rct_b := 1\<rparr>))"

definition apt_test :: "u8 \<Rightarrow> 's rand_st_scheme \<Rightarrow> bool \<times> 's rand_st_scheme" where
  "apt_test nxt s =
     (if g_apt_b s \<noteq> 0
      then let s1 = (if nxt = g_apt_a s then s\<lparr>g_apt_b := g_apt_b s + 1\<rparr> else s)
           in if nxt = g_apt_a s \<and> g_apt_b s1 \<ge> apt_critical ! FIPS_ENTROPY_H
              then (False, s1\<lparr>g_apt_b := 0\<rparr>)
              else let s2 = s1\<lparr>g_apt_i := g_apt_i s1 + 1\<rparr>
                   in (True, if g_apt_i s2 \<ge> FIPS_APT_WINDOW then s2\<lparr>g_apt_b := 0\<rparr> else s2)
      else (True, s\<lparr>g_apt_a := nxt, g_apt_b := 1, g_apt_i := 1\<rparr>))"

primrec continuous_health_test :: "bytes \<Rightarrow> ('s rand_st_scheme, bool) state" where
  "continuous_health_test [] = ret True"
| "continuous_health_test (b # buf) = do {
     r \<leftarrow> act (rct_test b);
     if \<not> r then ret False
     else do {
       a \<leftarrow> act (apt_test b);
       if \<not> a then ret False else continuous_health_test buf
     }
   }"

definition entropy_health_fail :: "string \<Rightarrow> ('s rand_st_scheme, unit) state" where
  "entropy_health_fail msg = do {
     upd (\<lambda>s. s\<lparr>g_health_failed := True\<rparr>);
     upd (qudo_audit_log QUDO_SEV_FATAL QUDO_ERR_DRBG_HEALTH_FAIL ''DRBG'' msg);
     upd (qudo_pqc_set_error_state (Some ''DRBG_Health''))
   }"

text \<open>The loop of \<open>startup_health_test\<close>; \<open>remaining\<close> starts at 1024.\<close>

function startup_loop :: "'e env_scheme \<Rightarrow> nat \<Rightarrow> ('s rand_st_scheme, int) state" where
  "startup_loop E remaining =
     (if remaining = 0 then ret 0
      else let chunk = (if remaining < 64 then remaining else 64)
           in do {
             b \<leftarrow> raw_platform_entropy E chunk;
             (case b of
                None \<Rightarrow> do { entropy_health_fail ''Startup entropy read failed''; ret (-1) }
              | Some buf \<Rightarrow> do {
                  ok \<leftarrow> continuous_health_test buf;
                  if \<not> ok
                  then do { entropy_health_fail ''Startup entropy health test failed (RCT or APT)''; ret (-1) }
                  else startup_loop E (remaining - chunk)
                })
           })"
  by pat_completeness auto
termination
  by (relation "measure (\<lambda>(E, n). n)") auto

declare startup_loop.simps [simp del]

definition startup_health_test :: "'e env_scheme \<Rightarrow> ('s rand_st_scheme, int) state" where
  "startup_health_test E = startup_loop E FIPS_ENTROPY_STARTUP_SAMPLES"

text \<open>The second half of \<open>platform_entropy\<close>: a read and its continuous test.\<close>

definition tested_read :: "'e env_scheme \<Rightarrow> nat \<Rightarrow> ('s rand_st_scheme, bytes option) state" where
  "tested_read E len = do {
     b \<leftarrow> raw_platform_entropy E len;
     (case b of
        None \<Rightarrow> ret None
      | Some out \<Rightarrow> do {
          ok \<leftarrow> continuous_health_test out;
          if \<not> ok
          then do { entropy_health_fail ''Raw entropy health test failed (RCT or APT)''; ret None }
          else ret (Some out)
        })
   }"

definition platform_entropy :: "'e env_scheme \<Rightarrow> nat \<Rightarrow> ('s rand_st_scheme, bytes option) state" where
  "platform_entropy E len = do {
     failed \<leftarrow> asks g_health_failed;
     if failed then ret None
     else do {
       tested \<leftarrow> asks g_startup_tested;
       if \<not> tested
       then do {
         r \<leftarrow> startup_health_test E;
         if r \<noteq> 0 then ret None
         else do { upd (\<lambda>s. s\<lparr>g_startup_tested := True\<rparr>); tested_read E len }
       }
       else tested_read E len
     }
   }"

section \<open>The generator\<close>

definition qudo_fips_rand_init :: "'e env_scheme \<Rightarrow> bytes option \<Rightarrow> ('s rand_st_scheme, int) state" where
  "qudo_fips_rand_init E entropy =
     (case entropy of
        None \<Rightarrow> ret (-1)
      | Some e \<Rightarrow>
        if length e < FIPS_RAND_SEEDLEN then ret (-1)
        else do {
          once \<leftarrow> asks g_fips_rand_lock_once;
          ok \<leftarrow> act (\<lambda>s. let (r, o1, s) = qudo_once once (do_fips_rand_lock_init E) s
                          in (r, s\<lparr>g_fips_rand_lock_once := o1\<rparr>));
          if ok = 0 then ret (-1)
          else do {
            l \<leftarrow> asks g_fips_rand_lock;
            if l = RwNull then ret (-1)
            else do {
              w \<leftarrow> rand_wrlock;
              if w = 0 then ret (-1)
              else do {
                d \<leftarrow> asks g_fips_drbg;
                (case qudo_ctrdrbg_init (env_aesni E) (Some d) 32 (Some (take FIPS_RAND_SEEDLEN e)) of
                   (rc, d') \<Rightarrow> do {
                     upd (\<lambda>s. s\<lparr>g_fips_drbg := the d'\<rparr>);
                     if rc \<noteq> 0 then do { rand_unlock; ret (-1) }
                     else do {
                       upd (\<lambda>s. s\<lparr>g_fips_rand_gen_count := 0, g_fips_rand_ready := True\<rparr>);
                       rand_unlock;
                       ret 0
                     }
                   })
              }
            }
          }
        })"

text \<open>The reseed that \<open>qudo_fips_rand_bytes\<close> does when the count reaches the interval.\<close>

definition rand_auto_reseed :: "'e env_scheme \<Rightarrow> ('s rand_st_scheme, int) state" where
  "rand_auto_reseed E = do {
     fresh \<leftarrow> platform_entropy E FIPS_RAND_SEEDLEN;
     (case fresh of
        None \<Rightarrow> do { rand_unlock; ret (-1) }
      | Some f \<Rightarrow> do {
          d \<leftarrow> asks g_fips_drbg;
          (case qudo_ctrdrbg_reseed (env_aesni E) (Some d) (Some f) of
             (rc, d') \<Rightarrow> do {
               upd (\<lambda>s. s\<lparr>g_fips_drbg := the d'\<rparr>);
               if rc \<noteq> 0
               then do { rand_unlock; upd (qudo_pqc_set_error_state (Some ''DRBG_Health'')); ret (-1) }
               else do { upd (\<lambda>s. s\<lparr>g_fips_rand_gen_count := 0\<rparr>); ret 0 }
             })
        })
   }"

text \<open>The loop over the request; the result is the return code and the bytes written.\<close>

function rand_loop :: "'e env_scheme \<Rightarrow> nat \<Rightarrow> ('s rand_st_scheme, int \<times> bytes) state" where
  "rand_loop E out_len =
     (if out_len = 0 then ret (0, [])
      else let chunk = (if out_len > 65536 then 65536 else out_len)
           in do {
             upd (\<lambda>s. s\<lparr>g_fips_rand_gen_count := g_fips_rand_gen_count s + 1\<rparr>);
             count \<leftarrow> asks g_fips_rand_gen_count;
             rc \<leftarrow> (if count \<ge> RESEED_INTERVAL then rand_auto_reseed E else ret 0);
             if rc \<noteq> 0 then ret (-1, [])
             else do {
               d \<leftarrow> asks g_fips_drbg;
               (case qudo_ctrdrbg_generate (env_aesni E) (Some d) False chunk None of
                  (rc, d', out) \<Rightarrow> do {
                    upd (\<lambda>s. s\<lparr>g_fips_drbg := the d'\<rparr>);
                    if rc \<noteq> 0 then do { rand_unlock; ret (-1, []) }
                    else do {
                      r \<leftarrow> rand_loop E (out_len - chunk);
                      ret (fst r, the out @ snd r)
                    }
                  })
             }
           })"
  by pat_completeness auto
termination
  by (relation "measure (\<lambda>(E, n). n)") auto

declare rand_loop.simps [simp del]

definition qudo_fips_rand_bytes ::
  "'e env_scheme \<Rightarrow> bool \<Rightarrow> nat \<Rightarrow> ('s rand_st_scheme, int \<times> bytes) state" where
  "qudo_fips_rand_bytes E out_null out_len = do {
     run \<leftarrow> act qudo_pqc_is_running_or_selftest;
     if \<not> run then ret (-1, [])
     else do {
       host \<leftarrow> asks g_host_rand_provider;
       (case (if use_host_drbg E then host else None) of
          Some fn \<Rightarrow>
            if out_null then ret (-1, [])
            else if out_len = 0 then ret (0, [])
            else do {
              b \<leftarrow> act (\<lambda>s. (fn (os_calls s) out_len, tick s));
              ret (case b of Some out \<Rightarrow> (0, out) | None \<Rightarrow> (-1, []))
            }
        | None \<Rightarrow> do {
            ready \<leftarrow> asks g_fips_rand_ready;
            if \<not> ready \<or> out_null then ret (-1, [])
            else if out_len = 0 then ret (0, [])
            else do {
              failed \<leftarrow> asks g_health_failed;
              if failed then ret (-1, [])
              else do {
                w \<leftarrow> rand_wrlock;
                if w = 0 then ret (-1, [])
                else do {
                  r \<leftarrow> rand_loop E out_len;
                  if fst r \<noteq> 0 then ret r
                  else do { rand_unlock; ret r }
                }
              }
            }
          })
     }
   }"

definition qudo_fips_rand_reseed :: "'e env_scheme \<Rightarrow> bytes option \<Rightarrow> ('s rand_st_scheme, int) state" where
  "qudo_fips_rand_reseed E entropy = do {
     run \<leftarrow> act qudo_pqc_is_running_or_selftest;
     if \<not> run then ret (-1)
     else do {
       ready \<leftarrow> asks g_fips_rand_ready;
       (case entropy of
          None \<Rightarrow> ret (-1)
        | Some e \<Rightarrow>
          if \<not> ready then ret (-1)
          else if length e < FIPS_RAND_SEEDLEN then ret (-1)
          else do {
            w \<leftarrow> rand_wrlock;
            if w = 0 then ret (-1)
            else do {
              d \<leftarrow> asks g_fips_drbg;
              (case qudo_ctrdrbg_reseed (env_aesni E) (Some d) (Some (take FIPS_RAND_SEEDLEN e)) of
                 (rc, d') \<Rightarrow> do {
                   upd (\<lambda>s. s\<lparr>g_fips_drbg := the d'\<rparr>);
                   if rc \<noteq> 0
                   then do { rand_unlock; upd (qudo_pqc_set_error_state (Some ''DRBG_Health'')); ret (-1) }
                   else do { upd (\<lambda>s. s\<lparr>g_fips_rand_gen_count := 0\<rparr>); rand_unlock; ret 0 }
                 })
            }
          })
     }
   }"

definition qudo_fips_rand_cleanup :: "('s rand_st_scheme, unit) state" where
  "qudo_fips_rand_cleanup = do {
     ready \<leftarrow> asks g_fips_rand_ready;
     if \<not> ready then ret ()
     else do {
       l \<leftarrow> asks g_fips_rand_lock;
       (if l \<noteq> RwNull then do { w \<leftarrow> rand_wrlock; ret () } else ret ());
       upd (\<lambda>s. s\<lparr>g_fips_rand_ready := False, g_fips_drbg := the (qudo_ctrdrbg_free (Some (g_fips_drbg s))),
                  g_fips_rand_gen_count := 0, g_rct_a := 0, g_rct_b := 0, g_apt_a := 0, g_apt_b := 0,
                  g_apt_i := 0, g_health_failed := False, g_startup_tested := False\<rparr>);
       (if l \<noteq> RwNull then rand_unlock else ret ())
     }
   }"

definition qudo_fips_rand_dep_cleanup :: "('s rand_st_scheme, unit) state" where
  "qudo_fips_rand_dep_cleanup =
     upd (\<lambda>s. s\<lparr>g_fips_rand_lock := (if qudo_rwlock_free (g_fips_rand_lock s) = RwBad then RwBad else RwNull),
                g_fips_rand_lock_once := qudo_once_reset\<rparr>)"

definition qudo_fips_rand_seed_from_platform :: "'e env_scheme \<Rightarrow> ('s rand_st_scheme, int) state" where
  "qudo_fips_rand_seed_from_platform E = do {
     entropy \<leftarrow> platform_entropy E FIPS_RAND_SEEDLEN;
     (case entropy of None \<Rightarrow> ret (-1) | Some e \<Rightarrow> qudo_fips_rand_init E (Some e))
   }"

definition qudo_fips_rand_is_ready :: "'s rand_st_scheme \<Rightarrow> bool" where
  "qudo_fips_rand_is_ready s = g_fips_rand_ready s"

definition qudo_fips_ind_check_operation :: "'e env_scheme \<Rightarrow> string option \<Rightarrow> ('s rand_st_scheme, bool) state" where
  "qudo_fips_ind_check_operation E name = do {
     run \<leftarrow> act qudo_pqc_is_running;
     if \<not> run then ret False
     else if \<not> qudo_pqc_is_fips_approved name then ret False
     else do {
       ready \<leftarrow> asks qudo_fips_rand_is_ready;
       if fips_module E \<and> \<not> ready then ret False else ret True
     }
   }"

section \<open>The health tests against SP 800-90B\<close>

text \<open>
  Section 4.4.1: the repetition count test fails on \<open>n\<close> equal samples in a row.  Section 4.4.2: the
  adaptive proportion test cuts the samples in windows of 512 and fails when the first sample of a
  window occurs 13 times in it.
\<close>

definition no_run :: "nat \<Rightarrow> bytes \<Rightarrow> bool" where
  "no_run n xs \<longleftrightarrow> \<not> (\<exists>i. i + n \<le> length xs \<and> (\<forall>j<n. xs ! (i + j) = xs ! i))"

function apt_windows :: "bytes \<Rightarrow> bool" where
  "apt_windows xs \<longleftrightarrow>
     (if xs = [] then True else count_list (take 512 xs) (hd xs) < 13 \<and> apt_windows (drop 512 xs))"
  by pat_completeness auto
termination
  by (relation "measure length") auto

declare apt_windows.simps [simp del]

text \<open>The two tests on their own state, and that the loop of the code runs both.\<close>

fun rct_accepts :: "u8 \<Rightarrow> nat \<Rightarrow> bytes \<Rightarrow> bool" where
  "rct_accepts a b [] \<longleftrightarrow> True"
| "rct_accepts a b (x # xs) \<longleftrightarrow>
     (if b \<noteq> 0 \<and> x = a then b + 1 < 4 \<and> rct_accepts a (b + 1) xs else rct_accepts x 1 xs)"

fun apt_accepts :: "u8 \<Rightarrow> nat \<Rightarrow> nat \<Rightarrow> bytes \<Rightarrow> bool" where
  "apt_accepts a b i [] \<longleftrightarrow> True"
| "apt_accepts a b i (x # xs) \<longleftrightarrow>
     (if b \<noteq> 0
      then let b' = (if x = a then b + 1 else b)
           in b' < 13 \<and> (if i + 1 \<ge> 512 then apt_accepts a 0 (i + 1) xs else apt_accepts a b' (i + 1) xs)
      else apt_accepts x 1 1 xs)"

definition health_inv :: "'s rand_st_scheme \<Rightarrow> bool" where
  "health_inv s \<longleftrightarrow> g_rct_b s < 4 \<and> g_apt_b s < 13 \<and> (g_apt_b s \<noteq> 0 \<longrightarrow> g_apt_i s < 512)"

lemma unat_inc_below: "(w::u32) < of_nat n \<Longrightarrow> n < 2 ^ 31 \<Longrightarrow> unat (w + 1) = unat w + 1"
proof -
  assume w: "w < of_nat n" and n: "n < 2 ^ 31"
  have "n < 2 ^ 32" using n by simp
  then have "unat (of_nat n :: u32) = n" by (simp add: unsigned_of_nat take_bit_nat_eq_self)
  with w have "unat w < n" by (simp add: word_less_nat_alt)
  with n show ?thesis by (subst unat_add_lem [THEN iffD1]) simp_all
qed

lemma rct_test_spec:
  assumes "g_rct_b s < 4" "rct_test x s = (r, t)"
  shows "rct_accepts (g_rct_a s) (unat (g_rct_b s)) (x # xs)
           \<longleftrightarrow> r \<and> rct_accepts (g_rct_a t) (unat (g_rct_b t)) xs"
    and "r \<Longrightarrow> g_rct_b t < 4"
    and "g_apt_a t = g_apt_a s" "g_apt_b t = g_apt_b s" "g_apt_i t = g_apt_i s"
proof -
  have inc: "unat (g_rct_b s + 1) = unat (g_rct_b s) + 1"
    using unat_inc_below [of "g_rct_b s" 4] assms(1) by simp
  have nz: "g_rct_b s \<noteq> 0 \<longleftrightarrow> unat (g_rct_b s) \<noteq> 0" by (simp add: unat_eq_0)
  have c: "rct_critical ! FIPS_ENTROPY_H = 4" by (simp add: rct_critical_def FIPS_ENTROPY_H_def)
  show "rct_accepts (g_rct_a s) (unat (g_rct_b s)) (x # xs)
           \<longleftrightarrow> r \<and> rct_accepts (g_rct_a t) (unat (g_rct_b t)) xs"
    using assms(2) inc by (auto simp: rct_test_def Let_def c nz word_le_nat_alt word_less_nat_alt split: if_splits)
  show "r \<Longrightarrow> g_rct_b t < 4"
    using assms(2) by (auto simp: rct_test_def Let_def c split: if_splits)
  show "g_apt_a t = g_apt_a s" "g_apt_b t = g_apt_b s" "g_apt_i t = g_apt_i s"
    using assms(2) by (auto simp: rct_test_def Let_def split: if_splits)
qed

lemma apt_test_spec:
  assumes "g_apt_b s < 13" "g_apt_b s \<noteq> 0 \<longrightarrow> g_apt_i s < 512" "apt_test x s = (r, t)"
  shows "apt_accepts (g_apt_a s) (unat (g_apt_b s)) (unat (g_apt_i s)) (x # xs)
           \<longleftrightarrow> r \<and> apt_accepts (g_apt_a t) (unat (g_apt_b t)) (unat (g_apt_i t)) xs"
    and "r \<Longrightarrow> g_apt_b t < 13 \<and> (g_apt_b t \<noteq> 0 \<longrightarrow> g_apt_i t < 512)"
    and "g_rct_a t = g_rct_a s" "g_rct_b t = g_rct_b s"
proof -
  have incb: "unat (g_apt_b s + 1) = unat (g_apt_b s) + 1"
    using unat_inc_below [of "g_apt_b s" 13] assms(1) by simp
  have inci: "g_apt_b s \<noteq> 0 \<Longrightarrow> unat (g_apt_i s + 1) = unat (g_apt_i s) + 1"
    using unat_inc_below [of "g_apt_i s" 512] assms(2) by simp
  have nz: "g_apt_b s \<noteq> 0 \<longleftrightarrow> unat (g_apt_b s) \<noteq> 0" by (simp add: unat_eq_0)
  have c: "apt_critical ! FIPS_ENTROPY_H = 13" by (simp add: apt_critical_def FIPS_ENTROPY_H_def)
  have w: "512 \<le> g_apt_i s + 1 \<longleftrightarrow> 512 \<le> unat (g_apt_i s) + 1" if "g_apt_b s \<noteq> 0"
    using inci [OF that] by (simp add: word_le_nat_alt)
  have b: "13 \<le> g_apt_b s + 1 \<longleftrightarrow> 13 \<le> unat (g_apt_b s) + 1" and b0: "unat (g_apt_b s) < 13"
    using incb assms(1) by (simp_all add: word_le_nat_alt word_less_nat_alt)
  show "apt_accepts (g_apt_a s) (unat (g_apt_b s)) (unat (g_apt_i s)) (x # xs)
           \<longleftrightarrow> r \<and> apt_accepts (g_apt_a t) (unat (g_apt_b t)) (unat (g_apt_i t)) xs"
  proof (cases "g_apt_b s = 0")
    case True
    with assms(3) show ?thesis by (auto simp: apt_test_def)
  next
    case False
    with assms(3) inci [OF False] incb w [OF False] b b0 nz show ?thesis
      by (auto simp: apt_test_def Let_def c FIPS_APT_WINDOW_def split: if_splits)
  qed
  show "r \<Longrightarrow> g_apt_b t < 13 \<and> (g_apt_b t \<noteq> 0 \<longrightarrow> g_apt_i t < 512)"
    using assms by (auto simp: apt_test_def Let_def c FIPS_APT_WINDOW_def split: if_splits)
  show "g_rct_a t = g_rct_a s" "g_rct_b t = g_rct_b s"
    using assms(3) by (auto simp: apt_test_def Let_def split: if_splits)
qed

definition health_of where
  "health_of s = (g_startup_tested s, g_rct_a s, g_rct_b s, g_apt_a s, g_apt_b s, g_apt_i s, g_health_failed s)"

definition accepts :: "'s rand_st_scheme \<Rightarrow> bytes \<Rightarrow> bool" where
  "accepts s buf \<longleftrightarrow> rct_accepts (g_rct_a s) (unat (g_rct_b s)) buf
     \<and> apt_accepts (g_apt_a s) (unat (g_apt_b s)) (unat (g_apt_i s)) buf"

lemma accepts_Nil [simp]: "accepts s []"
  by (simp add: accepts_def)

text \<open>The loop accepts a buffer exactly when the tests do, and can be continued with the next buffer.\<close>

lemma health_accepts:
  assumes "health_inv s"
  shows "wp (continuous_health_test buf) (\<lambda>r t. (\<forall>ys. accepts s (buf @ ys) \<longleftrightarrow> r \<and> accepts t ys) \<and> (r \<longrightarrow> health_inv t)) s"
  using assms
proof (induction buf arbitrary: s)
  case (Cons x buf)
  obtain r t where rt: "rct_test x s = (r, t)" by (cases "rct_test x s")
  obtain a u where au: "apt_test x t = (a, u)" by (cases "apt_test x t")
  have s: "g_rct_b s < 4" "g_apt_b s < 13" "g_apt_b s \<noteq> 0 \<longrightarrow> g_apt_i s < 512"
    using Cons.prems by (simp_all add: health_inv_def)
  note R = rct_test_spec [OF s(1) rt]
  have t: "g_apt_b t < 13" "g_apt_b t \<noteq> 0 \<longrightarrow> g_apt_i t < 512" using R s by simp_all
  note A = apt_test_spec [OF t au]
  have step: "accepts s (x # zs) \<longleftrightarrow> r \<and> a \<and> accepts u zs" for zs
    using R(1) [of zs] A(1) [of zs] R(3-5) A(3,4) by (auto simp: accepts_def)
  show ?case
  proof (cases "r \<and> a")
    case True
    then have "health_inv u" using R(2) A(2,4) by (simp add: health_inv_def)
    from Cons.IH [OF this] show ?thesis
      using True step by (simp add: wp_act rt au)
  next
    case False
    with step show ?thesis by (auto simp: wp_act rt au)
  qed
qed simp

lemma no_run_cons_other:
  assumes "b < n" "x \<noteq> a"
  shows "no_run n (replicate b a @ x # xs) = no_run n (x # xs)"
proof -
  let ?z = "replicate b a @ x # xs"
  have shift: "?z ! (b + k) = (x # xs) ! k" for k by (simp add: nth_append)
  have "(\<exists>i. i + n \<le> length ?z \<and> (\<forall>j<n. ?z ! (i + j) = ?z ! i))
    \<longleftrightarrow> (\<exists>i. i + n \<le> length (x # xs) \<and> (\<forall>j<n. (x # xs) ! (i + j) = (x # xs) ! i))" (is "?L = ?R")
  proof
    assume ?L
    then obtain i where i: "i + n \<le> length ?z" "\<forall>j<n. ?z ! (i + j) = ?z ! i" by blast
    have "b \<le> i"
    proof (rule ccontr)
      assume "\<not> b \<le> i"
      then have ib: "i < b" by simp
      then have "b - i < n" using assms(1) by simp
      with i(2) have "?z ! (i + (b - i)) = ?z ! i" by blast
      with ib assms(2) show False by (simp add: nth_append)
    qed
    then obtain k where k: "i = b + k" by (auto simp: le_iff_add)
    have "k + n \<le> length (x # xs)" "\<forall>j<n. (x # xs) ! (k + j) = (x # xs) ! k"
      using i shift [of "k + _"] shift [of k] by (simp_all add: k add.assoc)
    then show ?R by blast
  next
    assume ?R
    then obtain k where k: "k + n \<le> length (x # xs)" "\<forall>j<n. (x # xs) ! (k + j) = (x # xs) ! k" by blast
    then have "(b + k) + n \<le> length ?z" "\<forall>j<n. ?z ! ((b + k) + j) = ?z ! (b + k)"
      using shift by (simp_all add: add.assoc)
    then show ?L by blast
  qed
  then show ?thesis by (simp add: no_run_def)
qed

lemma no_run_long: "n \<le> b \<Longrightarrow> 0 < n \<Longrightarrow> \<not> no_run n (replicate b a @ xs)"
  by (auto simp: no_run_def nth_append intro!: exI [of _ 0])

lemma no_run_short: "b < n \<Longrightarrow> no_run n (replicate b a)"
  by (simp add: no_run_def)

lemma rct_accepts_no_run: "b < 4 \<Longrightarrow> rct_accepts a b xs \<longleftrightarrow> no_run 4 (replicate b a @ xs)"
proof (induction a b xs rule: rct_accepts.induct)
  case (1 a b)
  then show ?case by (simp add: no_run_short)
next
  case (2 a b x xs)
  show ?case
  proof (cases "b \<noteq> 0 \<and> x = a")
    case True
    then show ?thesis
      using 2 no_run_long [of 4 "b + 1" a xs] by (cases "b + 1 < 4") (simp_all add: replicate_app_Cons_same)
  next
    case False
    then have "no_run 4 (replicate b a @ x # xs) = no_run 4 (x # xs)"
      using no_run_cons_other [of b 4 x a xs] 2(3) by (cases "b = 0") simp_all
    with False 2(2) show ?thesis by auto
  qed
qed

lemma apt_accepts_window:
  assumes "0 < b" "b < 13" "0 < i" "i < 512"
    and next_window: "\<And>ys a' i'. length ys < length xs \<Longrightarrow> apt_accepts a' 0 i' ys \<longleftrightarrow> apt_windows ys"
  shows "apt_accepts a b i xs \<longleftrightarrow> b + count_list (take (512 - i) xs) a < 13 \<and> apt_windows (drop (512 - i) xs)"
  using assms
proof (induction xs arbitrary: b i)
  case Nil
  then show ?case by (simp add: apt_windows.simps)
next
  case (Cons x xs)
  define b' where "b' = (if x = a then b + 1 else b)"
  have "512 - i = Suc (512 - Suc i)" using Cons.prems by simp
  then have t: "take (512 - i) (x # xs) = x # take (512 - Suc i) xs" "drop (512 - i) (x # xs) = drop (512 - Suc i) xs"
    by simp_all
  have c: "b + count_list (take (512 - i) (x # xs)) a = b' + count_list (take (512 - Suc i) xs) a"
    by (simp add: t b'_def)
  have l: "apt_accepts a b i (x # xs) \<longleftrightarrow> b' < 13 \<and> (if i + 1 \<ge> 512 then apt_accepts a 0 (i + 1) xs else apt_accepts a b' (i + 1) xs)"
    using Cons.prems by (simp add: b'_def Let_def)
  show ?case
  proof (cases "Suc i = 512")
    case True
    then show ?thesis unfolding l c t(2) using Cons.prems(5) [of xs] by simp
  next
    case False
    show ?thesis
    proof (cases "b' < 13")
      case True
      have "apt_accepts a b' (Suc i) xs \<longleftrightarrow> b' + count_list (take (512 - Suc i) xs) a < 13 \<and> apt_windows (drop (512 - Suc i) xs)"
        by (rule Cons.IH) (use Cons.prems False True in \<open>auto simp: b'_def\<close>)
      with True False Cons.prems(4) show ?thesis unfolding l c t(2) by simp
    qed (unfold l c t(2), simp)
  qed
qed

lemma apt_accepts_windows: "apt_accepts a 0 i xs \<longleftrightarrow> apt_windows xs"
proof (induction "length xs" arbitrary: a i xs rule: less_induct)
  case less
  show ?case
  proof (cases xs)
    case Nil
    then show ?thesis by (simp add: apt_windows.simps)
  next
    case (Cons x ys)
    have "apt_accepts x 1 1 ys \<longleftrightarrow> 1 + count_list (take (512 - 1) ys) x < 13 \<and> apt_windows (drop (512 - 1) ys)"
      by (rule apt_accepts_window) (use less Cons in auto)
    then show ?thesis
      using Cons by (simp add: apt_windows.simps [of "x # ys"] take_Cons' drop_Cons')
  qed
qed

lemma accepts_fresh:
  assumes "g_rct_b s = 0" "g_apt_b s = 0"
  shows "health_inv s" "accepts s buf \<longleftrightarrow> no_run 4 buf \<and> apt_windows buf"
  using assms by (simp_all add: health_inv_def accepts_def rct_accepts_no_run apt_accepts_windows)

lemma accepts_cong:
  assumes "health_of t = health_of s"
  shows "accepts t = accepts s" "health_inv t = health_inv s"
  using assms by (auto simp: health_of_def accepts_def health_inv_def fun_eq_iff)

section \<open>What the operations keep\<close>

definition rand_core where
  "rand_core s = (g_fips_drbg s, g_fips_rand_ready s, g_fips_rand_gen_count s, g_fips_rand_lock s,
     g_fips_rand_lock_once s, g_host_rand_provider s, rand_st.more s)"

lemma rand_of_more:
  "mod_st.more t = mod_st.more s \<Longrightarrow> rand_core t = rand_core s \<and> health_of t = health_of s"
  by (cases s; cases t) (simp add: rand_core_def health_of_def)

lemma calm_of_mod:
  assumes "mod_st.truncate t = mod_st.truncate s"
  shows "calm s t"
  using assms
  by (cases s; cases t) (simp add: mod_st.truncate_def calm_def svc_def config_of_def mod_inv_def audit_inv_def notices_def)

lemma tick_keeps [simp]: "calm s (tick s)" "rand_core (tick s) = rand_core s" "health_of (tick s) = health_of s"
  by (simp_all add: rand_of_more [OF tick_more])

lemma getentropy_spec:
  "wp (getentropy E n) (\<lambda>r t. r = env_entropy E (os_calls s) n \<and> calm s t \<and> rand_core t = rand_core s \<and> health_of t = health_of s) s"
  by (simp add: getentropy_def wp_act)

definition entropy_ok :: "'e env_scheme \<Rightarrow> bool" where
  "entropy_ok E \<longleftrightarrow> (\<forall>k n b. env_entropy E k n = Some b \<longrightarrow> length b = n)"

lemma raw_entropy_spec:
  "wp (raw_platform_entropy E n) (\<lambda>r t. calm s t \<and> rand_core t = rand_core s \<and> health_of t = health_of s
     \<and> (entropy_ok E \<longrightarrow> (\<forall>b. r = Some b \<longrightarrow> length b = n))) s"
proof (induction E n arbitrary: s rule: raw_platform_entropy.induct)
  case (1 E n)
  show ?case
  proof (cases "n = 0")
    case False
    define c where "c = (if n < 256 then n else 256)"
    have c: "c \<le> n" by (simp add: c_def)
    note IH = 1 [OF False c_def]
    show ?thesis
      apply (subst raw_platform_entropy.simps)
      apply (simp add: False c_def [symmetric])
      apply (rule wp_use [OF getentropy_spec])
      apply (clarsimp split: option.split)
      apply (rule wp_use [OF IH])
      apply (use c in \<open>auto simp: entropy_ok_def intro: calm_trans split: option.split\<close>)
      done
  qed (simp add: raw_platform_entropy.simps)
qed

lemma rct_test_keeps: "calm s (snd (rct_test x s))" "rand_core (snd (rct_test x s)) = rand_core s"
  "g_startup_tested (snd (rct_test x s)) = g_startup_tested s" "g_health_failed (snd (rct_test x s)) = g_health_failed s"
  by (auto simp: rct_test_def Let_def rand_core_def mod_st.truncate_def intro!: calm_of_mod)

lemma apt_test_keeps: "calm s (snd (apt_test x s))" "rand_core (snd (apt_test x s)) = rand_core s"
  "g_startup_tested (snd (apt_test x s)) = g_startup_tested s" "g_health_failed (snd (apt_test x s)) = g_health_failed s"
  by (auto simp: apt_test_def Let_def rand_core_def mod_st.truncate_def intro!: calm_of_mod)

lemma health_test_keeps:
  "wp (continuous_health_test buf) (\<lambda>r t. calm s t \<and> rand_core t = rand_core s
     \<and> g_startup_tested t = g_startup_tested s \<and> g_health_failed t = g_health_failed s) s"
proof (induction buf arbitrary: s)
  case (Cons x buf)
  let ?t = "snd (rct_test x s)" let ?u = "snd (apt_test x ?t)"
  have tu: "calm s ?t" "calm s ?u" "rand_core ?u = rand_core s"
    "g_startup_tested ?u = g_startup_tested s" "g_health_failed ?u = g_health_failed s"
    by (simp_all add: rct_test_keeps apt_test_keeps calm_trans [OF rct_test_keeps(1) apt_test_keeps(1)])
  have "wp (continuous_health_test buf) (\<lambda>r v. calm s v \<and> rand_core v = rand_core s
     \<and> g_startup_tested v = g_startup_tested s \<and> g_health_failed v = g_health_failed s) ?u"
    by (rule wp_use [OF Cons.IH]) (use tu calm_trans in \<open>auto\<close>)
  with tu show ?case by (simp add: wp_act case_prod_beta rct_test_keeps)
qed simp

lemma health_fail_spec:
  "wp (entropy_health_fail msg) (\<lambda>_ t. svc s t \<and> rand_core t = rand_core s \<and> g_health_failed t
     \<and> g_module_state t = ST_ERROR) s"
proof -
  define s1 where "s1 = s\<lparr>g_health_failed := True\<rparr>"
  define s2 where "s2 = qudo_audit_log QUDO_SEV_FATAL QUDO_ERR_DRBG_HEALTH_FAIL ''DRBG'' msg s1"
  define s3 where "s3 = qudo_pqc_set_error_state (Some ''DRBG_Health'') s2"
  have "calm s s1" unfolding s1_def by (rule calm_of_mod) (simp add: mod_st.truncate_def)
  then have svc: "svc s s3"
    unfolding s3_def s2_def by (blast intro: svc_trans calm_svc audit_log_calm set_error_state_svc)
  have "mod_st.more s3 = mod_st.more s1" by (simp add: s3_def s2_def)
  from rand_of_more [OF this] have k: "rand_core s3 = rand_core s \<and> g_health_failed s3"
    by (simp add: s1_def rand_core_def health_of_def)
  have e: "g_module_state s3 = ST_ERROR" by (simp add: s3_def set_error_state_state)
  show ?thesis
    using svc k e by (simp add: entropy_health_fail_def s1_def s2_def s3_def)
qed

lemma startup_loop_spec:
  "wp (startup_loop E n) (\<lambda>r t. svc s t \<and> rand_core t = rand_core s
     \<and> (r = 0 \<longrightarrow> calm s t \<and> g_health_failed t = g_health_failed s)) s"
proof (induction E n arbitrary: s rule: startup_loop.induct)
  case (1 E n)
  show ?case
  proof (cases "n = 0")
    case False
    define c where "c = (if n < 64 then n else 64)"
    note IH = 1 [OF False c_def]
    show ?thesis
      apply (subst startup_loop.simps)
      apply (simp add: False c_def [symmetric])
      apply (rule wp_use [OF raw_entropy_spec])
      apply (clarsimp split: option.split)
      apply (intro conjI impI allI)
       apply (rule wp_use [OF health_fail_spec])
       apply (auto intro: calm_svc_trans) [1]
      apply (rule wp_use [OF health_test_keeps])
      apply (clarsimp, intro conjI impI)
       apply (rule wp_use [OF health_fail_spec])
       apply (auto intro: calm_trans calm_svc_trans) [1]
      apply (rule wp_use [OF IH])
      apply (auto simp: health_of_def intro: calm_trans calm_svc_trans)
      done
  qed (simp add: startup_loop.simps)
qed

lemma startup_tested_calm: "calm s (s\<lparr>g_startup_tested := x\<rparr>)" "rand_core (s\<lparr>g_startup_tested := x\<rparr>) = rand_core s"
  by (rule calm_of_mod, simp add: mod_st.truncate_def) (simp add: rand_core_def)

lemma tested_read_spec:
  assumes "\<not> g_health_failed s" "g_startup_tested s"
  shows "wp (tested_read E n) (\<lambda>r t. svc s t \<and> rand_core t = rand_core s
     \<and> (\<forall>b. r = Some b \<longrightarrow> calm s t \<and> \<not> g_health_failed t \<and> g_startup_tested t \<and> (entropy_ok E \<longrightarrow> length b = n))) s"
  unfolding tested_read_def wp_bind
  apply (rule wp_use [OF raw_entropy_spec])
  apply (clarsimp split: option.split)
  apply (intro conjI impI allI)
   apply (blast intro: calm_svc)
  apply (rule wp_use [OF health_test_keeps])
  apply (clarsimp, intro conjI impI)
   apply (rule wp_use [OF health_fail_spec])
   apply (use assms in \<open>auto simp: health_of_def intro: calm_svc_trans calm_trans calm_svc\<close>)
  done

lemma platform_entropy_spec:
  "wp (platform_entropy E n) (\<lambda>r t. svc s t \<and> rand_core t = rand_core s
     \<and> (\<forall>b. r = Some b \<longrightarrow> calm s t \<and> \<not> g_health_failed t \<and> g_startup_tested t \<and> (entropy_ok E \<longrightarrow> length b = n))) s"
proof (cases "g_health_failed s \<or> g_startup_tested s")
  case True
  with tested_read_spec [of s E n] show ?thesis by (auto simp: platform_entropy_def)
next
  case nt: False
  then show ?thesis
    unfolding platform_entropy_def startup_health_test_def
    apply simp
    apply (rule wp_use [OF startup_loop_spec])
    subgoal for r t
    proof (cases "r = 0")
      case True
      assume "svc s t \<and> rand_core t = rand_core s \<and> (r = 0 \<longrightarrow> calm s t \<and> g_health_failed t = g_health_failed s)"
      with True nt have t: "calm s (t\<lparr>g_startup_tested := True\<rparr>)" "rand_core (t\<lparr>g_startup_tested := True\<rparr>) = rand_core s"
        "\<not> g_health_failed (t\<lparr>g_startup_tested := True\<rparr>)" "g_startup_tested (t\<lparr>g_startup_tested := True\<rparr>)"
        by (auto simp: startup_tested_calm intro: calm_trans startup_tested_calm)
      show ?thesis
        apply (simp add: True)
        apply (rule wp_use [OF tested_read_spec [OF t(3,4)]])
        apply (use t in \<open>auto intro: calm_svc_trans calm_trans\<close>)
        done
    qed simp
    done
qed

text \<open>
  The invariant of the generator between calls: its lock is free or absent, and once it is ready the
  context is a keyed AES-256 generator.
\<close>

definition drbg_ready :: "'e env_scheme \<Rightarrow> qudo_ctrdrbg_ctx_t \<Rightarrow> bool" where
  "drbg_ready E d \<longleftrightarrow> drbg_inv (env_aesni E) 8 d \<and> drbg_initialized d"

definition rand_inv :: "'e env_scheme \<Rightarrow> 's rand_st_scheme \<Rightarrow> bool" where
  "rand_inv E s \<longleftrightarrow> idle (g_fips_rand_lock s) \<and> (g_fips_rand_lock s \<noteq> RwNull \<longrightarrow> g_fips_rand_lock_once s)
     \<and> (g_fips_rand_ready s \<longrightarrow> g_fips_rand_lock s = RwFree \<and> drbg_ready E (g_fips_drbg s))"

lemma rand_inv_core: "rand_core t = rand_core s \<Longrightarrow> rand_inv E t = rand_inv E s"
  by (simp add: rand_inv_def rand_core_def)

lemma rand_upd_calm [simp]:
  "calm s (s\<lparr>g_fips_rand_lock := l\<rparr>)" "calm s (s\<lparr>g_fips_drbg := d\<rparr>)" "calm s (s\<lparr>g_fips_rand_gen_count := c\<rparr>)"
  "calm s (s\<lparr>g_fips_rand_ready := r\<rparr>)" "calm s (s\<lparr>g_fips_rand_lock_once := o1\<rparr>)"
  by (rule calm_of_mod, simp add: mod_st.truncate_def)+

lemma drbg_generate_ready:
  assumes "drbg_ready E d" "n \<le> 65536"
  obtains d' out where "qudo_ctrdrbg_generate (env_aesni E) (Some d) False n None = (0, Some d', Some out)"
    "drbg_ready E d'" "length out = n" "(out, drbg_abs d') = CTR_DRBG_Generate 8 (drbg_abs d) n []"
proof -
  obtain d' out where g: "qudo_ctrdrbg_generate (env_aesni E) (Some d) False n None = (0, Some d', Some out)"
    "drbg_inv (env_aesni E) 8 d'" "drbg_initialized d'"
    and o: "(out, drbg_abs d') = CTR_DRBG_Generate 8 (drbg_abs d) n (case None of None \<Rightarrow> [] | Some a \<Rightarrow> a)"
    by (rule generate_refines [of "env_aesni E" 8 d n False None]) (use assms in \<open>auto simp: drbg_ready_def\<close>)
  have "length out = n" using arg_cong [OF o, of fst] by (simp add: length_generate)
  with g o that show thesis by (simp add: drbg_ready_def)
qed

lemma drbg_reseed_ready:
  assumes "drbg_ready E d" "length e = 48"
  obtains d' where "qudo_ctrdrbg_reseed (env_aesni E) (Some d) (Some e) = (0, Some d')"
    "drbg_ready E d'" "drbg_abs d' = CTR_DRBG_Reseed 8 (drbg_abs d) e"
  by (rule reseed_refines [of "env_aesni E" 8 d e])
    (use assms that in \<open>auto simp: drbg_ready_def drbg_inv_def\<close>)

lemma drbg_reseed_short:
  assumes "drbg_ready E d" "length e \<noteq> 48"
  shows "qudo_ctrdrbg_reseed (env_aesni E) (Some d) (Some e) = (-1, Some d)"
  using assms by (simp add: drbg_ready_def drbg_inv_def qudo_ctrdrbg_reseed_def)

lemma drbg_init_ready:
  assumes "length e = 48"
  obtains d' where "qudo_ctrdrbg_init (env_aesni E) (Some d) 32 (Some e) = (0, Some d')"
    "drbg_ready E d'" "drbg_abs d' = CTR_DRBG_Instantiate 8 e"
  by (rule init_refines [of 32 e "env_aesni E" d]) (use assms that in \<open>auto simp: drbg_ready_def\<close>)

text \<open>Seeding.\<close>

lemma rand_init_spec:
  assumes inv: "rand_inv E s"
  shows "wp (qudo_fips_rand_init E entropy) (\<lambda>r t. calm s t \<and> rand_inv E t \<and> rand_st.more t = rand_st.more s
     \<and> health_of t = health_of s \<and> g_host_rand_provider t = g_host_rand_provider s
     \<and> (g_fips_rand_ready s \<longrightarrow> g_fips_rand_ready t)
     \<and> (r = 0 \<longrightarrow> g_fips_rand_ready t \<and> g_fips_rand_gen_count t = 0
         \<and> (\<exists>e. entropy = Some e \<and> 48 \<le> length e \<and> drbg_abs (g_fips_drbg t) = CTR_DRBG_Instantiate 8 (take 48 e)))) s"
proof (cases "\<exists>e. entropy = Some e \<and> 48 \<le> length e")
  case False
  then have "wp (qudo_fips_rand_init E entropy) (\<lambda>r t. r = -1 \<and> t = s) s"
    by (cases entropy) (auto simp: qudo_fips_rand_init_def FIPS_RAND_SEEDLEN_def)
  then show ?thesis by (rule wp_use) (use inv in auto)
next
  case True
  then obtain e where e: "entropy = Some e" "48 \<le> length e" by blast
  define u where "u = (if g_fips_rand_lock_once s then s else do_fips_rand_lock_init E s)\<lparr>g_fips_rand_lock_once := True\<rparr>"
  have "calm s u"
  proof (cases "g_fips_rand_lock_once s")
    case False
    have "calm (tick s) u"
      by (rule calm_of_mod)
        (simp add: u_def False do_fips_rand_lock_init_def qudo_rwlock_new_def Let_def mod_st.truncate_def)
    with tick_calm show ?thesis by (rule calm_trans)
  qed (simp add: u_def)
  moreover have "rand_st.more u = rand_st.more s" "health_of u = health_of s" "g_fips_drbg u = g_fips_drbg s"
    "g_host_rand_provider u = g_host_rand_provider s" "g_fips_rand_ready u = g_fips_rand_ready s"
    "idle (g_fips_rand_lock u)" "g_fips_rand_ready u \<longrightarrow> g_fips_rand_lock u = RwFree" "g_fips_rand_lock_once u"
    using inv
    by (auto simp: u_def do_fips_rand_lock_init_def qudo_rwlock_new_def rand_inv_def health_of_def tick_def Let_def)
  ultimately have u: "calm s u" "rand_st.more u = rand_st.more s" "health_of u = health_of s" "g_fips_drbg u = g_fips_drbg s"
    "g_host_rand_provider u = g_host_rand_provider s" "g_fips_rand_ready u = g_fips_rand_ready s"
    "idle (g_fips_rand_lock u)" "g_fips_rand_ready u \<longrightarrow> g_fips_rand_lock u = RwFree" "g_fips_rand_lock_once u"
    by simp_all
  obtain d' where d': "qudo_ctrdrbg_init (env_aesni E) (Some (g_fips_drbg u)) 32 (Some (take 48 e)) = (0, Some d')"
    "drbg_ready E d'" "drbg_abs d' = CTR_DRBG_Instantiate 8 (take 48 e)"
    by (rule drbg_init_ready [of "take 48 e" E "g_fips_drbg u"]) (use e in auto)
  have once: "wp (qudo_fips_rand_init E entropy) Q s =
      (if g_fips_rand_lock u = RwNull then Q (-1) u
       else Q 0 (u\<lparr>g_fips_drbg := d', g_fips_rand_gen_count := 0, g_fips_rand_ready := True, g_fips_rand_lock := RwFree\<rparr>))" for Q
    using e d'
    by (rule_tac idle_cases [OF u(7)]) (simp_all add: qudo_fips_rand_init_def FIPS_RAND_SEEDLEN_def wp_act qudo_once_def
        u_def [symmetric] rand_wrlock_def rand_unlock_def Let_def)
  have c2: "calm s (u\<lparr>g_fips_drbg := d', g_fips_rand_gen_count := 0, g_fips_rand_ready := True, g_fips_rand_lock := RwFree\<rparr>)"
    by (rule calm_trans [OF u(1) calm_of_mod]) (simp add: mod_st.truncate_def)
  show ?thesis
    unfolding once using u d' e c2 inv by (auto simp: rand_inv_def health_of_def)
qed

text \<open>Generating: while a request is served the lock is held for writing.\<close>

definition rand_held :: "'e env_scheme \<Rightarrow> 's rand_st_scheme \<Rightarrow> bool" where
  "rand_held E s \<longleftrightarrow> g_fips_rand_lock s = RwWrite \<and> g_fips_rand_lock_once s \<and> g_fips_rand_ready s
     \<and> drbg_ready E (g_fips_drbg s)"

definition rand_rest where
  "rand_rest s = (g_fips_rand_ready s, g_host_rand_provider s, rand_st.more s)"

lemma rand_rest_core: "rand_core t = rand_core s \<Longrightarrow> rand_rest t = rand_rest s"
  by (simp add: rand_core_def rand_rest_def)

lemma rand_held_core: "rand_core t = rand_core s \<Longrightarrow> rand_held E t = rand_held E s"
  by (simp add: rand_held_def rand_core_def)

lemma rand_rest_upd [simp]:
  "rand_rest (s\<lparr>g_fips_rand_lock := l\<rparr>) = rand_rest s" "rand_rest (s\<lparr>g_fips_drbg := d\<rparr>) = rand_rest s"
  "rand_rest (s\<lparr>g_fips_rand_gen_count := c\<rparr>) = rand_rest s"
  by (simp_all add: rand_rest_def)

lemma rand_unlock_spec:
  "rand_held E s \<Longrightarrow> wp rand_unlock (\<lambda>_ t. calm s t \<and> rand_rest t = rand_rest s \<and> rand_inv E t
      \<and> g_fips_rand_gen_count t = g_fips_rand_gen_count s \<and> g_fips_drbg t = g_fips_drbg s) s"
  by (simp add: rand_unlock_def rand_held_def rand_inv_def)

lemma reseed_failed:
  assumes "svc s t" "rand_held E t" "rand_rest t = rand_rest s"
  shows "wp (do { rand_unlock; upd (qudo_pqc_set_error_state (Some ''DRBG_Health'')); ret (-1) })
    (\<lambda>r u. r \<noteq> (0::int) \<and> svc s u \<and> rand_rest u = rand_rest s \<and> rand_inv E u) t"
  apply simp
  apply (rule wp_use [OF rand_unlock_spec [OF assms(2)]])
  subgoal for r u
  proof -
    let ?v = "qudo_pqc_set_error_state (Some ''DRBG_Health'') u"
    assume u: "calm t u \<and> rand_rest u = rand_rest t \<and> rand_inv E u
      \<and> g_fips_rand_gen_count u = g_fips_rand_gen_count t \<and> g_fips_drbg u = g_fips_drbg t"
    have v: "rand_core ?v = rand_core u" using rand_of_more [OF set_error_state_more] by blast
    have "svc s ?v" using u assms by (blast intro: svc_trans calm_svc set_error_state_svc)
    with u assms rand_rest_core [OF v] rand_inv_core [OF v, of E] show ?thesis by simp
  qed
  done

lemma auto_reseed_spec:
  assumes held: "rand_held E s"
  shows "wp (rand_auto_reseed E) (\<lambda>r t. svc s t \<and> rand_rest t = rand_rest s
      \<and> (if r = 0 then calm s t \<and> rand_held E t \<and> g_fips_rand_gen_count t = 0 else rand_inv E t)) s"
  unfolding rand_auto_reseed_def wp_bind
proof (rule wp_use [OF platform_entropy_spec], goal_cases)
  case (1 r t)
  then have t: "svc s t" "rand_held E t" "rand_rest t = rand_rest s" "drbg_ready E (g_fips_drbg t)"
    using held rand_rest_core [of t s] rand_held_core [of t s E] by (auto simp: rand_held_def)
  show ?case
  proof (cases r)
    case None
    then show ?thesis
      apply simp
      apply (rule wp_use [OF rand_unlock_spec [OF t(2)]])
      apply (use t in \<open>auto intro: svc_trans calm_svc\<close>)
      done
  next
    case (Some f)
    with 1 have c: "calm s t" by simp
    show ?thesis
    proof (cases "length f = 48")
      case True
      obtain d' where d': "qudo_ctrdrbg_reseed (env_aesni E) (Some (g_fips_drbg t)) (Some f) = (0, Some d')" "drbg_ready E d'"
        by (rule drbg_reseed_ready [OF t(4) True])
      have "calm s (t\<lparr>g_fips_drbg := d', g_fips_rand_gen_count := 0\<rparr>)"
        using c by (rule calm_trans) (rule calm_of_mod, simp add: mod_st.truncate_def)
      then show ?thesis
        using t d' Some by (auto simp: rand_held_def rand_rest_def intro: calm_svc)
    next
      case False
      note r = drbg_reseed_short [OF t(4) False]
      have "t\<lparr>g_fips_drbg := g_fips_drbg t\<rparr> = t" by simp
      with reseed_failed [OF t(1-3)] show ?thesis
        by (simp add: Some r) (erule wp_use, simp)
    qed
  qed
qed

lemma rand_loop_spec:
  "rand_held E s \<Longrightarrow> wp (rand_loop E n) (\<lambda>r t. svc s t \<and> rand_rest t = rand_rest s
      \<and> (if fst r = 0 then calm s t \<and> rand_held E t \<and> length (snd r) = n
            \<and> (if n = 0 then t = s else g_fips_rand_gen_count t < RESEED_INTERVAL) else rand_inv E t)) s"
proof (induction n arbitrary: s rule: less_induct)
  case (less n)
  show ?case
  proof (cases "n = 0")
    case True
    then show ?thesis using less.prems by (simp add: rand_loop.simps)
  next
    case False
    define c where "c = (if n > 65536 then 65536 else n)"
    have c: "c \<le> n" "c \<le> 65536" "0 < c" using False by (simp_all add: c_def)
    have IH: "n - c < n" using c False by simp
    define s1 where "s1 = s\<lparr>g_fips_rand_gen_count := g_fips_rand_gen_count s + 1\<rparr>"
    have s1: "calm s s1" "rand_rest s1 = rand_rest s" "rand_held E s1"
      using less.prems by (simp_all add: s1_def rand_held_def)
    define G where "G = do { d \<leftarrow> asks (g_fips_drbg :: 'b rand_st_scheme \<Rightarrow> _);
         (case qudo_ctrdrbg_generate (env_aesni E) (Some d) False c None of
            (rc, d', out) \<Rightarrow> do {
              upd (\<lambda>s. s\<lparr>g_fips_drbg := the d'\<rparr>);
              if rc \<noteq> 0 then do { rand_unlock; ret (-1, []) }
              else do { r \<leftarrow> rand_loop E (n - c); ret (fst r, the out @ snd r) } }) }"
    have loop: "rand_loop E n = do {
             upd (\<lambda>s. s\<lparr>g_fips_rand_gen_count := g_fips_rand_gen_count s + 1\<rparr>);
             count \<leftarrow> asks g_fips_rand_gen_count;
             rc \<leftarrow> (if count \<ge> RESEED_INTERVAL then rand_auto_reseed E else ret 0);
             if rc \<noteq> 0 then ret (-1, []) else G }"
      by (subst rand_loop.simps) (simp only: False if_False Let_def c_def [symmetric] G_def)
    have gen: "wp G (\<lambda>r t. svc s t \<and> rand_rest t = rand_rest s
      \<and> (if fst r = 0 then calm s t \<and> rand_held E t \<and> length (snd r) = n
            \<and> (if n = 0 then t = s else g_fips_rand_gen_count t < RESEED_INTERVAL) else rand_inv E t)) t"
      if t: "calm s t" "rand_rest t = rand_rest s" "rand_held E t" "g_fips_rand_gen_count t < RESEED_INTERVAL" for t
    proof -
      obtain d' out where g: "qudo_ctrdrbg_generate (env_aesni E) (Some (g_fips_drbg t)) False c None = (0, Some d', Some out)"
        "drbg_ready E d'" "length out = c"
        by (rule drbg_generate_ready [of E "g_fips_drbg t" c]) (use t c in \<open>auto simp: rand_held_def\<close>)
      let ?u = "t\<lparr>g_fips_drbg := d'\<rparr>"
      have u: "rand_held E ?u" "calm s ?u" "rand_rest ?u = rand_rest s" "g_fips_rand_gen_count ?u < RESEED_INTERVAL"
        using t g calm_trans [OF t(1)] by (simp_all add: rand_held_def)
      show ?thesis
        apply (simp add: G_def g)
        apply (rule wp_use [OF less.IH [OF IH u(1)]])
        using u c g False
        by (auto intro: calm_svc_trans calm_trans split: if_splits)
    qed
    show ?thesis
    proof (cases "RESEED_INTERVAL \<le> g_fips_rand_gen_count s1")
      case True
      show ?thesis
        unfolding loop wp_bind wp_upd wp_asks s1_def [symmetric]
        apply (simp only: True if_True wp_if)
        apply (rule wp_use [OF auto_reseed_spec [OF s1(3)]])
        subgoal for r t
          using gen [of t] s1 calm_trans [OF s1(1), of t] calm_svc_trans [OF s1(1), of t]
          by (cases "r = 0") (auto simp: RESEED_INTERVAL_def)
        done
    next
      case False
      with gen [OF s1] show ?thesis
        unfolding loop wp_bind wp_upd wp_asks s1_def [symmetric] by simp
    qed
  qed
qed

definition host_drbg :: "'e env_scheme \<Rightarrow> 's rand_st_scheme \<Rightarrow> bool" where
  "host_drbg E s \<longleftrightarrow> use_host_drbg E \<and> g_host_rand_provider s \<noteq> None"

lemma rand_inv_lock:
  "rand_inv E s \<Longrightarrow> g_fips_rand_ready s \<Longrightarrow>
     wp rand_wrlock (\<lambda>w t. w = 1 \<and> t = s\<lparr>g_fips_rand_lock := RwWrite\<rparr> \<and> rand_held E t) s"
  by (simp add: rand_wrlock_def wp_act rand_inv_def rand_held_def Let_def)

lemma rand_bytes_spec:
  assumes inv: "rand_inv E s" and lock: "lock_ok s"
  shows "wp (qudo_fips_rand_bytes E out_null n) (\<lambda>r t. svc s t \<and> rand_inv E t \<and> rand_rest t = rand_rest s
     \<and> (fst r = 0 \<longrightarrow> calm s t \<and> \<not> out_null \<and> (g_module_state s = ST_RUNNING \<or> g_module_state s = ST_SELFTEST)
         \<and> (host_drbg E s \<or> g_fips_rand_ready s \<and> length (snd r) = n
              \<and> (n = 0 \<or> \<not> g_health_failed s \<and> g_fips_rand_gen_count t < RESEED_INTERVAL)))
     \<and> (fst r \<noteq> 0 \<and> (host_drbg E s \<or> \<not> g_fips_rand_ready s) \<longrightarrow> snd r = [])) s"
    (is "wp _ ?Q s")
proof -
  have more: "svc s t \<and> rand_inv E t \<and> rand_rest t = rand_rest s" if "calm s t" "mod_st.more t = mod_st.more s" for t
    using that inv rand_of_more [OF that(2)] rand_inv_core [of t s E] rand_rest_core [of t s]
    by (simp add: calm_svc)
  show ?thesis
    unfolding qudo_fips_rand_bytes_def wp_bind
  proof (rule wp_use [OF gate_spec [OF lock]], goal_cases)
    case (1 run t)
    show ?case
    proof (cases run)
      case False
      with 1 more [of t] show ?thesis by simp
    next
      case True
      with 1 have t: "t = s" and st: "g_module_state s = ST_RUNNING \<or> g_module_state s = ST_SELFTEST" by auto
      show ?thesis
      proof (cases "host_drbg E s")
        case True
        then obtain fn where "use_host_drbg E" "g_host_rand_provider s = Some fn" by (auto simp: host_drbg_def)
        with \<open>run\<close> st inv more [OF tick_calm tick_more] True show ?thesis
          by (auto simp: t wp_act split: option.split)
      next
        case False
        then have no: "(if use_host_drbg E then g_host_rand_provider s else None) = None"
          by (auto simp: host_drbg_def)
        show ?thesis
        proof (cases "\<not> g_fips_rand_ready s \<or> out_null \<or> n = 0 \<or> g_health_failed s")
          case True
          with \<open>run\<close> no st inv show ?thesis by (auto simp: t False)
        next
          case go: False
          then have ready: "g_fips_rand_ready s" by simp
          have body: "wp (rand_loop E n) (\<lambda>r. wp (if fst r \<noteq> 0 then ret r else do { rand_unlock; ret r }) ?Q)
              (s\<lparr>g_fips_rand_lock := RwWrite\<rparr>)"
            if h: "rand_held E (s\<lparr>g_fips_rand_lock := RwWrite\<rparr>)"
          proof (rule wp_use [OF rand_loop_spec [OF h]], goal_cases)
            case (1 r t)
            then have t: "svc s t" "rand_rest t = rand_rest s"
              by (auto intro: calm_svc_trans [OF rand_upd_calm(1)])
            show ?case
            proof (cases "fst r = 0")
              case True
              with 1 have "calm s t" by (auto intro: calm_trans [OF rand_upd_calm(1)])
              with True 1 show ?thesis
                apply simp
                apply (rule wp_use [OF rand_unlock_spec [of E]])
                 apply (use t go st in \<open>auto intro: calm_trans calm_svc\<close>)
                done
            next
              case False
              with 1 t ready \<open>\<not> host_drbg E s\<close> show ?thesis by simp
            qed
          qed
          from go no \<open>run\<close> show ?thesis
            apply (simp add: t)
            apply (rule wp_use [OF rand_inv_lock [OF inv ready]])
            apply clarsimp
            apply (use body in simp)
            done
        qed
      qed
    qed
  qed
qed

lemma rand_reseed_spec:
  assumes inv: "rand_inv E s" and lock: "lock_ok s"
  shows "wp (qudo_fips_rand_reseed E entropy) (\<lambda>r t. svc s t \<and> rand_inv E t \<and> rand_rest t = rand_rest s
     \<and> (r = 0 \<longrightarrow> calm s t \<and> g_fips_rand_ready s \<and> g_fips_rand_gen_count t = 0
         \<and> (\<exists>e. entropy = Some e \<and> drbg_abs (g_fips_drbg t) = CTR_DRBG_Reseed 8 (drbg_abs (g_fips_drbg s)) (take 48 e)))) s"
  unfolding qudo_fips_rand_reseed_def wp_bind
proof (rule wp_use [OF gate_spec [OF lock]], goal_cases)
  case (1 run t)
  show ?case
  proof (cases "run \<and> g_fips_rand_ready s \<and> (\<exists>e. entropy = Some e \<and> 48 \<le> length e)")
    case False
    with 1 inv rand_of_more [of t s] rand_inv_core [of t s E] rand_rest_core [of t s] show ?thesis
      by (auto simp: FIPS_RAND_SEEDLEN_def calm_svc split: option.split)
  next
    case True
    then obtain e where e: "entropy = Some e" "48 \<le> length e" and ready: "g_fips_rand_ready s" and t: "t = s"
      using 1 by auto
    have d: "drbg_ready E (g_fips_drbg s)" using inv ready by (simp add: rand_inv_def)
    obtain d' where d': "qudo_ctrdrbg_reseed (env_aesni E) (Some (g_fips_drbg s)) (Some (take 48 e)) = (0, Some d')"
      "drbg_ready E d'" "drbg_abs d' = CTR_DRBG_Reseed 8 (drbg_abs (g_fips_drbg s)) (take 48 e)"
      by (rule drbg_reseed_ready [OF d, of "take 48 e"]) (use e in simp)
    let ?t = "s\<lparr>g_fips_rand_lock := RwWrite, g_fips_drbg := d', g_fips_rand_gen_count := 0\<rparr>"
    have h: "rand_held E ?t" "calm s ?t"
      using inv ready d' by (simp_all add: rand_held_def rand_inv_def) (rule calm_of_mod, simp add: mod_st.truncate_def)
    from True e show ?thesis
      apply (simp add: t ready FIPS_RAND_SEEDLEN_def)
      apply (rule wp_use [OF rand_inv_lock [OF inv ready]])
      apply (clarsimp simp: d' FIPS_RAND_SEEDLEN_def)
      apply (rule wp_use [OF rand_unlock_spec [OF h(1)]])
      apply (use h d' in \<open>auto intro: calm_trans calm_svc\<close>)
      done
  qed
qed

lemma rand_cleanup_spec:
  assumes "rand_inv E s"
  shows "wp qudo_fips_rand_cleanup (\<lambda>_ t. calm s t \<and> rand_inv E t \<and> rand_st.more t = rand_st.more s
     \<and> \<not> g_fips_rand_ready t \<and> (g_fips_rand_ready s \<longrightarrow> g_fips_drbg t = drbg_cleared)) s"
proof (cases "g_fips_rand_ready s")
  case True
  then have "g_fips_rand_lock s = RwFree" using assms by (simp add: rand_inv_def)
  with True assms show ?thesis
    by (auto simp: qudo_fips_rand_cleanup_def rand_wrlock_def rand_unlock_def wp_act Let_def rand_inv_def
        qudo_ctrdrbg_free_def mod_st.truncate_def intro!: calm_of_mod)
qed (use assms in \<open>simp add: qudo_fips_rand_cleanup_def\<close>)

lemma seed_from_platform_spec:
  assumes inv: "rand_inv E s"
  shows "wp (qudo_fips_rand_seed_from_platform E) (\<lambda>r t. svc s t \<and> rand_inv E t \<and> rand_st.more t = rand_st.more s
     \<and> g_host_rand_provider t = g_host_rand_provider s \<and> (g_fips_rand_ready s \<longrightarrow> g_fips_rand_ready t)
     \<and> (r = 0 \<longrightarrow> calm s t \<and> g_fips_rand_ready t \<and> g_fips_rand_gen_count t = 0
         \<and> g_startup_tested t \<and> \<not> g_health_failed t)) s"
  unfolding qudo_fips_rand_seed_from_platform_def wp_bind
proof (rule wp_use [OF platform_entropy_spec], goal_cases)
  case (1 b t)
  then have t: "svc s t" "rand_inv E t" "rand_st.more t = rand_st.more s" "g_fips_rand_ready t = g_fips_rand_ready s"
    "g_host_rand_provider t = g_host_rand_provider s"
    using inv rand_inv_core [of t s E] by (auto simp: rand_core_def)
  show ?case
  proof (cases b)
    case None
    with t show ?thesis by simp
  next
    case (Some e)
    then have c: "calm s t" "g_startup_tested t" "\<not> g_health_failed t" using 1 by auto
    show ?thesis
      unfolding Some option.case
      apply (rule wp_use [OF rand_init_spec [OF t(2)]])
      apply (use t c in \<open>auto simp: health_of_def intro: calm_trans calm_svc calm_svc_trans svc_trans\<close>)
      done
  qed
qed

section \<open>Seeding uses tested entropy only\<close>

lemma startup_accepts:
  "health_inv s \<Longrightarrow> wp (startup_loop E n) (\<lambda>r t. r = 0 \<longrightarrow> health_inv t \<and>
     (\<exists>xs. (entropy_ok E \<longrightarrow> length xs = n) \<and> (\<forall>ys. accepts s (xs @ ys) \<longleftrightarrow> accepts t ys))) s"
proof (induction E n arbitrary: s rule: startup_loop.induct)
  case (1 E n)
  show ?case
  proof (cases "n = 0")
    case True
    with 1(2) show ?thesis by (auto simp: startup_loop.simps intro!: exI [of _ "[]"])
  next
    case False
    define c where "c = (if n < 64 then n else 64)"
    have c: "c \<le> n" by (simp add: c_def)
    note IH = 1(1) [OF False c_def]
    have fail: "wp (do { entropy_health_fail m; ret (-1) }) (\<lambda>r t. r = (0::int) \<longrightarrow> P r t) u" for m P u
      by (simp add: wp_def split: prod.split)
    show ?thesis
      apply (subst startup_loop.simps)
      apply (simp add: False c_def [symmetric] del: wp_bind)
      apply (subst wp_bind)
      apply (rule wp_use [OF raw_entropy_spec])
      subgoal for b t
      proof (cases b)
        case None
        then show ?thesis using fail by simp
      next
        case (Some buf)
        assume t: "calm s t \<and> rand_core t = rand_core s \<and> health_of t = health_of s
          \<and> (entropy_ok E \<longrightarrow> (\<forall>x. b = Some x \<longrightarrow> length x = c))"
        then have h: "health_inv t" "accepts t = accepts s" using 1(2) accepts_cong [of t s] by auto
        show ?thesis
          unfolding Some option.case wp_bind
        proof (rule wp_use [OF health_accepts [OF h(1)]], goal_cases)
          case (1 ok u)
          show ?case
          proof (cases ok)
            case False
            then show ?thesis using fail by simp
          next
            case True
            with 1 have u: "health_inv u" "\<And>ys. accepts s (buf @ ys) \<longleftrightarrow> accepts u ys" by (auto simp: h(2))
            have "wp (startup_loop E (n - c)) (\<lambda>r v. r = 0 \<longrightarrow> health_inv v \<and>
                (\<exists>xs. (entropy_ok E \<longrightarrow> length xs = n) \<and> (\<forall>ys. accepts s (xs @ ys) \<longleftrightarrow> accepts v ys))) u"
            proof (rule wp_use [OF IH [OF _ u(1), of True]], simp, clarsimp)
              fix v xs
              assume "entropy_ok E \<longrightarrow> length xs = n - c" "\<forall>ys. accepts u (xs @ ys) = accepts v ys"
              then show "\<exists>xs. (entropy_ok E \<longrightarrow> length xs = n) \<and> (\<forall>ys. accepts s (xs @ ys) = accepts v ys)"
                using u(2) t Some c by (intro exI [of _ "buf @ xs"]) auto
            qed
            with True show ?thesis by simp
          qed
        qed
      qed
      done
  qed
qed

lemma tested_read_accepts:
  assumes "health_inv s"
  shows "wp (tested_read E n) (\<lambda>r t. \<forall>b. r = Some b \<longrightarrow> accepts s b) s"
  unfolding tested_read_def wp_bind
proof (rule wp_use [OF raw_entropy_spec], goal_cases)
  case (1 b t)
  then have h: "health_inv t" "accepts t = accepts s" using assms accepts_cong [of t s] by auto
  show ?case
  proof (cases b)
    case (Some out)
    show ?thesis
      unfolding Some option.case wp_bind
    proof (rule wp_use [OF health_accepts [OF h(1)]], goal_cases)
      case (1 ok v)
      then have "accepts s out \<longleftrightarrow> ok" using 1 h(2) by (metis accepts_Nil append_Nil2)
      then show ?case by (simp add: wp_def split: prod.split)
    qed
  qed simp
qed

lemma platform_entropy_accepts:
  assumes "\<not> g_startup_tested s" "g_rct_b s = 0" "g_apt_b s = 0"
  shows "wp (platform_entropy E n) (\<lambda>r t. \<forall>b. r = Some b \<longrightarrow>
     (\<exists>xs. (entropy_ok E \<longrightarrow> length xs = 1024) \<and> no_run 4 (xs @ b) \<and> apt_windows (xs @ b))) s"
proof (cases "g_health_failed s")
  case True
  then show ?thesis by (simp add: platform_entropy_def)
next
  case False
  with assms(1) show ?thesis
    unfolding platform_entropy_def startup_health_test_def FIPS_ENTROPY_STARTUP_SAMPLES_def
    apply simp
    apply (rule wp_use [OF startup_accepts [OF accepts_fresh(1) [OF assms(2,3)]]])
    subgoal for r t
    proof (cases "r = 0")
      case True
      assume "r = 0 \<longrightarrow> health_inv t \<and>
        (\<exists>xs. (entropy_ok E \<longrightarrow> length xs = 1024) \<and> (\<forall>ys. accepts s (xs @ ys) = accepts t ys))"
      then obtain xs where t: "health_inv t" "entropy_ok E \<longrightarrow> length xs = 1024" "\<And>ys. accepts s (xs @ ys) = accepts t ys"
        using True by blast
      let ?u = "t\<lparr>g_startup_tested := True\<rparr>"
      have u: "health_inv ?u" "accepts ?u = accepts t"
        using t(1) by (simp_all add: health_inv_def accepts_def fun_eq_iff)
      show ?thesis
        apply (simp add: True)
        apply (rule wp_use [OF tested_read_accepts [OF u(1)]])
        apply (use u(2) t accepts_fresh(2) [OF assms(2,3)] in auto)
        done
    qed simp
    done
qed

section \<open>The generator as a client of the DRBG\<close>

text \<open>
  What a caller of a DRBG relies on: on a context that satisfies \<open>ok\<close>, a request of at most
  \<open>max_request\<close> bytes yields the bytes and the next state of an abstract generator \<open>Gen\<close>, and the
  context stays usable.  Any sequence of such requests then yields what the abstract generator yields.
\<close>

primrec run_requests :: "(nat \<Rightarrow> 'c \<Rightarrow> bytes \<times> 'c) \<Rightarrow> nat list \<Rightarrow> 'c \<Rightarrow> bytes \<times> 'c" where
  "run_requests g [] c = ([], c)"
| "run_requests g (n # ns) c =
     (let (out, c1) = g n c; (rest, c2) = run_requests g ns c1 in (out @ rest, c2))"

locale drbg =
  fixes gen :: "nat \<Rightarrow> 'c \<Rightarrow> bytes \<times> 'c" and ok :: "'c \<Rightarrow> bool" and abs :: "'c \<Rightarrow> 'a"
    and Gen :: "nat \<Rightarrow> 'a \<Rightarrow> bytes \<times> 'a" and max_request :: nat
  assumes gen_ok: "ok c \<Longrightarrow> n \<le> max_request \<Longrightarrow> ok (snd (gen n c))"
    and gen_abs: "ok c \<Longrightarrow> n \<le> max_request \<Longrightarrow> (fst (gen n c), abs (snd (gen n c))) = Gen n (abs c)"
begin

lemma requests_refine:
  "ok c \<Longrightarrow> list_all (\<lambda>n. n \<le> max_request) ns \<Longrightarrow>
     ok (snd (run_requests gen ns c)) \<and>
     (fst (run_requests gen ns c), abs (snd (run_requests gen ns c))) = run_requests Gen ns (abs c)"
proof (induction ns arbitrary: c)
  case (Cons n ns)
  let ?c = "snd (gen n c)"
  have "ok ?c" "Gen n (abs c) = (fst (gen n c), abs ?c)"
    using Cons.prems gen_ok gen_abs [of c n] by simp_all
  with Cons.IH [of ?c] Cons.prems show ?case
    by (simp add: case_prod_beta Let_def) (metis fst_conv snd_conv)
qed simp

end

definition drbg_gen :: "'e env_scheme \<Rightarrow> nat \<Rightarrow> qudo_ctrdrbg_ctx_t \<Rightarrow> bytes \<times> qudo_ctrdrbg_ctx_t" where
  "drbg_gen E n d = (case qudo_ctrdrbg_generate (env_aesni E) (Some d) False n None of (rc, d', out) \<Rightarrow> (the out, the d'))"

interpretation ctr: drbg "drbg_gen E" "drbg_ready E" drbg_abs "\<lambda>n st. CTR_DRBG_Generate 8 st n []" 65536
proof
  fix c and n :: nat assume "drbg_ready E c" "n \<le> 65536"
  then obtain d' out where g: "qudo_ctrdrbg_generate (env_aesni E) (Some c) False n None = (0, Some d', Some out)"
    "drbg_ready E d'" "(out, drbg_abs d') = CTR_DRBG_Generate 8 (drbg_abs c) n []"
    by (rule drbg_generate_ready)
  then show "drbg_ready E (snd (drbg_gen E n c))"
    "(fst (drbg_gen E n c), drbg_abs (snd (drbg_gen E n c))) = CTR_DRBG_Generate 8 (drbg_abs c) n []"
    by (simp_all add: drbg_gen_def)
qed

text \<open>How the code cuts a request.\<close>

function chunks :: "nat \<Rightarrow> nat list" where
  "chunks n = (if n = 0 then [] else let c = (if n > 65536 then 65536 else n) in c # chunks (n - c))"
  by pat_completeness auto
termination
  by (relation "measure id") auto

declare chunks.simps [simp del]

lemma chunks_max: "list_all (\<lambda>n. n \<le> 65536) (chunks n)"
  by (induction n rule: chunks.induct) (subst chunks.simps, simp add: Let_def)

lemma chunks_pos: "n \<noteq> 0 \<Longrightarrow> length (chunks n) = Suc (length (chunks (n - (if n > 65536 then 65536 else n))))"
  by (subst chunks.simps) (simp add: Let_def)

text \<open>As long as the count stays below the interval, the loop is the sequence of its requests.\<close>

lemma rand_loop_runs:
  assumes "\<And>k. 0 < k \<Longrightarrow> k \<le> length (chunks n) \<Longrightarrow> g_fips_rand_gen_count s + of_nat k < RESEED_INTERVAL"
    and "drbg_ready E (g_fips_drbg s)"
  shows "run_state (rand_loop E n) s =
    ((0, fst (run_requests (drbg_gen E) (chunks n) (g_fips_drbg s))),
     s\<lparr>g_fips_rand_gen_count := g_fips_rand_gen_count s + of_nat (length (chunks n)),
       g_fips_drbg := snd (run_requests (drbg_gen E) (chunks n) (g_fips_drbg s))\<rparr>)"
  using assms
proof (induction n arbitrary: s rule: less_induct)
  case (less n)
  show ?case
  proof (cases "n = 0")
    case True
    then show ?thesis by (simp add: rand_loop.simps chunks.simps)
  next
    case False
    define c where "c = (if n > 65536 then 65536 else n)"
    have c: "c \<le> 65536" "n - c < n" using False by (auto simp: c_def)
    have ch: "chunks n = c # chunks (n - c)" using False by (subst chunks.simps) (simp add: c_def Let_def)
    obtain d' out where g: "qudo_ctrdrbg_generate (env_aesni E) (Some (g_fips_drbg s)) False c None = (0, Some d', Some out)"
      "drbg_ready E d'"
      by (rule drbg_generate_ready [OF less.prems(2) c(1)])
    then have gen: "drbg_gen E c (g_fips_drbg s) = (out, d')" by (simp add: drbg_gen_def)
    let ?t = "s\<lparr>g_fips_rand_gen_count := g_fips_rand_gen_count s + 1, g_fips_drbg := d'\<rparr>"
    have "run_state (rand_loop E (n - c)) ?t =
      ((0, fst (run_requests (drbg_gen E) (chunks (n - c)) (g_fips_drbg ?t))),
       ?t\<lparr>g_fips_rand_gen_count := g_fips_rand_gen_count ?t + of_nat (length (chunks (n - c))),
         g_fips_drbg := snd (run_requests (drbg_gen E) (chunks (n - c)) (g_fips_drbg ?t))\<rparr>)"
    proof (rule less.IH [OF c(2)])
      fix k :: nat assume "0 < k" "k \<le> length (chunks (n - c))"
      then show "g_fips_rand_gen_count ?t + of_nat k < RESEED_INTERVAL"
        using less.prems(1) [of "Suc k"] by (simp add: ch add.assoc)
    qed (use g in simp)
    moreover have "\<not> RESEED_INTERVAL \<le> g_fips_rand_gen_count s + 1"
      using less.prems(1) [of 1] by (simp add: ch not_le)
    ultimately show ?thesis
      by (subst rand_loop.simps)
        (simp add: False Let_def c_def [symmetric] g gen ch case_prod_beta add.assoc)
  qed
qed

lemma rand_bytes_runs:
  assumes inv: "rand_inv E s" and ready: "g_fips_rand_ready s" "\<not> g_health_failed s" "\<not> host_drbg E s"
    and st: "g_module_state s = ST_RUNNING \<or> g_module_state s = ST_SELFTEST" and n: "0 < n"
    and count: "\<And>k. 0 < k \<Longrightarrow> k \<le> length (chunks n) \<Longrightarrow> g_fips_rand_gen_count s + of_nat k < RESEED_INTERVAL"
  shows "run_state (qudo_fips_rand_bytes E False n) s =
    ((0, fst (run_requests (drbg_gen E) (chunks n) (g_fips_drbg s))),
     s\<lparr>g_fips_rand_lock := RwFree,
       g_fips_rand_gen_count := g_fips_rand_gen_count s + of_nat (length (chunks n)),
       g_fips_drbg := snd (run_requests (drbg_gen E) (chunks n) (g_fips_drbg s))\<rparr>)"
proof -
  have lock: "g_fips_rand_lock s = RwFree" and d: "drbg_ready E (g_fips_drbg s)"
    using inv ready by (simp_all add: rand_inv_def)
  have gate: "qudo_pqc_is_running_or_selftest s = (True, s)"
    using st by (auto simp: qudo_pqc_is_running_or_selftest_def)
  have no: "(if use_host_drbg E then g_host_rand_provider s else None) = None"
    using ready(3) by (auto simp: host_drbg_def)
  let ?t = "s\<lparr>g_fips_rand_lock := RwWrite\<rparr>"
  have "run_state (rand_loop E n) ?t =
      ((0, fst (run_requests (drbg_gen E) (chunks n) (g_fips_drbg ?t))),
       ?t\<lparr>g_fips_rand_gen_count := g_fips_rand_gen_count ?t + of_nat (length (chunks n)),
         g_fips_drbg := snd (run_requests (drbg_gen E) (chunks n) (g_fips_drbg ?t))\<rparr>)"
    by (rule rand_loop_runs) (use count d in simp_all)
  with gate no ready lock n show ?thesis
    by (simp add: qudo_fips_rand_bytes_def rand_wrlock_def rand_unlock_def Let_def)
qed

text \<open>A source that delivers nothing.\<close>

definition entropy_dead :: "'e env_scheme \<Rightarrow> bool" where
  "entropy_dead E \<longleftrightarrow> (\<forall>k n. env_entropy E k n = None)"

lemma raw_dead: "entropy_dead E \<Longrightarrow> n \<noteq> 0 \<Longrightarrow> wp (raw_platform_entropy E n) (\<lambda>r t. r = None) s"
  by (subst raw_platform_entropy.simps)
    (simp add: entropy_dead_def getentropy_def wp_act Let_def)

lemma platform_dead:
  assumes "entropy_dead E" "n \<noteq> 0"
  shows "wp (platform_entropy E n) (\<lambda>r t. r = None) s"
proof -
  have read: "wp (tested_read E n) (\<lambda>r t. r = None) t" for t :: "'b rand_st_scheme"
    unfolding tested_read_def wp_bind by (rule wp_use [OF raw_dead [OF assms]]) simp
  have "wp (startup_loop E 1024) (\<lambda>r t. r = -1) t" for t :: "'b rand_st_scheme"
    apply (subst startup_loop.simps)
    apply (simp add: Let_def)
    apply (rule wp_use [OF raw_dead [OF assms(1)]])
     apply (simp_all add: wp_def split: prod.split)
    done
  from wp_use [OF this] read show ?thesis
    by (auto simp: platform_entropy_def startup_health_test_def FIPS_ENTROPY_STARTUP_SAMPLES_def)
qed

text \<open>The initial values of the generator's globals.\<close>

definition rand_started :: rand_st where
  "rand_started = mod_st.extend mod_started
     (rand_st.fields drbg_cleared False 0 False 0 0 0 0 0 False RwNull False None)"

lemma rand_started_simps [simp]:
  "rand_inv E rand_started" "idle (g_self_test_lock rand_started)" "g_rct_b rand_started = 0"
  "g_apt_b rand_started = 0" "\<not> g_startup_tested rand_started" "\<not> g_health_failed rand_started"
  "g_module_state rand_started = ST_INIT" "g_host_rand_provider rand_started = None"
  "g_fips_rand_gen_count rand_started = 0" "g_fips_drbg rand_started = drbg_cleared"
  by (simp_all add: rand_started_def mod_st.extend_def rand_st.fields_def mod_started_def rand_inv_def)

text \<open>A running module with a seeded generator.\<close>

definition rand_running :: "qudo_ctrdrbg_ctx_t \<Rightarrow> rand_st" where
  "rand_running d = rand_started\<lparr>g_module_state := ST_RUNNING, g_fips_drbg := d, g_fips_rand_ready := True,
     g_fips_rand_lock := RwFree, g_fips_rand_lock_once := True\<rparr>"

lemma rand_running_simps:
  "drbg_ready E d \<Longrightarrow> rand_inv E (rand_running d)" "g_fips_rand_ready (rand_running d)"
  "\<not> g_health_failed (rand_running d)" "\<not> host_drbg E (rand_running d)"
  "g_module_state (rand_running d) = ST_RUNNING" "g_fips_rand_gen_count (rand_running d) = 0"
  "g_fips_drbg (rand_running d) = d" "lock_ok (rand_running d)" "g_rct_b (rand_running d) = 0"
  by (simp_all add: rand_running_def rand_inv_def host_drbg_def lock_ok_def)

lemma seeded_exists: "\<exists>d. drbg_ready E d"
  using drbg_init_ready [of "replicate 48 7" E drbg_cleared] by auto

text \<open>
  The count of requests is a 32-bit number that a failing reseed leaves incremented, so that after
  \<open>2 ^ 32 - 2 ^ 20\<close> further requests, all refused, it wraps to 0 and bytes are generated again without
  fresh entropy.
\<close>

lemma gen_count_wraps:
  assumes "rand_inv E s" "g_fips_rand_ready s" "\<not> g_health_failed s" "\<not> host_drbg E s"
    and "g_module_state s = ST_RUNNING" "0 < n" "n \<le> 65536" "g_fips_rand_gen_count s = - 1"
  shows "fst (fst (run_state (qudo_fips_rand_bytes E False n) s)) = 0"
proof -
  have ch: "chunks n = [n]"
    using assms(6,7) by (subst chunks.simps) (simp add: Let_def chunks.simps [of 0])
  show ?thesis
    by (subst rand_bytes_runs) (use assms in \<open>auto simp: ch le_Suc_eq RESEED_INTERVAL_def\<close>)
qed

text \<open>An environment in which everything is granted, and one whose entropy source is dead.\<close>

definition good_env :: env where
  "good_env = \<lparr>env_rwlock = \<lambda>_. True, env_malloc = \<lambda>_ _. True, env_entropy = \<lambda>k n. Some (map of_nat [0..<n]),
     env_aesni = False, fips_module = True, disable_embedded_hmac = False, use_host_drbg = False\<rparr>"

lemma good_entropy_passes:
  "fst (run_state (platform_entropy good_env 48) rand_started) = Some (map of_nat [0..<48])"
  by code_simp

lemma rand_init_succeeds:
  assumes "\<not> g_fips_rand_lock_once s" "env_rwlock E (os_calls s)" "48 \<le> length e"
  shows "fst (run_state (qudo_fips_rand_init E (Some e)) s) = 0"
proof -
  obtain d' where "qudo_ctrdrbg_init (env_aesni E) (Some (g_fips_drbg (tick s))) 32 (Some (take 48 e)) = (0, Some d')"
    by (rule drbg_init_ready [of "take 48 e" E "g_fips_drbg (tick s)"]) (use assms in auto)
  moreover have "g_fips_drbg (tick s) = g_fips_drbg s" by (simp add: tick_def)
  ultimately show ?thesis
    using assms
    by (simp add: qudo_fips_rand_init_def FIPS_RAND_SEEDLEN_def qudo_once_def do_fips_rand_lock_init_def
        qudo_rwlock_new_def rand_wrlock_def rand_unlock_def Let_def)
qed

definition dead_env :: env where
  "dead_env = good_env\<lparr>env_entropy := \<lambda>_ _. None\<rparr>"

section \<open>Properties\<close>

text \<open>
  C24: The continuous health tests are those of SP 800-90B.  Started on fresh test state, the byte-wise
  loop of the code accepts a buffer exactly when no value is repeated four times in a row (repetition
  count test) and in no window of 512 samples the first sample occurs 13 times (adaptive proportion
  test).
\<close>

theorem health_tests_are_90B:
  assumes "g_rct_b s = 0" "g_apt_b s = 0"
  shows "fst (run_state (continuous_health_test buf) s) \<longleftrightarrow> no_run 4 buf \<and> apt_windows buf"
proof -
  obtain r t where rt: "run_state (continuous_health_test buf) s = (r, t)" by (cases "run_state (continuous_health_test buf) s")
  from wpD [OF health_accepts [OF accepts_fresh(1) [OF assms]] rt] have "accepts s (buf @ []) \<longleftrightarrow> r \<and> accepts t []" by blast
  with rt accepts_fresh(2) [OF assms] show ?thesis by simp
qed

theorem health_tests_are_90B_witness:
  "\<not> fst (run_state (continuous_health_test [1, 7, 7, 7, 7]) rand_started)"
proof -
  have "\<not> no_run 4 [1, 7, 7, 7, 7]"
    by (auto simp: no_run_def numeral_eq_Suc less_Suc_eq intro!: exI [of _ 1])
  with health_tests_are_90B [of rand_started "[1, 7, 7, 7, 7]"] show ?thesis by simp
qed

text \<open>
  C25: Every seed from the platform is tested entropy.  When seeding from fresh test state succeeds, the
  module state is unchanged, the generator is ready, and its key and counter are those SP 800-90A
  instantiates from 48 bytes which, together with the 1024 start-up samples read before them, pass the
  repetition count and the adaptive proportion test.
\<close>

theorem seed_is_tested:
  assumes "entropy_ok E" "rand_inv E s" "\<not> g_startup_tested s" "g_rct_b s = 0" "g_apt_b s = 0"
    and "run_state (qudo_fips_rand_seed_from_platform E) s = (0, t)"
  shows "g_fips_rand_ready t \<and> g_module_state t = g_module_state s \<and>
    (\<exists>startup seed. length startup = 1024 \<and> length seed = 48 \<and> no_run 4 (startup @ seed) \<and> apt_windows (startup @ seed)
       \<and> drbg_abs (g_fips_drbg t) = CTR_DRBG_Instantiate 8 seed)"
proof -
  obtain b u where bu: "run_state (platform_entropy E 48) s = (b, u)" by (cases "run_state (platform_entropy E 48) s")
  note p = wpD [OF platform_entropy_spec bu] and a = wpD [OF platform_entropy_accepts [OF assms(3-5)] bu]
  obtain seed where seed: "b = Some seed" and init: "run_state (qudo_fips_rand_init E (Some seed)) u = (0, t)"
    using assms(6) by (cases b) (simp_all add: qudo_fips_rand_seed_from_platform_def FIPS_RAND_SEEDLEN_def bu)
  have u: "rand_inv E u" "calm s u" "length seed = 48"
    using p seed assms(1,2) rand_inv_core [of u s E] by auto
  from wpD [OF rand_init_spec [OF u(1)] init] have t: "calm u t" "g_fips_rand_ready t"
    "drbg_abs (g_fips_drbg t) = CTR_DRBG_Instantiate 8 seed"
    using u(3) by auto
  with u(2) a seed u(3) assms(1) show ?thesis
    using calm_state [OF calm_trans [OF u(2) t(1)]] by auto
qed

theorem seed_is_tested_witness:
  "\<exists>t startup seed. run_state (qudo_fips_rand_seed_from_platform good_env) rand_started = (0, t)
     \<and> length startup = 1024 \<and> length seed = 48 \<and> no_run 4 (startup @ seed) \<and> apt_windows (startup @ seed)
     \<and> drbg_abs (g_fips_drbg t) = CTR_DRBG_Instantiate 8 seed"
proof -
  obtain u where u: "run_state (platform_entropy good_env 48) rand_started = (Some (map of_nat [0..<48]), u)"
    using good_entropy_passes by (metis prod.collapse)
  from wpD [OF platform_entropy_spec u] have "rand_core u = rand_core rand_started" by simp
  then have "\<not> g_fips_rand_lock_once u"
    by (simp add: rand_core_def) (simp add: rand_started_def mod_st.extend_def rand_st.fields_def)
  then have "fst (run_state (qudo_fips_rand_init good_env (Some (map of_nat [0..<48]))) u) = 0"
    by (rule rand_init_succeeds) (simp_all add: good_env_def)
  then obtain t where t: "run_state (qudo_fips_rand_seed_from_platform good_env) rand_started = (0, t)"
    using u by (auto simp: qudo_fips_rand_seed_from_platform_def FIPS_RAND_SEEDLEN_def prod_eq_iff)
  have "entropy_ok good_env" by (simp add: entropy_ok_def good_env_def)
  from seed_is_tested [OF this _ _ _ _ t] t show ?thesis by auto
qed

text \<open>
  C26: The module's generator is CTR_DRBG.  On a seeded, healthy module that is running or self-testing,
  a request of any positive size that does not reach the reseed interval succeeds; its output and the
  state it leaves are those of Generate of SP 800-90A applied to the successive pieces of at most
  65536 bytes, and the count grows by the number of pieces.
\<close>

theorem rand_bytes_is_ctr_drbg:
  assumes "rand_inv E s" "g_fips_rand_ready s" "\<not> g_health_failed s" "\<not> host_drbg E s"
    and "g_module_state s = ST_RUNNING \<or> g_module_state s = ST_SELFTEST" "0 < n"
    and "unat (g_fips_rand_gen_count s) + length (chunks n) < 2 ^ 20"
  shows "\<exists>out t. run_state (qudo_fips_rand_bytes E False n) s = ((0, out), t)
    \<and> (out, drbg_abs (g_fips_drbg t)) =
        run_requests (\<lambda>n st. CTR_DRBG_Generate 8 st n []) (chunks n) (drbg_abs (g_fips_drbg s))
    \<and> unat (g_fips_rand_gen_count t) = unat (g_fips_rand_gen_count s) + length (chunks n)"
proof -
  have d: "drbg_ready E (g_fips_drbg s)" using assms(1,2) by (simp add: rand_inv_def)
  have cnt: "unat (g_fips_rand_gen_count s + of_nat k) = unat (g_fips_rand_gen_count s) + k" if "k \<le> length (chunks n)" for k
  proof -
    have k: "k < 2 ^ 32" "unat (g_fips_rand_gen_count s) + k < 2 ^ 32" using that assms(7) by simp_all
    then have "unat (of_nat k :: u32) = k" by (simp add: unsigned_of_nat take_bit_nat_eq_self)
    with k(2) show ?thesis by (subst unat_add_lem [THEN iffD1]) simp_all
  qed
  have run: "run_state (qudo_fips_rand_bytes E False n) s =
    ((0, fst (run_requests (drbg_gen E) (chunks n) (g_fips_drbg s))),
     s\<lparr>g_fips_rand_lock := RwFree,
       g_fips_rand_gen_count := g_fips_rand_gen_count s + of_nat (length (chunks n)),
       g_fips_drbg := snd (run_requests (drbg_gen E) (chunks n) (g_fips_drbg s))\<rparr>)"
    by (rule rand_bytes_runs)
      (use assms cnt in \<open>auto simp: word_less_nat_alt RESEED_INTERVAL_def\<close>)
  show ?thesis
    unfolding run using ctr.requests_refine [OF d chunks_max, of n] cnt [of "length (chunks n)"] by auto
qed

theorem rand_bytes_is_ctr_drbg_witness:
  "\<exists>d out t. run_state (qudo_fips_rand_bytes dead_env False 32) (rand_running d) = ((0, out), t)"
proof -
  obtain d where d: "drbg_ready dead_env d" using seeded_exists by blast
  have "chunks 32 = [32]" by (simp add: chunks.simps)
  with rand_bytes_is_ctr_drbg [of dead_env "rand_running d" 32] d show ?thesis
    by (auto simp: rand_running_simps)
qed

text \<open>
  C27: When the generator answers.  A request succeeds only while the module is running or self-testing,
  and, unless a host generator is installed, only on a seeded and healthy generator, with exactly the
  requested number of bytes and with fewer than \<open>2 ^ 20\<close> requests counted since the last seed; success
  leaves the module state alone, failure can only move it to the error state, and the locks are
  released in every case.
\<close>

theorem rand_bytes_guarded:
  assumes "rand_inv E s" "lock_ok s" "run_state (qudo_fips_rand_bytes E out_null n) s = ((rc, out), t)"
  shows "(rc = 0 \<longrightarrow> g_module_state t = g_module_state s
            \<and> (g_module_state s = ST_RUNNING \<or> g_module_state s = ST_SELFTEST)
            \<and> (host_drbg E s \<or> g_fips_rand_ready s \<and> length out = n
                 \<and> (n = 0 \<or> \<not> g_health_failed s \<and> g_fips_rand_gen_count t < 2 ^ 20)))
    \<and> (g_module_state t = g_module_state s \<or> g_module_state t = ST_ERROR)
    \<and> idle (g_fips_rand_lock t) \<and> g_self_test_lock t = g_self_test_lock s \<and> rand_inv E t"
  using wpD [OF rand_bytes_spec [OF assms(1,2)] assms(3)]
  by (auto simp: svc_def rand_inv_def RESEED_INTERVAL_def calm_state)

theorem rand_bytes_guarded_witness:
  "\<exists>d rc out t. run_state (qudo_fips_rand_bytes dead_env False 0) (rand_running d) = ((rc, out), t)
     \<and> g_self_test_lock t = g_self_test_lock (rand_running d)"
proof -
  obtain d where d: "drbg_ready dead_env d" using seeded_exists by blast
  obtain rc out t where r: "run_state (qudo_fips_rand_bytes dead_env False 0) (rand_running d) = ((rc, out), t)"
    by (metis surj_pair)
  with rand_bytes_guarded [OF _ _ r] d show ?thesis by (auto simp: rand_running_simps)
qed

text \<open>
  C28: No output past the reseed interval without fresh entropy.  When a request brings the count to
  \<open>2 ^ 20\<close> and the entropy source delivers nothing, the request is refused and no byte is written.
\<close>

theorem no_output_without_entropy:
  assumes "entropy_dead E" "rand_inv E s" "lock_ok s" "\<not> host_drbg E s" "0 < n"
    and "2 ^ 20 \<le> g_fips_rand_gen_count s + 1"
  shows "fst (run_state (qudo_fips_rand_bytes E out_null n) s) = (-1, [])"
proof -
  let ?t = "s\<lparr>g_fips_rand_lock := RwWrite, g_fips_rand_gen_count := g_fips_rand_gen_count s + 1\<rparr>"
  have reseed: "wp (rand_auto_reseed E) (\<lambda>r t. r = -1) ?t"
    unfolding rand_auto_reseed_def wp_bind FIPS_RAND_SEEDLEN_def
    by (rule wp_use [OF platform_dead [OF assms(1)]]) (simp_all add: rand_unlock_def)
  have count: "RESEED_INTERVAL \<le> g_fips_rand_gen_count s + 1" using assms(6) by (simp add: RESEED_INTERVAL_def)
  have loop: "wp (rand_loop E n) (\<lambda>r t. r = (-1, [])) (s\<lparr>g_fips_rand_lock := RwWrite\<rparr>)"
    apply (subst rand_loop.simps)
    apply (simp add: assms(5) Let_def count)
    apply (intro conjI impI; rule wp_use [OF reseed]; simp)
    done
  have "wp (qudo_fips_rand_bytes E out_null n) (\<lambda>r t. r = (-1, [])) s"
    unfolding qudo_fips_rand_bytes_def wp_bind
  proof (rule wp_use [OF gate_spec [OF assms(3)]], goal_cases)
    case (1 run t)
    have no: "(if use_host_drbg E then g_host_rand_provider s else None) = None"
      using assms(4) by (auto simp: host_drbg_def)
    show ?case
    proof (cases "run \<and> g_fips_rand_ready s")
      case True
      then show ?thesis
        using 1 no assms(5) apply simp
        apply (intro impI)
        apply (rule wp_use [OF rand_inv_lock [OF assms(2)]], simp)
        apply clarsimp
        apply (rule wp_use [OF loop])
        apply simp
        done
    next
      case False
      with 1 no show ?thesis by auto
    qed
  qed
  then show ?thesis by (simp add: wp_def split: prod.splits)
qed

theorem no_output_without_entropy_witness:
  "\<exists>d. fst (run_state (qudo_fips_rand_bytes dead_env False 16) (rand_running d\<lparr>g_fips_rand_gen_count := 2 ^ 20 - 1\<rparr>)) = (-1, [])"
proof -
  obtain d where d: "drbg_ready dead_env d" using seeded_exists by blast
  have "fst (run_state (qudo_fips_rand_bytes dead_env False 16) (rand_running d\<lparr>g_fips_rand_gen_count := 2 ^ 20 - 1\<rparr>)) = (-1, [])"
    by (rule no_output_without_entropy)
      (use d in \<open>simp_all add: entropy_dead_def dead_env_def rand_running_def rand_inv_def host_drbg_def lock_ok_def\<close>)
  then show ?thesis by blast
qed

end
