(* ===== verification/Kem.thy ===== *)
theory Kem
  imports Rand
begin

text \<open>
  The ML-KEM wrapper (\<open>src/qudo-pqc-lib/qudo-mlkem/src/mlkem_wrapper.c\<close>), its random source
  (\<open>mlkem_rand.c\<close>), the run-time dispatch (\<open>cpu_features.c\<close>) and the pairwise test of a fresh key pair
  (\<open>src/qudo_pqc_pct.c\<close>).

  The three copies of each static function, one per parameter set, are one definition with the
  security level as its argument.  The compiled variants of mlkem-native are the fields of
  \<open>mlk_native\<close>, one record per variant, in the environment \<open>kem_env\<close> of the wrapper together with
  its build options and what CPUID reports.  A function that fills buffers returns what it has
  written, \<open>None\<close> when it has not touched them; a flag says which output pointers are NULL.
\<close>

section \<open>Types and constants\<close>

type_synonym QUDO_KEM_status_t = int
type_synonym QUDO_KEM_security_level_t = int

abbreviation (input) QUDO_KEM_SUCCESS :: QUDO_KEM_status_t where "QUDO_KEM_SUCCESS \<equiv> 0"
abbreviation (input) QUDO_KEM_ERROR :: QUDO_KEM_status_t where "QUDO_KEM_ERROR \<equiv> -1"
abbreviation (input) QUDO_KEM_ERROR_INVALID_ARG :: QUDO_KEM_status_t where "QUDO_KEM_ERROR_INVALID_ARG \<equiv> -2"
abbreviation (input) QUDO_KEM_ERROR_RNG :: QUDO_KEM_status_t where "QUDO_KEM_ERROR_RNG \<equiv> -5"
abbreviation (input) QUDO_KEM_ERROR_VERIFY :: QUDO_KEM_status_t where "QUDO_KEM_ERROR_VERIFY \<equiv> -6"
abbreviation (input) QUDO_KEM_ERROR_CRYPTO :: QUDO_KEM_status_t where "QUDO_KEM_ERROR_CRYPTO \<equiv> -9"
abbreviation (input) QUDO_KEM_ERROR_BUFFER_TOO_SMALL :: QUDO_KEM_status_t where
  "QUDO_KEM_ERROR_BUFFER_TOO_SMALL \<equiv> -13"

abbreviation (input) QUDO_KEM_512 :: QUDO_KEM_security_level_t where "QUDO_KEM_512 \<equiv> 1"
abbreviation (input) QUDO_KEM_768 :: QUDO_KEM_security_level_t where "QUDO_KEM_768 \<equiv> 3"
abbreviation (input) QUDO_KEM_1024 :: QUDO_KEM_security_level_t where "QUDO_KEM_1024 \<equiv> 5"

datatype mlk_variant = Mlk_plain | Mlk_ref | Mlk_avx2 | Mlk_neon

record mlk_native =
  mlk_keypair_derand :: "QUDO_KEM_security_level_t \<Rightarrow> bytes \<Rightarrow> int \<times> bytes \<times> bytes"
  mlk_enc_derand :: "QUDO_KEM_security_level_t \<Rightarrow> bytes \<Rightarrow> bytes \<Rightarrow> int \<times> (bytes \<times> bytes) option"
  mlk_dec :: "QUDO_KEM_security_level_t \<Rightarrow> bytes \<Rightarrow> bytes \<Rightarrow> int \<times> bytes option"
  mlk_check_pk :: "QUDO_KEM_security_level_t \<Rightarrow> bytes \<Rightarrow> int"
  mlk_check_sk :: "QUDO_KEM_security_level_t \<Rightarrow> bytes \<Rightarrow> int"

datatype rand_build = Combined_build | Math_only | Platform_build

record kem_env = env +
  mlk_runtime_dispatch :: bool
  has_avx2_variant :: bool
  has_neon_variant :: bool
  cpuid1_eax :: u32
  cpuid1_ecx :: u32
  cpuid7_ebx :: u32
  xgetbv0_eax :: u32
  hwcap_asimd :: bool
  mlk_lib :: "mlk_variant \<Rightarrow> mlk_native"
  kem_rand_build :: rand_build

record kem_st = rand_st +
  g_mlkem_init_state :: int
  g_mlkem_init_lock :: rwlock

record QUDO_KEM =
  algorithm_name :: string
  security_level :: QUDO_KEM_security_level_t
  claimed_nist_level :: u8
  ind_cca :: bool
  length_public_key :: nat
  length_secret_key :: nat
  length_ciphertext :: nat
  length_shared_secret :: nat
  keypair_fn :: QUDO_KEM_security_level_t
  encaps_fn :: QUDO_KEM_security_level_t
  decaps_fn :: QUDO_KEM_security_level_t
  fips_ind :: qudo_fips_ind_t

definition sizeof_QUDO_KEM :: nat where "sizeof_QUDO_KEM = 80"
abbreviation (input) QUDO_KEM_SEED_BYTES :: nat where "QUDO_KEM_SEED_BYTES \<equiv> 64"

section \<open>Random bytes\<close>

definition QUDO_KEM_randombytes ::
  "'e kem_env_scheme \<Rightarrow> bool \<Rightarrow> nat \<Rightarrow> ('s kem_st_scheme, int \<times> bytes) state" where
  "QUDO_KEM_randombytes E out_null outlen =
     (if out_null \<or> outlen = 0 then ret (QUDO_KEM_ERROR, [])
      else case kem_rand_build E of
        Combined_build \<Rightarrow> do {
          ready \<leftarrow> asks qudo_fips_rand_is_ready;
          if \<not> ready then ret (QUDO_KEM_ERROR, [])
          else do {
            r \<leftarrow> qudo_fips_rand_bytes E out_null outlen;
            ret (if fst r \<noteq> 0 then QUDO_KEM_ERROR else QUDO_KEM_SUCCESS, snd r)
          }
        }
      | Math_only \<Rightarrow> ret (QUDO_KEM_ERROR, [])
      | Platform_build \<Rightarrow> do {
          b \<leftarrow> raw_platform_entropy E outlen;
          ret (case b of Some out \<Rightarrow> (QUDO_KEM_SUCCESS, out) | None \<Rightarrow> (QUDO_KEM_ERROR, []))
        })"

definition QUDO_KEM_randombytes_test :: "'e kem_env_scheme \<Rightarrow> ('s kem_st_scheme, int) state" where
  "QUDO_KEM_randombytes_test E = do {
     r \<leftarrow> QUDO_KEM_randombytes E False 32;
     if fst r \<noteq> QUDO_KEM_SUCCESS then ret QUDO_KEM_ERROR
     else if snd r = replicate 32 0 then ret QUDO_KEM_ERROR
     else ret QUDO_KEM_SUCCESS
   }"

section \<open>Initialisation\<close>

definition MLKEM_INIT_LOCK :: "('s kem_st_scheme, unit) state" where
  "MLKEM_INIT_LOCK = upd (\<lambda>s. s\<lparr>g_mlkem_init_lock := snd (qudo_rwlock_wrlock (g_mlkem_init_lock s))\<rparr>)"

definition MLKEM_INIT_UNLOCK :: "('s kem_st_scheme, unit) state" where
  "MLKEM_INIT_UNLOCK = upd (\<lambda>s. s\<lparr>g_mlkem_init_lock := qudo_rwlock_unlock (g_mlkem_init_lock s)\<rparr>)"

definition kem_rng_test :: "'e kem_env_scheme \<Rightarrow> ('s kem_st_scheme, int) state" where
  "kem_rng_test E = (if kem_rand_build E = Math_only then ret QUDO_KEM_SUCCESS else QUDO_KEM_randombytes_test E)"

definition QUDO_KEM_init :: "'e kem_env_scheme \<Rightarrow> ('s kem_st_scheme, QUDO_KEM_status_t) state" where
  "QUDO_KEM_init E = do {
     st \<leftarrow> asks g_mlkem_init_state;
     if st = 2 then ret QUDO_KEM_SUCCESS
     else do {
       MLKEM_INIT_LOCK;
       st \<leftarrow> asks g_mlkem_init_state;
       if st = 2 then do { MLKEM_INIT_UNLOCK; ret QUDO_KEM_SUCCESS }
       else do {
         rc \<leftarrow> kem_rng_test E;
         if rc \<noteq> QUDO_KEM_SUCCESS then do { MLKEM_INIT_UNLOCK; ret QUDO_KEM_ERROR_RNG }
         else do {
           upd (\<lambda>s. s\<lparr>g_mlkem_init_state := 2\<rparr>);
           MLKEM_INIT_UNLOCK;
           ret QUDO_KEM_SUCCESS
         }
       }
     }
   }"

definition QUDO_KEM_cleanup :: "('s kem_st_scheme, unit) state" where
  "QUDO_KEM_cleanup = do {
     MLKEM_INIT_LOCK;
     st \<leftarrow> asks g_mlkem_init_state;
     (if st = 2 then upd (\<lambda>s. s\<lparr>g_mlkem_init_state := 0\<rparr>) else ret ());
     MLKEM_INIT_UNLOCK
   }"

definition QUDO_KEM_is_initialized :: "'s kem_st_scheme \<Rightarrow> bool" where
  "QUDO_KEM_is_initialized s = (g_mlkem_init_state s = 2)"

section \<open>Sizes and names\<close>

definition get_public_key_size :: "QUDO_KEM_security_level_t \<Rightarrow> nat" where
  "get_public_key_size level =
     (if level = QUDO_KEM_512 then 800 else if level = QUDO_KEM_768 then 1184
      else if level = QUDO_KEM_1024 then 1568 else 0)"

definition get_secret_key_size :: "QUDO_KEM_security_level_t \<Rightarrow> nat" where
  "get_secret_key_size level =
     (if level = QUDO_KEM_512 then 1632 else if level = QUDO_KEM_768 then 2400
      else if level = QUDO_KEM_1024 then 3168 else 0)"

definition get_ciphertext_size :: "QUDO_KEM_security_level_t \<Rightarrow> nat" where
  "get_ciphertext_size level =
     (if level = QUDO_KEM_512 then 768 else if level = QUDO_KEM_768 then 1088
      else if level = QUDO_KEM_1024 then 1568 else 0)"

definition QUDO_KEM_get_shared_secret_size :: "QUDO_KEM_security_level_t \<Rightarrow> nat" where
  "QUDO_KEM_get_shared_secret_size level =
     (if level = QUDO_KEM_512 \<or> level = QUDO_KEM_768 \<or> level = QUDO_KEM_1024 then 32 else 0)"

definition QUDO_KEM_get_algorithm_name :: "QUDO_KEM_security_level_t \<Rightarrow> string option" where
  "QUDO_KEM_get_algorithm_name level =
     (if level = QUDO_KEM_512 then Some ''ML-KEM-512'' else if level = QUDO_KEM_768 then Some ''ML-KEM-768''
      else if level = QUDO_KEM_1024 then Some ''ML-KEM-1024'' else None)"

definition QUDO_KEM_list_algorithms :: "bool \<Rightarrow> (string list \<times> nat) option" where
  "QUDO_KEM_list_algorithms count_null =
     (if count_null then None else Some ([''ML-KEM-512'', ''ML-KEM-768'', ''ML-KEM-1024''], 3))"

definition QUDO_KEM_is_algorithm_supported :: "string option \<Rightarrow> int" where
  "QUDO_KEM_is_algorithm_supported name =
     (case name of None \<Rightarrow> 0
      | Some n \<Rightarrow> if strcasecmp_eq n ''ML-KEM-512'' \<or> strcasecmp_eq n ''ML-KEM-768''
                    \<or> strcasecmp_eq n ''ML-KEM-1024'' then 1 else 0)"

definition QUDO_KEM_get_level_from_name ::
  "string option \<Rightarrow> bool \<Rightarrow> QUDO_KEM_status_t \<times> QUDO_KEM_security_level_t option" where
  "QUDO_KEM_get_level_from_name name level_null =
     (case name of None \<Rightarrow> (QUDO_KEM_ERROR_INVALID_ARG, None)
      | Some n \<Rightarrow>
        if level_null then (QUDO_KEM_ERROR_INVALID_ARG, None)
        else if strcasecmp_eq n ''ML-KEM-512'' then (QUDO_KEM_SUCCESS, Some QUDO_KEM_512)
        else if strcasecmp_eq n ''ML-KEM-768'' then (QUDO_KEM_SUCCESS, Some QUDO_KEM_768)
        else if strcasecmp_eq n ''ML-KEM-1024'' then (QUDO_KEM_SUCCESS, Some QUDO_KEM_1024)
        else (QUDO_KEM_ERROR_INVALID_ARG, None))"

section \<open>Dispatch\<close>

text \<open>The x86-64 detection; \<open>MASK_XMM | MASK_YMM\<close> is 6.\<close>

definition detect_x86_64_features :: "'e kem_env_scheme \<Rightarrow> bool" where
  "detect_x86_64_features E =
     (if cpuid1_eax E = 0 then False
      else let has_xsave = bit (cpuid1_ecx E) 26; has_osxsave = bit (cpuid1_ecx E) 27;
               xcr0_eax = (if has_xsave \<and> has_osxsave then xgetbv0_eax E else 0)
           in xcr0_eax AND 6 = 6 \<and> bit (cpuid7_ebx E) 5)"

definition mlk_variant_of :: "'e kem_env_scheme \<Rightarrow> mlk_variant" where
  "mlk_variant_of E =
     (if mlk_runtime_dispatch E
      then if has_avx2_variant E \<and> detect_x86_64_features E then Mlk_avx2
           else if has_neon_variant E \<and> hwcap_asimd E then Mlk_neon
           else Mlk_ref
      else Mlk_plain)"

abbreviation native :: "'e kem_env_scheme \<Rightarrow> mlk_native" where
  "native E \<equiv> mlk_lib E (mlk_variant_of E)"

text \<open>The randomised functions of mlkem-native draw their coins from the wrapper's \<open>randombytes\<close>.\<close>

definition mlk_kem_keypair ::
  "'e kem_env_scheme \<Rightarrow> QUDO_KEM_security_level_t \<Rightarrow> ('s kem_st_scheme, int \<times> (bytes \<times> bytes) option) state" where
  "mlk_kem_keypair E level = do {
     r \<leftarrow> QUDO_KEM_randombytes E False 64;
     if fst r \<noteq> 0 then ret (-3, None)
     else let (rc, pk, sk) = mlk_keypair_derand (native E) level (snd r) in ret (rc, Some (pk, sk))
   }"

definition mlk_kem_enc ::
  "'e kem_env_scheme \<Rightarrow> QUDO_KEM_security_level_t \<Rightarrow> bytes \<Rightarrow> ('s kem_st_scheme, int \<times> (bytes \<times> bytes) option) state" where
  "mlk_kem_enc E level pk = do {
     r \<leftarrow> QUDO_KEM_randombytes E False 32;
     if fst r \<noteq> 0 then ret (-3, None)
     else ret (mlk_enc_derand (native E) level pk (snd r))
   }"

definition kem_rc :: "int \<Rightarrow> QUDO_KEM_status_t" where
  "kem_rc rc = (if rc = 0 then QUDO_KEM_SUCCESS else QUDO_KEM_ERROR_CRYPTO)"

definition qudo_mlkem_keypair where
  "qudo_mlkem_keypair E level = do { r \<leftarrow> mlk_kem_keypair E level; ret (kem_rc (fst r), snd r) }"

definition qudo_mlkem_keypair_derand ::
  "'e kem_env_scheme \<Rightarrow> QUDO_KEM_security_level_t
     \<Rightarrow> ('s kem_st_scheme, QUDO_KEM_status_t \<times> ((bytes \<times> bytes) \<times> bytes option) option) state" where
  "qudo_mlkem_keypair_derand E level = do {
     r \<leftarrow> QUDO_KEM_randombytes E False 64;
     if fst r \<noteq> QUDO_KEM_SUCCESS then ret (QUDO_KEM_ERROR_RNG, None)
     else let (rc, pk, sk) = mlk_keypair_derand (native E) level (snd r)
          in ret (kem_rc rc, Some ((pk, sk), if rc = 0 then Some (snd r) else None))
   }"

definition qudo_mlkem_keypair_from_seed ::
  "'e kem_env_scheme \<Rightarrow> QUDO_KEM_security_level_t \<Rightarrow> bytes \<Rightarrow> QUDO_KEM_status_t \<times> (bytes \<times> bytes) option" where
  "qudo_mlkem_keypair_from_seed E level seed =
     (let (rc, pk, sk) = mlk_keypair_derand (native E) level seed in (kem_rc rc, Some (pk, sk)))"

definition qudo_mlkem_encaps where
  "qudo_mlkem_encaps E level pk = do { r \<leftarrow> mlk_kem_enc E level pk; ret (kem_rc (fst r), snd r) }"

definition qudo_mlkem_encaps_derand ::
  "'e kem_env_scheme \<Rightarrow> QUDO_KEM_security_level_t \<Rightarrow> bytes \<Rightarrow> bytes \<Rightarrow> QUDO_KEM_status_t \<times> (bytes \<times> bytes) option" where
  "qudo_mlkem_encaps_derand E level pk randomness =
     (let (rc, out) = mlk_enc_derand (native E) level pk randomness in (kem_rc rc, out))"

definition qudo_mlkem_decaps ::
  "'e kem_env_scheme \<Rightarrow> QUDO_KEM_security_level_t \<Rightarrow> bytes \<Rightarrow> bytes \<Rightarrow> QUDO_KEM_status_t \<times> bytes option" where
  "qudo_mlkem_decaps E level ct sk = (let (rc, out) = mlk_dec (native E) level ct sk in (kem_rc rc, out))"

definition qudo_mlkem_check_pk :: "'e kem_env_scheme \<Rightarrow> QUDO_KEM_security_level_t \<Rightarrow> bytes \<Rightarrow> int" where
  "qudo_mlkem_check_pk E level pk = mlk_check_pk (native E) level pk"

definition qudo_mlkem_check_sk :: "'e kem_env_scheme \<Rightarrow> QUDO_KEM_security_level_t \<Rightarrow> bytes \<Rightarrow> int" where
  "qudo_mlkem_check_sk E level sk = mlk_check_sk (native E) level sk"

section \<open>The KEM object\<close>

definition fips_ind_zero :: qudo_fips_ind_t where
  "fips_ind_zero = \<lparr>ind_approved = False, ind_strict = False\<rparr>"

definition mlkem_512_kem :: QUDO_KEM where
  "mlkem_512_kem = \<lparr>algorithm_name = ''ML-KEM-512'', security_level = QUDO_KEM_512, claimed_nist_level = 1,
     ind_cca = True, length_public_key = 800, length_secret_key = 1632, length_ciphertext = 768,
     length_shared_secret = 32, keypair_fn = QUDO_KEM_512, encaps_fn = QUDO_KEM_512,
     decaps_fn = QUDO_KEM_512, fips_ind = fips_ind_zero\<rparr>"

definition mlkem_768_kem :: QUDO_KEM where
  "mlkem_768_kem = \<lparr>algorithm_name = ''ML-KEM-768'', security_level = QUDO_KEM_768, claimed_nist_level = 3,
     ind_cca = True, length_public_key = 1184, length_secret_key = 2400, length_ciphertext = 1088,
     length_shared_secret = 32, keypair_fn = QUDO_KEM_768, encaps_fn = QUDO_KEM_768,
     decaps_fn = QUDO_KEM_768, fips_ind = fips_ind_zero\<rparr>"

definition mlkem_1024_kem :: QUDO_KEM where
  "mlkem_1024_kem = \<lparr>algorithm_name = ''ML-KEM-1024'', security_level = QUDO_KEM_1024, claimed_nist_level = 5,
     ind_cca = True, length_public_key = 1568, length_secret_key = 3168, length_ciphertext = 1568,
     length_shared_secret = 32, keypair_fn = QUDO_KEM_1024, encaps_fn = QUDO_KEM_1024,
     decaps_fn = QUDO_KEM_1024, fips_ind = fips_ind_zero\<rparr>"

definition kem_template :: "string \<Rightarrow> QUDO_KEM option" where
  "kem_template n =
     (if strcasecmp_eq n ''ML-KEM-512'' then Some mlkem_512_kem
      else if strcasecmp_eq n ''ML-KEM-768'' then Some mlkem_768_kem
      else if strcasecmp_eq n ''ML-KEM-1024'' then Some mlkem_1024_kem
      else None)"

definition kem_template_by_level :: "QUDO_KEM_security_level_t \<Rightarrow> QUDO_KEM option" where
  "kem_template_by_level level =
     (if level = QUDO_KEM_512 then Some mlkem_512_kem
      else if level = QUDO_KEM_768 then Some mlkem_768_kem
      else if level = QUDO_KEM_1024 then Some mlkem_1024_kem
      else None)"

definition QUDO_KEM_get_algorithm_info ::
  "string option \<Rightarrow> bool \<Rightarrow> QUDO_KEM_status_t \<times> QUDO_KEM option option" where
  "QUDO_KEM_get_algorithm_info name kem_null =
     (case name of None \<Rightarrow> (QUDO_KEM_ERROR_INVALID_ARG, None)
      | Some n \<Rightarrow>
        if kem_null then (QUDO_KEM_ERROR_INVALID_ARG, None)
        else if strcasecmp_eq n ''ML-KEM-512'' then (QUDO_KEM_SUCCESS, Some (Some mlkem_512_kem))
        else if strcasecmp_eq n ''ML-KEM-768'' then (QUDO_KEM_SUCCESS, Some (Some mlkem_768_kem))
        else if strcasecmp_eq n ''ML-KEM-1024'' then (QUDO_KEM_SUCCESS, Some (Some mlkem_1024_kem))
        else (QUDO_KEM_ERROR_INVALID_ARG, Some None))"

section \<open>Guards\<close>

definition QUDO_FIPS_GATE :: "'e kem_env_scheme \<Rightarrow> ('s kem_st_scheme, bool) state" where
  "QUDO_FIPS_GATE E = (if fips_module E then act qudo_pqc_is_running_or_selftest else ret True)"

definition QUDO_FIPS_IND_CHECK :: "'e kem_env_scheme \<Rightarrow> QUDO_KEM option \<Rightarrow> ('s kem_st_scheme, bool) state" where
  "QUDO_FIPS_IND_CHECK E kem =
     (case (if fips_module E then kem else None) of
        None \<Rightarrow> ret True
      | Some k \<Rightarrow> do {
          ready \<leftarrow> asks qudo_fips_rand_is_ready;
          if \<not> ready
          then do {
            upd (qudo_audit_log QUDO_SEV_ERROR QUDO_ERR_DRBG_NOT_SEEDED ''INDICATOR'' ''DRBG not ready'');
            ret False
          }
          else act (\<lambda>s. let (ok, ind, s) = qudo_pqc_check_security_level (Some (algorithm_name k))
                              (Some (qudo_fips_ind_init (qudo_fips_ind_get_default_strict E))) s
                        in (ok, s))
        })"

text \<open>The two macros at the head of a service on a KEM object, with the body they guard.\<close>

definition kem_service ::
  "'e kem_env_scheme \<Rightarrow> QUDO_KEM option \<Rightarrow> ('s kem_st_scheme, QUDO_KEM_status_t \<times> 'a option) state
     \<Rightarrow> ('s kem_st_scheme, QUDO_KEM_status_t \<times> 'a option) state" where
  "kem_service E kem body = do {
     run \<leftarrow> QUDO_FIPS_GATE E;
     if \<not> run then ret (QUDO_KEM_ERROR, None)
     else do {
       ok \<leftarrow> QUDO_FIPS_IND_CHECK E kem;
       if \<not> ok then ret (QUDO_KEM_ERROR, None) else body
     }
   }"

definition kem_alloc ::
  "'e kem_env_scheme \<Rightarrow> QUDO_KEM \<Rightarrow> ('s kem_st_scheme, QUDO_KEM option) state" where
  "kem_alloc E template = do {
     ok \<leftarrow> act (qudo_malloc E sizeof_QUDO_KEM);
     ret (if ok then Some (if fips_module E
                           then template\<lparr>fips_ind := qudo_fips_ind_init (qudo_fips_ind_get_default_strict E)\<rparr>
                           else template)
          else None)
   }"

definition QUDO_KEM_new :: "'e kem_env_scheme \<Rightarrow> string option \<Rightarrow> ('s kem_st_scheme, QUDO_KEM option) state" where
  "QUDO_KEM_new E name = do {
     run \<leftarrow> QUDO_FIPS_GATE E;
     if \<not> run then ret None
     else do {
       st \<leftarrow> asks g_mlkem_init_state;
       rc \<leftarrow> (if st \<noteq> 2 then QUDO_KEM_init E else ret QUDO_KEM_SUCCESS);
       if rc \<noteq> QUDO_KEM_SUCCESS then ret None
       else case name of
         None \<Rightarrow> ret None
       | Some n \<Rightarrow> (case kem_template n of None \<Rightarrow> ret None | Some template \<Rightarrow> kem_alloc E template)
     }
   }"

definition QUDO_KEM_new_by_level ::
  "'e kem_env_scheme \<Rightarrow> QUDO_KEM_security_level_t \<Rightarrow> ('s kem_st_scheme, QUDO_KEM option) state" where
  "QUDO_KEM_new_by_level E level = do {
     run \<leftarrow> QUDO_FIPS_GATE E;
     if \<not> run then ret None
     else do {
       st \<leftarrow> asks g_mlkem_init_state;
       rc \<leftarrow> (if st \<noteq> 2 then QUDO_KEM_init E else ret QUDO_KEM_SUCCESS);
       if rc \<noteq> QUDO_KEM_SUCCESS then ret None
       else case kem_template_by_level level of None \<Rightarrow> ret None | Some template \<Rightarrow> kem_alloc E template
     }
   }"

section \<open>Services on a KEM object\<close>

definition QUDO_KEM_encaps where
  "QUDO_KEM_encaps E kem ct_null ss_null pk = kem_service E kem
     (case (kem, pk) of
        (Some k, Some p) \<Rightarrow>
          if ct_null \<or> ss_null then ret (QUDO_KEM_ERROR_INVALID_ARG, None) else qudo_mlkem_encaps E (encaps_fn k) p
      | _ \<Rightarrow> ret (QUDO_KEM_ERROR_INVALID_ARG, None))"

definition known_level :: "QUDO_KEM_security_level_t \<Rightarrow> bool" where
  "known_level level \<longleftrightarrow> level = QUDO_KEM_512 \<or> level = QUDO_KEM_768 \<or> level = QUDO_KEM_1024"

definition QUDO_KEM_encaps_derand where
  "QUDO_KEM_encaps_derand E kem ct_null ss_null pk randomness = kem_service E kem
     (case (kem, pk, randomness) of
        (Some k, Some p, Some m) \<Rightarrow>
          if ct_null \<or> ss_null then ret (QUDO_KEM_ERROR_INVALID_ARG, None)
          else if known_level (security_level k) then ret (qudo_mlkem_encaps_derand E (security_level k) p m)
          else ret (QUDO_KEM_ERROR_INVALID_ARG, None)
      | _ \<Rightarrow> ret (QUDO_KEM_ERROR_INVALID_ARG, None))"

definition QUDO_KEM_decaps where
  "QUDO_KEM_decaps E kem ss_null ct sk = kem_service E kem
     (case (kem, ct, sk) of
        (Some k, Some c, Some d) \<Rightarrow>
          if ss_null then ret (QUDO_KEM_ERROR_INVALID_ARG, None) else ret (qudo_mlkem_decaps E (decaps_fn k) c d)
      | _ \<Rightarrow> ret (QUDO_KEM_ERROR_INVALID_ARG, None))"

text \<open>
  The pairwise test.  Of the buffers it works on, \<open>secret\<close> and \<open>out\<close> start zeroed.
\<close>

definition pct_encaps where
  "pct_encaps E k pk use_random =
     (if use_random then QUDO_KEM_encaps E (Some k) False False (Some pk)
      else QUDO_KEM_encaps_derand E (Some k) False False (Some pk) (Some (replicate 32 0x55)))"

definition pct_exchange ::
  "'e kem_env_scheme \<Rightarrow> QUDO_KEM \<Rightarrow> bytes \<Rightarrow> bytes \<Rightarrow> bool \<Rightarrow> qudo_st_ctx_t \<Rightarrow> ('s kem_st_scheme, bool) state" where
  "pct_exchange E k pk sk use_random st = do {
     ok \<leftarrow> act (qudo_malloc E (length_ciphertext k));
     if \<not> ok then ret False
     else do {
       r \<leftarrow> pct_encaps E k pk use_random;
       (case r of
          (rc, Some (ct, secret)) \<Rightarrow>
            if rc \<noteq> QUDO_KEM_SUCCESS then ret False
            else do {
              ct \<leftarrow> act (qudo_st_corrupt st ct);
              d \<leftarrow> QUDO_KEM_decaps E (Some k) False (Some ct) (Some sk);
              (case d of
                 (rc, Some out) \<Rightarrow> ret (rc = QUDO_KEM_SUCCESS \<and> qudo_memcmp_ct out secret 32 = 0)
               | (rc, None) \<Rightarrow> ret False)
            }
        | (rc, None) \<Rightarrow> ret False)
     }
   }"

definition qudo_pqc_mlkem_pct ::
  "'e kem_env_scheme \<Rightarrow> QUDO_KEM option \<Rightarrow> bytes option \<Rightarrow> bytes option \<Rightarrow> bool \<Rightarrow> ('s kem_st_scheme, bool) state" where
  "qudo_pqc_mlkem_pct E kem pk sk use_random =
     (case (kem, pk, sk) of
        (Some k, Some p, Some d) \<Rightarrow> do {
          self \<leftarrow> asks qudo_pqc_is_self_testing;
          if self then ret True
          else do {
            st \<leftarrow> act qudo_pqc_get_st_ctx;
            st \<leftarrow> act (qudo_st_begin st ''PCT'' ''ML-KEM'');
            r \<leftarrow> pct_exchange E k p d use_random st;
            upd (qudo_st_end st r);
            (if \<not> r then upd (qudo_audit_log QUDO_SEV_ERROR QUDO_ERR_PCT_ENCAPS_FAIL ''PCT'' ''ML-KEM PCT failed'')
             else ret ());
            ret r
          }
        }
      | _ \<Rightarrow> ret False)"

text \<open>
  What follows a successful generation in each of the three services that make key pairs: the
  pairwise test, and on its failure the error state and zeroed keys.  The result says whether the
  keys stand.
\<close>

definition pct_passes ::
  "'e kem_env_scheme \<Rightarrow> QUDO_KEM \<Rightarrow> bytes \<times> bytes \<Rightarrow> ('s kem_st_scheme, bool) state" where
  "pct_passes E k keys =
     (if fips_module E
      then do {
        self \<leftarrow> asks qudo_pqc_is_self_testing;
        if self then ret True
        else do {
          ok \<leftarrow> qudo_pqc_mlkem_pct E (Some k) (Some (fst keys)) (Some (snd keys)) False;
          (if \<not> ok then upd (qudo_pqc_set_error_state (Some ''PCT'')) else ret ());
          ret ok
        }
      }
      else ret True)"

definition zero_keys :: "QUDO_KEM \<Rightarrow> bytes \<times> bytes" where
  "zero_keys k = (replicate (length_public_key k) 0, replicate (length_secret_key k) 0)"

definition QUDO_KEM_keypair where
  "QUDO_KEM_keypair E kem pk_null sk_null = kem_service E kem
     (case kem of
        None \<Rightarrow> ret (QUDO_KEM_ERROR_INVALID_ARG, None)
      | Some k \<Rightarrow>
          if pk_null \<or> sk_null then ret (QUDO_KEM_ERROR_INVALID_ARG, None)
          else do {
            r \<leftarrow> qudo_mlkem_keypair E (keypair_fn k);
            (case r of
               (rc, Some keys) \<Rightarrow>
                 if rc \<noteq> QUDO_KEM_SUCCESS then ret (rc, Some keys)
                 else do {
                   ok \<leftarrow> pct_passes E k keys;
                   ret (if ok then (QUDO_KEM_SUCCESS, Some keys) else (QUDO_KEM_ERROR_CRYPTO, Some (zero_keys k)))
                 }
             | (rc, None) \<Rightarrow> ret (rc, None))
          })"

definition QUDO_KEM_keypair_derand where
  "QUDO_KEM_keypair_derand E kem pk_null sk_null seed_out = kem_service E kem
     (case kem of
        None \<Rightarrow> ret (QUDO_KEM_ERROR_INVALID_ARG, None)
      | Some k \<Rightarrow>
          if pk_null \<or> sk_null then ret (QUDO_KEM_ERROR_INVALID_ARG, None)
          else if (case seed_out of None \<Rightarrow> False | Some len \<Rightarrow> len < QUDO_KEM_SEED_BYTES)
          then ret (QUDO_KEM_ERROR_BUFFER_TOO_SMALL, None)
          else if \<not> known_level (security_level k) then ret (QUDO_KEM_ERROR_INVALID_ARG, None)
          else do {
            r \<leftarrow> qudo_mlkem_keypair_derand E (security_level k);
            (case r of
               (rc, Some (keys, seed)) \<Rightarrow>
                 let seed = (if seed_out = None then None else seed)
                 in if rc \<noteq> QUDO_KEM_SUCCESS then ret (rc, Some (keys, seed))
                    else do {
                      ok \<leftarrow> pct_passes E k keys;
                      ret (if ok then (QUDO_KEM_SUCCESS, Some (keys, seed))
                           else (QUDO_KEM_ERROR_CRYPTO, Some (zero_keys k, seed)))
                    }
             | (rc, None) \<Rightarrow> ret (rc, None))
          })"

definition QUDO_KEM_keypair_from_seed where
  "QUDO_KEM_keypair_from_seed E kem pk_null sk_null seed = kem_service E kem
     (case (kem, seed) of
        (Some k, Some sd) \<Rightarrow>
          if pk_null \<or> sk_null then ret (QUDO_KEM_ERROR_INVALID_ARG, None)
          else if \<not> known_level (security_level k) then ret (QUDO_KEM_ERROR_INVALID_ARG, None)
          else (case qudo_mlkem_keypair_from_seed E (security_level k) sd of
               (rc, Some keys) \<Rightarrow>
                 if rc \<noteq> QUDO_KEM_SUCCESS then ret (rc, Some keys)
                 else do {
                   ok \<leftarrow> pct_passes E k keys;
                   ret (if ok then (QUDO_KEM_SUCCESS, Some keys) else (QUDO_KEM_ERROR_CRYPTO, Some (zero_keys k)))
                 }
             | (rc, None) \<Rightarrow> ret (rc, None))
      | _ \<Rightarrow> ret (QUDO_KEM_ERROR_INVALID_ARG, None))"

definition QUDO_KEM_check_pk :: "'e kem_env_scheme \<Rightarrow> QUDO_KEM option \<Rightarrow> bytes option \<Rightarrow> QUDO_KEM_status_t" where
  "QUDO_KEM_check_pk E kem public_key =
     (case (kem, public_key) of
        (Some k, Some pk) \<Rightarrow>
          if length pk \<noteq> length_public_key k then QUDO_KEM_ERROR_VERIFY
          else if \<not> known_level (security_level k) then QUDO_KEM_ERROR_INVALID_ARG
          else if qudo_mlkem_check_pk E (security_level k) pk = 0 then QUDO_KEM_SUCCESS else QUDO_KEM_ERROR_VERIFY
      | _ \<Rightarrow> QUDO_KEM_ERROR_INVALID_ARG)"

definition QUDO_KEM_check_sk :: "'e kem_env_scheme \<Rightarrow> QUDO_KEM option \<Rightarrow> bytes option \<Rightarrow> QUDO_KEM_status_t" where
  "QUDO_KEM_check_sk E kem secret_key =
     (case (kem, secret_key) of
        (Some k, Some sk) \<Rightarrow>
          if length sk \<noteq> length_secret_key k then QUDO_KEM_ERROR_VERIFY
          else if \<not> known_level (security_level k) then QUDO_KEM_ERROR_INVALID_ARG
          else if qudo_mlkem_check_sk E (security_level k) sk = 0 then QUDO_KEM_SUCCESS else QUDO_KEM_ERROR_VERIFY
      | _ \<Rightarrow> QUDO_KEM_ERROR_INVALID_ARG)"

section \<open>Services by level\<close>

text \<open>These have the gate but neither the indicator check nor the pairwise test.\<close>

definition QUDO_KEM_keypair_generate where
  "QUDO_KEM_keypair_generate E level pk_null sk_null = do {
     run \<leftarrow> QUDO_FIPS_GATE E;
     if \<not> run then ret (QUDO_KEM_ERROR, None)
     else if pk_null \<or> sk_null then ret (QUDO_KEM_ERROR_INVALID_ARG, None)
     else if known_level level then qudo_mlkem_keypair E level
     else ret (QUDO_KEM_ERROR_INVALID_ARG, None)
   }"

definition QUDO_KEM_encapsulate where
  "QUDO_KEM_encapsulate E level ct_null ss_null public_key = do {
     run \<leftarrow> QUDO_FIPS_GATE E;
     if \<not> run then ret (QUDO_KEM_ERROR, None)
     else case public_key of
       None \<Rightarrow> ret (QUDO_KEM_ERROR_INVALID_ARG, None)
     | Some pk \<Rightarrow>
         if ct_null \<or> ss_null then ret (QUDO_KEM_ERROR_INVALID_ARG, None)
         else if known_level level then qudo_mlkem_encaps E level pk
         else ret (QUDO_KEM_ERROR_INVALID_ARG, None)
   }"

definition QUDO_KEM_decapsulate where
  "QUDO_KEM_decapsulate E level ss_null ciphertext secret_key = do {
     run \<leftarrow> QUDO_FIPS_GATE E;
     if \<not> run then ret (QUDO_KEM_ERROR, None)
     else case (ciphertext, secret_key) of
       (Some ct, Some sk) \<Rightarrow>
         if ss_null then ret (QUDO_KEM_ERROR_INVALID_ARG, None)
         else if known_level level then ret (qudo_mlkem_decaps E level ct sk)
         else ret (QUDO_KEM_ERROR_INVALID_ARG, None)
     | _ \<Rightarrow> ret (QUDO_KEM_ERROR_INVALID_ARG, None)
   }"

section \<open>What the services keep\<close>

definition served :: "'e kem_env_scheme \<Rightarrow> 's kem_st_scheme \<Rightarrow> 's kem_st_scheme \<Rightarrow> bool" where
  "served E s t \<longleftrightarrow> svc s t \<and> (rand_inv E s \<longrightarrow> rand_inv E t) \<and> rand_rest t = rand_rest s"

definition steady :: "'e kem_env_scheme \<Rightarrow> 's kem_st_scheme \<Rightarrow> 's kem_st_scheme \<Rightarrow> bool" where
  "steady E s t \<longleftrightarrow> served E s t \<and> g_module_state t = g_module_state s"

text \<open>
  A key pair is generated with the self-test lock free, or inside the self-tests with the lock held;
  there the pairwise test, which would take it, is skipped.
\<close>

definition post_lock :: "'s mod_st_scheme \<Rightarrow> bool" where
  "post_lock s \<longleftrightarrow> idle (g_self_test_lock s) \<or> g_self_test_lock s = RwWrite \<and> g_module_state s = ST_SELFTEST"

lemma served_refl [simp, intro]: "served E s s"
  by (simp add: served_def)

lemma steady_refl [simp, intro]: "steady E s s"
  by (simp add: steady_def)

lemma served_trans: "served E s t \<Longrightarrow> served E t u \<Longrightarrow> served E s u"
  by (auto simp: served_def intro: svc_trans)

lemma steady_trans: "steady E s t \<Longrightarrow> steady E t u \<Longrightarrow> steady E s u"
  by (auto simp: steady_def intro: served_trans)

lemma steady_served: "steady E s t \<Longrightarrow> served E s t"
  by (simp add: steady_def)

lemma steady_served_trans: "steady E s t \<Longrightarrow> served E t u \<Longrightarrow> served E s u"
  by (blast intro: steady_served served_trans)

lemma served_steady_trans: "served E s t \<Longrightarrow> steady E t u \<Longrightarrow> served E s u"
  by (blast intro: steady_served served_trans)

lemma steady_calm: "steady E s t \<Longrightarrow> calm s t"
  by (simp add: steady_def served_def calm_def)

lemma steady_inv: "steady E s t \<Longrightarrow> rand_inv E s \<Longrightarrow> rand_inv E t"
  by (simp add: steady_def served_def)

lemma steady_lock: "steady E s t \<Longrightarrow> lock_ok s \<Longrightarrow> lock_ok t"
  by (blast intro: calm_lock_ok steady_calm)

lemma post_lock_ok: "post_lock s \<Longrightarrow> lock_ok s"
  by (auto simp: post_lock_def lock_ok_def)

lemma steady_post_lock: "steady E s t \<Longrightarrow> post_lock s \<Longrightarrow> post_lock t"
  by (auto simp: post_lock_def steady_def served_def svc_def)

lemma steady_of_more: "calm s t \<Longrightarrow> mod_st.more t = mod_st.more s \<Longrightarrow> steady E s t"
  using rand_of_more [of t s] rand_inv_core [of t s E] rand_rest_core [of t s]
  by (simp add: steady_def served_def calm_def)

lemma steady_of_core: "calm s t \<Longrightarrow> rand_core t = rand_core s \<Longrightarrow> steady E s t"
  using rand_inv_core [of t s E] rand_rest_core [of t s]
  by (simp add: steady_def served_def calm_def)

lemma steady_audit [simp]: "steady E s (qudo_audit_log sev c cm d s)"
  by (rule steady_of_more) simp_all

lemma steady_st_end [simp]: "steady E s (qudo_st_end st r s)"
  by (rule steady_of_more) simp_all

lemma steady_ready: "steady E s t \<Longrightarrow> g_fips_rand_ready t = g_fips_rand_ready s"
  by (simp add: steady_def served_def rand_rest_def)

lemma steady_min: "steady E s t \<Longrightarrow> g_min_security_level t = g_min_security_level s"
  by (simp add: steady_def served_def svc_def config_of_def)

lemma randombytes_spec:
  assumes inv: "rand_inv E s" and lock: "lock_ok s"
  shows "wp (QUDO_KEM_randombytes E out_null n) (\<lambda>r t. served E s t \<and> (fst r = 0 \<longrightarrow> steady E s t)
     \<and> (fst r = 0 \<or> fst r = -1)) s"
proof (cases "out_null \<or> n = 0")
  case False
  show ?thesis
  proof (cases "kem_rand_build E")
    case Combined_build
    with False show ?thesis
      unfolding QUDO_KEM_randombytes_def
      apply (simp add: qudo_fips_rand_is_ready_def)
      apply (rule impI)
      apply (rule wp_use [OF rand_bytes_spec [OF inv lock]])
      apply (auto simp: served_def steady_def calm_def)
      done
  next
    case Platform_build
    with False show ?thesis
      unfolding QUDO_KEM_randombytes_def
      apply simp
      apply (rule wp_use [OF raw_entropy_spec])
      apply (auto simp: steady_of_core steady_served split: option.split)
      done
  qed (use False in \<open>simp add: QUDO_KEM_randombytes_def\<close>)
qed (simp add: QUDO_KEM_randombytes_def)

lemma kem_rc_0 [simp]: "kem_rc rc = 0 \<longleftrightarrow> rc = 0"
  by (simp add: kem_rc_def)

lemma encaps_keeps:
  assumes "rand_inv E s" "lock_ok s"
  shows "wp (qudo_mlkem_encaps E level pk) (\<lambda>r t. served E s t \<and> (fst r = 0 \<longrightarrow> steady E s t)) s"
  unfolding qudo_mlkem_encaps_def mlk_kem_enc_def wp_bind
  by (rule wp_use [OF randombytes_spec [OF assms]]) auto

lemma keypair_keeps:
  assumes "rand_inv E s" "lock_ok s"
  shows "wp (qudo_mlkem_keypair E level) (\<lambda>r t. served E s t \<and> (fst r = 0 \<longrightarrow> steady E s t \<and> snd r \<noteq> None)) s"
  unfolding qudo_mlkem_keypair_def mlk_kem_keypair_def wp_bind
  by (rule wp_use [OF randombytes_spec [OF assms]]) (auto split: prod.split)

lemma keypair_derand_keeps:
  assumes "rand_inv E s" "lock_ok s"
  shows "wp (qudo_mlkem_keypair_derand E level) (\<lambda>r t. served E s t \<and> (fst r = 0 \<longrightarrow> steady E s t \<and> snd r \<noteq> None)) s"
  unfolding qudo_mlkem_keypair_derand_def wp_bind
  by (rule wp_use [OF randombytes_spec [OF assms]]) (auto split: prod.split)

text \<open>The guards, and exactly when they let a service through.\<close>

definition kem_open :: "'e kem_env_scheme \<Rightarrow> QUDO_KEM \<Rightarrow> 's kem_st_scheme \<Rightarrow> bool" where
  "kem_open E k s \<longleftrightarrow> (g_module_state s = ST_RUNNING \<or> g_module_state s = ST_SELFTEST) \<and> g_fips_rand_ready s
     \<and> qudo_pqc_get_security_level (Some (algorithm_name k)) \<noteq> 0
     \<and> g_min_security_level s \<le> qudo_pqc_get_security_level (Some (algorithm_name k))"

lemma kem_gate_spec:
  "lock_ok s \<Longrightarrow> wp (QUDO_FIPS_GATE E) (\<lambda>r t. steady E s t
     \<and> r = (fips_module E \<longrightarrow> g_module_state s = ST_RUNNING \<or> g_module_state s = ST_SELFTEST) \<and> (r \<longrightarrow> t = s)) s"
  unfolding QUDO_FIPS_GATE_def
  by (cases "fips_module E"; simp) (rule wp_use [OF gate_spec], auto intro: steady_of_more)

lemma ind_check_spec:
  "wp (QUDO_FIPS_IND_CHECK E kem) (\<lambda>r t. steady E s t \<and> (r \<longrightarrow> t = s) \<and> r = (case (if fips_module E then kem else None) of None \<Rightarrow> True
     | Some k \<Rightarrow> g_fips_rand_ready s \<and> qudo_pqc_get_security_level (Some (algorithm_name k)) \<noteq> 0
     \<and> g_min_security_level s \<le> qudo_pqc_get_security_level (Some (algorithm_name k)))) s"
  unfolding QUDO_FIPS_IND_CHECK_def
  by (auto simp: wp_act qudo_pqc_check_security_level_def qudo_fips_ind_get_default_strict_def qudo_fips_ind_init_def
      qudo_fips_ind_set_unapproved_def qudo_fips_rand_is_ready_def Let_def split: option.split if_splits)

lemma kem_service_spec:
  assumes "lock_ok s"
    and "(\<And>k. fips_module E \<Longrightarrow> kem = Some k \<Longrightarrow> kem_open E k s)
         \<Longrightarrow> (fips_module E \<Longrightarrow> g_module_state s = ST_RUNNING \<or> g_module_state s = ST_SELFTEST) \<Longrightarrow> wp body Q s"
    and "\<And>t. steady E s t \<Longrightarrow> Q (-1, None) t"
  shows "wp (kem_service E kem body) Q s"
  unfolding kem_service_def wp_bind
proof (rule wp_use [OF kem_gate_spec [OF assms(1), of E]], goal_cases)
  case (1 r t)
  show ?case
  proof (cases r)
    case True
    with 1 have t: "t = s" and r: "fips_module E \<Longrightarrow> g_module_state s = ST_RUNNING \<or> g_module_state s = ST_SELFTEST"
      by auto
    show ?thesis
      using True assms(2,3) r
      apply (simp add: t)
      apply (rule wp_use [OF ind_check_spec])
      apply (auto simp: kem_open_def split: option.splits if_splits)
      done
  qed (use 1 assms(3) in simp)
qed


lemma QUDO_KEM_encaps_keeps:
  assumes "rand_inv E s" "lock_ok s"
  shows "wp (QUDO_KEM_encaps E kem cn sn pk) (\<lambda>r t. served E s t \<and> (fst r = 0 \<longrightarrow> steady E s t)) s"
  unfolding QUDO_KEM_encaps_def
  by (rule kem_service_spec [OF assms(2)])
    (use encaps_keeps [OF assms] in \<open>auto split: option.split simp: steady_served\<close>)

lemma QUDO_KEM_encaps_derand_keeps:
  assumes "lock_ok s"
  shows "wp (QUDO_KEM_encaps_derand E kem cn sn pk m) (\<lambda>r t. steady E s t) s"
  unfolding QUDO_KEM_encaps_derand_def
  by (rule kem_service_spec [OF assms]) (auto split: option.split)

lemma QUDO_KEM_decaps_keeps:
  assumes "lock_ok s"
  shows "wp (QUDO_KEM_decaps E kem sn ct sk) (\<lambda>r t. steady E s t) s"
  unfolding QUDO_KEM_decaps_def
  by (rule kem_service_spec [OF assms]) (auto split: option.split)

lemma kem_malloc: "wp (act (qudo_malloc E n)) (\<lambda>r t. steady E s t) s"
  by (simp add: wp_act qudo_malloc_def steady_of_more)

lemma kem_corrupt: "wp (act (qudo_st_corrupt st b)) (\<lambda>r t. steady E s t) s"
proof -
  have "steady E s (snd (qudo_st_corrupt st b s))" by (rule steady_of_more) simp_all
  then show ?thesis by (simp add: wp_act case_prod_beta)
qed

lemma kem_begin: "wp (act (qudo_st_begin st ty d)) (\<lambda>r t. steady E s t) s"
proof -
  have "steady E s (snd (qudo_st_begin st ty d s))" by (rule steady_of_more) simp_all
  then show ?thesis by (simp add: wp_act case_prod_beta)
qed

lemma kem_st_ctx: "idle (g_self_test_lock s) \<Longrightarrow> wp (act qudo_pqc_get_st_ctx) (\<lambda>r t. steady E s t) s"
proof -
  assume "idle (g_self_test_lock s)"
  then have "steady E s (snd (qudo_pqc_get_st_ctx s))" by (intro steady_of_more get_st_ctx_calm) simp_all
  then show ?thesis by (simp add: wp_act case_prod_beta)
qed

lemma wp_from:
  assumes "steady E s t" "wp m (\<lambda>r u. served E t u \<and> (P r \<longrightarrow> steady E t u)) t"
  shows "wp m (\<lambda>r u. served E s u \<and> (P r \<longrightarrow> steady E s u)) t"
  by (rule wp_use [OF assms(2)]) (use steady_served_trans [OF assms(1)] steady_trans [OF assms(1)] in blast)

lemma wp_steady: "wp m (\<lambda>r u. steady E s u) s \<Longrightarrow> wp m (\<lambda>r u. served E s u \<and> (P r \<longrightarrow> steady E s u)) s"
  by (erule wp_use) (simp add: steady_served)

lemma pct_exchange_keeps:
  assumes inv: "rand_inv E s" and lock: "lock_ok s"
  shows "wp (pct_exchange E k pk sk rnd st) (\<lambda>r t. served E s t \<and> (r \<longrightarrow> steady E s t)) s"
proof -
  have enc: "wp (pct_encaps E k pk rnd) (\<lambda>r u. served E s u \<and> (fst r = 0 \<longrightarrow> steady E s u)) t" if t: "steady E s t" for t
    unfolding pct_encaps_def
    by (rule wp_from [OF t])
      (use QUDO_KEM_encaps_keeps [OF steady_inv [OF t inv] steady_lock [OF t lock]]
         wp_steady [OF QUDO_KEM_encaps_derand_keeps [OF steady_lock [OF t lock], of E]] in auto)
  have dec: "wp (act (qudo_st_corrupt st ct)) (\<lambda>ct. wp (QUDO_KEM_decaps E (Some k) False (Some ct) (Some sk))
      (\<lambda>r u. steady E s u)) t" if t: "steady E s t" for ct t
  proof (rule wp_use [OF kem_corrupt [of st ct E t]])
    fix r u assume "steady E t u"
    with t have u: "steady E s u" by (rule steady_trans)
    show "wp (QUDO_KEM_decaps E (Some k) False (Some r) (Some sk)) (\<lambda>r u. steady E s u) u"
      by (rule wp_use [OF QUDO_KEM_decaps_keeps [OF steady_lock [OF u lock]]]) (rule steady_trans [OF u])
  qed
  show ?thesis
    unfolding pct_exchange_def wp_bind
  proof (rule wp_use [OF kem_malloc [of E _ s]], goal_cases)
    case (1 ok t)
    show ?case
      unfolding wp_if wp_ret wp_bind
    proof (cases "\<not> ok", goal_cases)
      case 2
      then show ?case
        apply simp
        apply (rule wp_use [OF enc [OF 1]])
        subgoal for r u
          by (cases r; cases "snd r")
            (auto intro!: wp_use [OF dec] elim!: wp_use simp: steady_served split: option.split)
        done
    qed (use 1 in \<open>simp add: steady_served\<close>)
  qed
qed

lemma pct_keeps:
  assumes inv: "rand_inv E s" and lock: "post_lock s"
  shows "wp (qudo_pqc_mlkem_pct E kem pk sk rnd) (\<lambda>r t. served E s t \<and> (r \<longrightarrow> steady E s t)) s"
proof -
  have "wp (do { st \<leftarrow> act qudo_pqc_get_st_ctx; st \<leftarrow> act (qudo_st_begin st ''PCT'' ''ML-KEM'');
       r \<leftarrow> pct_exchange E k p d rnd st; upd (qudo_st_end st r);
       (if \<not> r then upd (qudo_audit_log QUDO_SEV_ERROR QUDO_ERR_PCT_ENCAPS_FAIL ''PCT'' ''ML-KEM PCT failed'') else ret ());
       ret r }) (\<lambda>r t. served E s t \<and> (r \<longrightarrow> steady E s t)) s" if "\<not> qudo_pqc_is_self_testing s" for k p d
  proof -
    have idle: "idle (g_self_test_lock s)" using lock that by (auto simp: post_lock_def qudo_pqc_is_self_testing_def)
    have fin: "served E s (qudo_audit_log a b c d' (qudo_st_end st r u))" if "served E s u" for u a b c d' st r
      using that by (blast intro: served_steady_trans steady_audit steady_st_end)
    show ?thesis
      unfolding wp_bind
      apply (rule wp_use [OF kem_st_ctx [OF idle, of E]])
      apply (rule wp_use [OF kem_begin [where E = E]])
      apply (drule (1) steady_trans)
      apply (rule wp_use [OF pct_exchange_keeps [of E]])
        apply (erule steady_inv [OF _ inv])
       apply (erule steady_lock [OF _ post_lock_ok [OF lock]])
      apply (auto intro!: fin served_steady_trans [OF _ steady_st_end] steady_trans [OF _ steady_st_end]
          dest: steady_served_trans steady_trans)
      done
  qed
  then show ?thesis
    unfolding qudo_pqc_mlkem_pct_def by (auto split: option.split)
qed

lemma set_error_served [simp]: "served E s (qudo_pqc_set_error_state ty s)"
  using rand_of_more [OF set_error_state_more, of ty s] rand_inv_core [of "qudo_pqc_set_error_state ty s" s E]
    rand_rest_core [of "qudo_pqc_set_error_state ty s" s]
  by (simp add: served_def)

lemma pct_passes_keeps:
  assumes inv: "rand_inv E s" and lock: "post_lock s"
  shows "wp (pct_passes E k keys) (\<lambda>r t. served E s t \<and> (r \<longrightarrow> steady E s t)) s"
proof -
  have "wp (qudo_pqc_mlkem_pct E (Some k) (Some (fst keys)) (Some (snd keys)) False)
     (\<lambda>ok. wp (do { (if \<not> ok then upd (qudo_pqc_set_error_state (Some ''PCT'')) else ret ()); ret ok })
       (\<lambda>r t. served E s t \<and> (r \<longrightarrow> steady E s t))) s"
    by (rule wp_use [OF pct_keeps [OF assms]]) (auto intro: served_trans [OF _ set_error_served])
  then show ?thesis by (simp add: pct_passes_def)
qed


lemma pct_then:
  assumes inv: "rand_inv E s" and lock: "post_lock s" and t: "steady E s t"
  shows "wp (pct_passes E k keys) (\<lambda>r u. served E s u \<and> (r \<longrightarrow> steady E s u)) t"
  by (rule wp_from [OF t pct_passes_keeps [OF steady_inv [OF t inv] steady_post_lock [OF t lock]]])

lemma QUDO_KEM_keypair_keeps:
  assumes "rand_inv E s" "post_lock s"
  shows "wp (QUDO_KEM_keypair E kem pn sn) (\<lambda>r t. served E s t \<and> (fst r = 0 \<longrightarrow> steady E s t)) s"
  unfolding QUDO_KEM_keypair_def
  by (rule kem_service_spec [OF post_lock_ok [OF assms(2)]])
    (auto simp: steady_served split: option.split
      intro!: wp_use [OF keypair_keeps [OF assms(1) post_lock_ok [OF assms(2)]]] wp_use [OF pct_then [OF assms]])

lemma QUDO_KEM_keypair_derand_keeps:
  assumes "rand_inv E s" "post_lock s"
  shows "wp (QUDO_KEM_keypair_derand E kem pn sn so) (\<lambda>r t. served E s t \<and> (fst r = 0 \<longrightarrow> steady E s t)) s"
  unfolding QUDO_KEM_keypair_derand_def
  by (rule kem_service_spec [OF post_lock_ok [OF assms(2)]])
    (auto simp: steady_served Let_def split: option.split
      intro!: wp_use [OF keypair_derand_keeps [OF assms(1) post_lock_ok [OF assms(2)]]] wp_use [OF pct_then [OF assms]])

lemma QUDO_KEM_keypair_from_seed_keeps:
  assumes "rand_inv E s" "post_lock s"
  shows "wp (QUDO_KEM_keypair_from_seed E kem pn sn sd) (\<lambda>r t. served E s t \<and> (fst r = 0 \<longrightarrow> steady E s t)) s"
  unfolding QUDO_KEM_keypair_from_seed_def
  by (rule kem_service_spec [OF post_lock_ok [OF assms(2)]])
    (auto simp: steady_served split: option.split prod.split intro!: wp_use [OF pct_then [OF assms]])

text \<open>The services on a KEM object as one type of request; the result lists the buffers written.\<close>

datatype kem_call =
    Kem_keypair bool bool
  | Kem_keypair_derand bool bool "nat option"
  | Kem_keypair_from_seed bool bool "bytes option"
  | Kem_encaps bool bool "bytes option"
  | Kem_encaps_derand bool bool "bytes option" "bytes option"
  | Kem_decaps bool "bytes option" "bytes option"

definition written :: "('a \<Rightarrow> bytes list) \<Rightarrow> ('s, int \<times> 'a option) state \<Rightarrow> ('s, int \<times> bytes list) state" where
  "written f m = do { r \<leftarrow> m; ret (fst r, case snd r of None \<Rightarrow> [] | Some b \<Rightarrow> f b) }"

primrec kem_run ::
  "'e kem_env_scheme \<Rightarrow> QUDO_KEM option \<Rightarrow> kem_call \<Rightarrow> ('s kem_st_scheme, QUDO_KEM_status_t \<times> bytes list) state" where
  "kem_run E kem (Kem_keypair pn sn) = written (\<lambda>(a, b). [a, b]) (QUDO_KEM_keypair E kem pn sn)"
| "kem_run E kem (Kem_keypair_derand pn sn so) =
     written (\<lambda>((a, b), c). [a, b] @ (case c of None \<Rightarrow> [] | Some d \<Rightarrow> [d])) (QUDO_KEM_keypair_derand E kem pn sn so)"
| "kem_run E kem (Kem_keypair_from_seed pn sn sd) = written (\<lambda>(a, b). [a, b]) (QUDO_KEM_keypair_from_seed E kem pn sn sd)"
| "kem_run E kem (Kem_encaps cn sn pk) = written (\<lambda>(a, b). [a, b]) (QUDO_KEM_encaps E kem cn sn pk)"
| "kem_run E kem (Kem_encaps_derand cn sn pk m) = written (\<lambda>(a, b). [a, b]) (QUDO_KEM_encaps_derand E kem cn sn pk m)"
| "kem_run E kem (Kem_decaps sn ct sk) = written (\<lambda>a. [a]) (QUDO_KEM_decaps E kem sn ct sk)"

lemma wp_written: "wp (written f m) Q s = wp m (\<lambda>r. Q (fst r, case snd r of None \<Rightarrow> [] | Some b \<Rightarrow> f b)) s"
  by (simp add: written_def wp_def split: prod.split)

lemma kem_run_keeps:
  assumes "rand_inv E s" "post_lock s"
  shows "wp (kem_run E kem c) (\<lambda>r t. served E s t \<and> (fst r = 0 \<longrightarrow> steady E s t)) s"
  using assms post_lock_ok [OF assms(2)]
  by (cases c)
    (simp_all add: wp_written QUDO_KEM_keypair_keeps QUDO_KEM_keypair_derand_keeps QUDO_KEM_keypair_from_seed_keeps
      QUDO_KEM_encaps_keeps wp_steady [OF QUDO_KEM_encaps_derand_keeps] wp_steady [OF QUDO_KEM_decaps_keeps])

text \<open>Without the guards' consent a service writes nothing.\<close>

lemma service_closed:
  assumes "lock_ok s" "fips_module E" "\<not> kem_open E k s"
  shows "wp (kem_service E (Some k) body) (\<lambda>r t. r = (-1, None) \<and> steady E s t) s"
  by (rule kem_service_spec [OF assms(1)]) (use assms in auto)

lemma kem_run_closed:
  assumes "lock_ok s" "fips_module E" "\<not> kem_open E k s"
  shows "wp (kem_run E (Some k) c) (\<lambda>r t. r = (-1, []) \<and> steady E s t) s"
  by (cases c)
    (auto simp: wp_written QUDO_KEM_keypair_def QUDO_KEM_keypair_derand_def QUDO_KEM_keypair_from_seed_def
      QUDO_KEM_encaps_def QUDO_KEM_encaps_derand_def QUDO_KEM_decaps_def
      intro!: wp_use [OF service_closed [OF assms]])

lemma service_open:
  assumes "kem_open E k s" "fips_module E"
  shows "run_state (kem_service E (Some k) body) s = run_state body s"
  using assms
  by (auto simp: kem_service_def kem_open_def QUDO_FIPS_GATE_def QUDO_FIPS_IND_CHECK_def qudo_pqc_is_running_or_selftest_def
      qudo_fips_rand_is_ready_def qudo_pqc_check_security_level_def Let_def)

text \<open>Initialisation and the constructors.\<close>

definition kem_inv :: "'s kem_st_scheme \<Rightarrow> bool" where
  "kem_inv s \<longleftrightarrow> g_mlkem_init_lock s = RwFree \<and> (g_mlkem_init_state s = 0 \<or> g_mlkem_init_state s = 2)"

definition kem_rest where
  "kem_rest s = (g_fips_rand_ready s, g_host_rand_provider s, kem_st.more s)"

definition kem_wf :: "QUDO_KEM \<Rightarrow> bool" where
  "kem_wf k \<longleftrightarrow> known_level (security_level k)
     \<and> QUDO_KEM_get_algorithm_name (security_level k) = Some (algorithm_name k)
     \<and> qudo_pqc_get_security_level (Some (algorithm_name k)) = security_level k
     \<and> length_public_key k = get_public_key_size (security_level k)
     \<and> length_secret_key k = get_secret_key_size (security_level k)
     \<and> length_ciphertext k = get_ciphertext_size (security_level k)
     \<and> length_shared_secret k = QUDO_KEM_get_shared_secret_size (security_level k)
     \<and> keypair_fn k = security_level k \<and> encaps_fn k = security_level k \<and> decaps_fn k = security_level k"

lemma templates_wf: "kem_wf mlkem_512_kem" "kem_wf mlkem_768_kem" "kem_wf mlkem_1024_kem"
  by code_simp+

lemma kem_wf_ind [simp]: "kem_wf (k\<lparr>fips_ind := i\<rparr>) = kem_wf k"
  by (simp add: kem_wf_def)

lemma randombytes_test_spec:
  assumes "rand_inv E s" "lock_ok s"
  shows "wp (QUDO_KEM_randombytes_test E) (\<lambda>r t. served E s t \<and> (r = 0 \<longrightarrow> steady E s t)) s"
  unfolding QUDO_KEM_randombytes_test_def wp_bind
  by (rule wp_use [OF randombytes_spec [OF assms]]) auto


lemma kem_upd_calm [simp]: "calm s (s\<lparr>g_mlkem_init_lock := l\<rparr>)" "calm s (s\<lparr>g_mlkem_init_state := i\<rparr>)"
  by (rule calm_of_mod, simp add: mod_st.truncate_def)+

lemma kem_upd_inv [simp]:
  "rand_inv E (s\<lparr>g_mlkem_init_lock := l\<rparr>) = rand_inv E s" "rand_inv E (s\<lparr>g_mlkem_init_state := i\<rparr>) = rand_inv E s"
  by (simp_all add: rand_inv_def)

lemma rand_rest_kem:
  "rand_rest t = rand_rest s \<Longrightarrow> g_mlkem_init_lock t = g_mlkem_init_lock s \<and> g_mlkem_init_state t = g_mlkem_init_state s
     \<and> kem_rest t = kem_rest s"
  by (cases s; cases t) (simp add: rand_rest_def kem_rest_def)

lemma kem_inv_rest: "rand_rest t = rand_rest s \<Longrightarrow> kem_inv t = kem_inv s"
  by (drule rand_rest_kem) (simp add: kem_inv_def)

definition init_keeps :: "'e kem_env_scheme \<Rightarrow> 's kem_st_scheme \<Rightarrow> 's kem_st_scheme \<Rightarrow> bool" where
  "init_keeps E s t \<longleftrightarrow> svc s t \<and> rand_inv E t \<and> kem_inv t \<and> kem_rest t = kem_rest s"

lemma init_keepsI:
  assumes "served E s t" "rand_inv E s" "kem_inv s"
  shows "init_keeps E s t"
  using assms kem_inv_rest [of t s] rand_rest_kem [of t s] by (simp add: served_def init_keeps_def)

lemma init_tested:
  assumes inv: "rand_inv E s" "kem_inv s" and u: "served E (s\<lparr>g_mlkem_init_lock := RwWrite\<rparr>) u"
  shows "init_keeps E s (u\<lparr>g_mlkem_init_lock := RwFree\<rparr>)"
    and "init_keeps E s (u\<lparr>g_mlkem_init_state := 2, g_mlkem_init_lock := RwFree\<rparr>)"
    and "g_mlkem_init_lock u = RwWrite" "g_mlkem_init_state u = g_mlkem_init_state s"
    and "steady E (s\<lparr>g_mlkem_init_lock := RwWrite\<rparr>) u
           \<Longrightarrow> calm s (u\<lparr>g_mlkem_init_state := 2, g_mlkem_init_lock := RwFree\<rparr>)"
proof -
  have k: "g_mlkem_init_lock u = RwWrite" "g_mlkem_init_state u = g_mlkem_init_state s" "kem_rest u = kem_rest s"
    using u rand_rest_kem [of u "s\<lparr>g_mlkem_init_lock := RwWrite\<rparr>"] by (simp_all add: served_def kem_rest_def)
  then show "g_mlkem_init_lock u = RwWrite" "g_mlkem_init_state u = g_mlkem_init_state s" by simp_all
  have u': "svc s u" "rand_inv E u"
    using u inv by (auto simp: served_def intro: calm_svc_trans [OF kem_upd_calm(1)])
  have "init_keeps E s (v\<lparr>g_mlkem_init_lock := RwFree\<rparr>)"
    if "svc s v" "rand_inv E v" "kem_rest v = kem_rest s" "g_mlkem_init_state v = 0 \<or> g_mlkem_init_state v = 2" for v
    using that inv svc_calm_trans [OF that(1) kem_upd_calm(1)] by (simp add: init_keeps_def kem_inv_def kem_rest_def)
  from this [of u] this [of "u\<lparr>g_mlkem_init_state := 2\<rparr>"] u' k inv svc_calm_trans [OF u'(1) kem_upd_calm(2)]
  show "init_keeps E s (u\<lparr>g_mlkem_init_lock := RwFree\<rparr>)"
    "init_keeps E s (u\<lparr>g_mlkem_init_state := 2, g_mlkem_init_lock := RwFree\<rparr>)"
    by (auto simp: kem_inv_def kem_rest_def)
  show "calm s (u\<lparr>g_mlkem_init_state := 2, g_mlkem_init_lock := RwFree\<rparr>)"
    if "steady E (s\<lparr>g_mlkem_init_lock := RwWrite\<rparr>) u"
    by (rule calm_trans [OF calm_trans [OF kem_upd_calm(1) steady_calm [OF that]] calm_trans [OF kem_upd_calm(2,1)]])
qed

lemma kem_init_spec:
  assumes inv: "rand_inv E s" "kem_inv s" and lock: "lock_ok s"
  shows "wp (QUDO_KEM_init E) (\<lambda>r t. init_keeps E s t \<and> (r = 0 \<longrightarrow> calm s t \<and> g_mlkem_init_state t = 2)) s"
proof (cases "g_mlkem_init_state s = 2")
  case True
  with inv show ?thesis by (simp add: QUDO_KEM_init_def init_keepsI)
next
  case False
  let ?s = "s\<lparr>g_mlkem_init_lock := RwWrite\<rparr>"
  have l: "g_mlkem_init_lock s = RwFree" using inv by (simp add: kem_inv_def)
  have "wp (kem_rng_test E) (\<lambda>r t. served E ?s t \<and> (r = 0 \<longrightarrow> steady E ?s t)) ?s"
    unfolding kem_rng_test_def
    using randombytes_test_spec [of E ?s] inv calm_lock_ok [OF kem_upd_calm(1) lock] by simp
  note test = wp_use [OF this]
  show ?thesis
    apply (subst QUDO_KEM_init_def)
    apply (simp add: False MLKEM_INIT_LOCK_def l)
    apply (rule test)
    subgoal for r t using init_tested [OF inv, of t] by (auto simp: MLKEM_INIT_UNLOCK_def)
    done
qed


lemma kem_alloc_spec:
  assumes "kem_wf k" "init_keeps E s t"
  shows "wp (kem_alloc E k) (\<lambda>r u. init_keeps E s u \<and> g_mlkem_init_state u = g_mlkem_init_state t
     \<and> (\<forall>k'. r = Some k' \<longrightarrow> kem_wf k' \<and> algorithm_name k' = algorithm_name k \<and> security_level k' = security_level k)) t"
proof -
  have keep: "init_keeps E s u \<and> g_mlkem_init_state u = g_mlkem_init_state t" if "steady E t u" for u
    using that assms(2) kem_inv_rest [of u t] rand_rest_kem [of u t]
    by (auto simp: init_keeps_def steady_def served_def intro: svc_trans)
  show ?thesis
    unfolding kem_alloc_def wp_bind
    by (rule wp_use [OF kem_malloc [of E _ t]], drule keep) (use assms(1) in auto)
qed

lemma kem_template_wf: "kem_template n = Some k \<Longrightarrow> kem_wf k \<and> strcasecmp_eq n (algorithm_name k)"
  using templates_wf
  by (auto simp: kem_template_def mlkem_512_kem_def mlkem_768_kem_def mlkem_1024_kem_def split: if_splits)

lemma kem_template_by_level_wf: "kem_template_by_level l = Some k \<Longrightarrow> kem_wf k \<and> security_level k = l"
  using templates_wf
  by (auto simp: kem_template_by_level_def mlkem_512_kem_def mlkem_768_kem_def mlkem_1024_kem_def split: if_splits)

text \<open>The common head of the two constructors.\<close>

definition kem_constructor :: "'e kem_env_scheme \<Rightarrow> QUDO_KEM option \<Rightarrow> ('s kem_st_scheme, QUDO_KEM option) state" where
  "kem_constructor E template = do {
     run \<leftarrow> QUDO_FIPS_GATE E;
     if \<not> run then ret None
     else do {
       st \<leftarrow> asks g_mlkem_init_state;
       rc \<leftarrow> (if st \<noteq> 2 then QUDO_KEM_init E else ret 0);
       if rc \<noteq> 0 then ret None else case template of None \<Rightarrow> ret None | Some k \<Rightarrow> kem_alloc E k
     }
   }"

lemma kem_new_constructor:
  "QUDO_KEM_new E name = kem_constructor E (case name of None \<Rightarrow> None | Some n \<Rightarrow> kem_template n)"
  "QUDO_KEM_new_by_level E level = kem_constructor E (kem_template_by_level level)"
  by (simp_all add: QUDO_KEM_new_def QUDO_KEM_new_by_level_def kem_constructor_def split: option.split)

lemma kem_constructor_spec:
  assumes inv: "rand_inv E s" "kem_inv s" and lock: "lock_ok s" and wf: "\<And>k. template = Some k \<Longrightarrow> kem_wf k"
  shows "wp (kem_constructor E template) (\<lambda>r t. init_keeps E s t \<and>
     (r \<noteq> None \<longrightarrow> g_mlkem_init_state t = 2 \<and> template \<noteq> None \<and> kem_wf (the r)
        \<and> algorithm_name (the r) = algorithm_name (the template) \<and> security_level (the r) = security_level (the template)
        \<and> (fips_module E \<longrightarrow> g_module_state s = ST_RUNNING \<or> g_module_state s = ST_SELFTEST))) s"
    (is "wp _ ?Q s")
proof -
  have init: "wp (if st \<noteq> 2 then QUDO_KEM_init E else ret 0)
     (\<lambda>r t. init_keeps E s t \<and> (r = 0 \<longrightarrow> g_mlkem_init_state t = 2)) s" if "st = g_mlkem_init_state s" for st
    using that wp_use [OF kem_init_spec [OF inv lock]] inv by (auto simp: init_keepsI)
  have alloc: "wp (case template of None \<Rightarrow> ret None | Some k \<Rightarrow> kem_alloc E k) ?Q t"
    if "init_keeps E s t" "g_mlkem_init_state t = 2"
      "fips_module E \<longrightarrow> g_module_state s = ST_RUNNING \<or> g_module_state s = ST_SELFTEST" for t
  proof (cases template)
    case (Some k)
    from wp_use [OF kem_alloc_spec [OF wf [OF Some] that(1)]] that show ?thesis
      by (auto simp: Some)
  qed (use that in simp)
  show ?thesis
    unfolding kem_constructor_def wp_bind
  proof (rule wp_use [OF kem_gate_spec [OF lock, of E]], goal_cases)
    case (1 run t)
    show ?case
    proof (cases run)
      case True
      with 1 have t: "t = s" and r: "fips_module E \<longrightarrow> g_module_state s = ST_RUNNING \<or> g_module_state s = ST_SELFTEST"
        by auto
      have "wp (if st \<noteq> 2 then QUDO_KEM_init E else ret 0) (\<lambda>rc. wp (if rc \<noteq> 0 then ret None else
           case template of None \<Rightarrow> ret None | Some k \<Rightarrow> kem_alloc E k) ?Q) s"
        if "st = g_mlkem_init_state s" for st
        by (rule wp_use [OF init [OF that]]) (use alloc [OF _ _ r] in \<open>simp split del: option.split\<close>)
      from this [OF refl] True show ?thesis by (simp add: t)
    qed (use 1 inv in \<open>simp add: init_keepsI steady_served\<close>)
  qed
qed

section \<open>The outcome of the pairwise test\<close>

definition kem_consistent :: "'e kem_env_scheme \<Rightarrow> QUDO_KEM_security_level_t \<Rightarrow> bytes \<Rightarrow> bytes \<Rightarrow> bool" where
  "kem_consistent E level pk sk \<longleftrightarrow>
     (case mlk_enc_derand (native E) level pk (replicate 32 0x55) of
        (rc, Some (ct, ss)) \<Rightarrow> rc = 0 \<and>
          (case mlk_dec (native E) level ct sk of
             (rc, Some out) \<Rightarrow> rc = 0 \<and> qudo_memcmp_ct out ss 32 = 0
           | (rc, None) \<Rightarrow> False)
      | (rc, None) \<Rightarrow> False)"

lemma kem_open_tick [simp]: "kem_open E k (tick s) = kem_open E k s"
  by (simp add: kem_open_def tick_def)

definition no_events :: "'s mod_st_scheme \<Rightarrow> bool" where
  "no_events s \<longleftrightarrow> g_self_test_lock s = RwNull \<or> g_self_test_lock s = RwFree \<and> g_self_test_cb s = None"

lemma st_ctx_none: "no_events s \<Longrightarrow> \<exists>st. qudo_pqc_get_st_ctx s = (st, s) \<and> st_cb st = None"
  by (auto simp: no_events_def qudo_pqc_get_st_ctx_def Let_def same_lock)

lemma pct_exchange_run:
  assumes "kem_open E k s" "fips_module E" "known_level (security_level k)" "decaps_fn k = security_level k"
    and "st_cb st = None" "length_ciphertext k \<noteq> 0" "env_malloc E (os_calls s) (length_ciphertext k)"
  shows "run_state (pct_exchange E k pk sk False st) s = (kem_consistent E (security_level k) pk sk, tick s)"
  using assms
  by (simp add: pct_exchange_def pct_encaps_def qudo_malloc_def QUDO_KEM_encaps_derand_def QUDO_KEM_decaps_def service_open
      kem_consistent_def qudo_mlkem_encaps_derand_def qudo_mlkem_decaps_def qudo_st_corrupt_def Let_def
      split: prod.split option.split)

lemma pct_run:
  assumes "kem_open E k s" "fips_module E" "known_level (security_level k)" "decaps_fn k = security_level k"
    and "no_events s" "length_ciphertext k \<noteq> 0" "env_malloc E (os_calls s) (length_ciphertext k)"
    and run: "g_module_state s = ST_RUNNING"
  shows "run_state (qudo_pqc_mlkem_pct E (Some k) (Some pk) (Some sk) False) s =
     (if kem_consistent E (security_level k) pk sk then (True, tick s)
      else (False, qudo_audit_log QUDO_SEV_ERROR QUDO_ERR_PCT_ENCAPS_FAIL ''PCT'' ''ML-KEM PCT failed'' (tick s)))"
proof -
  obtain st where st: "qudo_pqc_get_st_ctx s = (st, s)" "st_cb st = None" using st_ctx_none [OF assms(5)] by auto
  let ?st = "st\<lparr>current_type := ''PCT'', current_desc := ''ML-KEM''\<rparr>"
  have "run_state (pct_exchange E k pk sk False ?st) s = (kem_consistent E (security_level k) pk sk, tick s)"
    by (rule pct_exchange_run) (use assms st in simp_all)
  with st run show ?thesis
    by (simp add: qudo_pqc_mlkem_pct_def qudo_pqc_is_self_testing_def qudo_st_begin_def qudo_st_end_def Let_def)
qed

lemma keypair_from_seed_run:
  assumes "kem_open E k s" "fips_module E" "kem_wf k" "no_events s"
    and "env_malloc E (os_calls s) (length_ciphertext k)" and run: "g_module_state s = ST_RUNNING"
    and gen: "mlk_keypair_derand (native E) (security_level k) seed = (0, pk, sk)"
  shows "wp (QUDO_KEM_keypair_from_seed E (Some k) False False (Some seed)) (\<lambda>r t.
     r = (if kem_consistent E (security_level k) pk sk then (0, Some (pk, sk)) else (-9, Some (zero_keys k)))
     \<and> g_module_state t = (if kem_consistent E (security_level k) pk sk \<or> g_conditional_error_check s = 0
                           then ST_RUNNING else ST_ERROR)) s"
proof -
  have wf: "known_level (security_level k)" "decaps_fn k = security_level k" "length_ciphertext k \<noteq> 0"
    using assms(3) by (auto simp: kem_wf_def known_level_def get_ciphertext_size_def)
  note pct = pct_run [OF assms(1,2) wf(1,2) assms(4) wf(3) assms(5) run, of pk sk]
  have calm: "calm s (qudo_audit_log a b c d (tick s))" for a b c d
    by (rule calm_trans [OF tick_calm audit_log_calm])
  then have c: "g_conditional_error_check (qudo_audit_log a b c d (tick s)) = g_conditional_error_check s"
    "g_module_state (qudo_audit_log a b c d (tick s)) = ST_RUNNING" for a b c d
    using run by (auto simp: calm_def svc_def config_of_def)
  show ?thesis
    unfolding wp_def QUDO_KEM_keypair_from_seed_def service_open [OF assms(1,2)]
    using assms(2) wf(1) run calm_state [OF tick_calm, of s]
    by (simp add: qudo_mlkem_keypair_from_seed_def gen kem_rc_def pct_passes_def qudo_pqc_is_self_testing_def pct
        set_error_state_state c)
qed

section \<open>The exchange\<close>

definition mlk_pair_ok :: "mlk_native \<Rightarrow> QUDO_KEM_security_level_t \<Rightarrow> bytes \<Rightarrow> bytes \<Rightarrow> bool" where
  "mlk_pair_ok N level pk sk \<longleftrightarrow>
     (\<forall>m. case mlk_enc_derand N level pk m of
            (rc, None) \<Rightarrow> rc \<noteq> 0
          | (rc, Some (ct, ss)) \<Rightarrow> rc = 0 \<longrightarrow> mlk_dec N level ct sk = (0, Some ss))"

lemma wp_any: "(\<And>r t. Q r t) \<Longrightarrow> wp m Q s"
  by (simp add: wp_def split: prod.split)

lemma wp_skip: "(\<And>r t. wp (f r) Q t) \<Longrightarrow> wp (State_Monad.bind m f) Q s"
  by (simp add: wp_any)

lemma encaps_run_ok:
  assumes "mlk_pair_ok (native E) level pk sk"
  shows "wp (qudo_mlkem_encaps E level pk) (\<lambda>r t. fst r = 0 \<longrightarrow> (\<exists>ct ss. snd r = Some (ct, ss) \<and> mlk_dec (native E) level ct sk = (0, Some ss))) s"
  unfolding qudo_mlkem_encaps_def mlk_kem_enc_def wp_bind
  apply (rule wp_any)
  subgoal for r t
    using spec [OF assms [unfolded mlk_pair_ok_def], of "snd r"] by (auto split: prod.splits option.splits)
  done

section \<open>Sizes of the results\<close>

definition mlk_typed :: "mlk_native \<Rightarrow> QUDO_KEM_security_level_t \<Rightarrow> bool" where
  "mlk_typed N level \<longleftrightarrow>
     (\<forall>seed rc pk sk. mlk_keypair_derand N level seed = (rc, pk, sk) \<longrightarrow>
        length pk = get_public_key_size level \<and> length sk = get_secret_key_size level)
   \<and> (\<forall>pk m rc ct ss. mlk_enc_derand N level pk m = (rc, Some (ct, ss)) \<longrightarrow>
        length ct = get_ciphertext_size level \<and> length ss = 32)
   \<and> (\<forall>ct sk rc ss. mlk_dec N level ct sk = (rc, Some ss) \<longrightarrow> length ss = 32)"

primrec kem_sizes :: "QUDO_KEM_security_level_t \<Rightarrow> kem_call \<Rightarrow> nat list" where
  "kem_sizes l (Kem_keypair _ _) = [get_public_key_size l, get_secret_key_size l]"
| "kem_sizes l (Kem_keypair_derand _ _ _) = [get_public_key_size l, get_secret_key_size l]"
| "kem_sizes l (Kem_keypair_from_seed _ _ _) = [get_public_key_size l, get_secret_key_size l]"
| "kem_sizes l (Kem_encaps _ _ _) = [get_ciphertext_size l, 32]"
| "kem_sizes l (Kem_encaps_derand _ _ _ _) = [get_ciphertext_size l, 32]"
| "kem_sizes l (Kem_decaps _ _ _) = [32]"

lemma service_any:
  "(\<And>t. wp body Q t) \<Longrightarrow> (\<And>t. Q (-1, None) t) \<Longrightarrow> wp (kem_service E kem body) Q s"
  unfolding kem_service_def wp_bind wp_if wp_ret
  by (rule wp_any, cases "run_state (QUDO_FIPS_GATE E) s") (auto intro!: wp_any)

lemma kem_run_sizes:
  assumes wf: "kem_wf k" and ty: "mlk_typed (native E) (security_level k)"
  shows "wp (kem_run E (Some k) c) (\<lambda>r t. snd r \<noteq> [] \<longrightarrow> map length (take 2 (snd r)) = kem_sizes (security_level k) c) s"
proof -
  let ?l = "security_level k"
  have fn: "keypair_fn k = ?l" "encaps_fn k = ?l" "decaps_fn k = ?l"
    and z: "zero_keys k = (replicate (get_public_key_size ?l) 0, replicate (get_secret_key_size ?l) 0)"
    using wf by (auto simp: kem_wf_def zero_keys_def)
  have t1: "length pk = get_public_key_size ?l \<and> length sk = get_secret_key_size ?l"
    if "mlk_keypair_derand (native E) ?l seed = (rc, pk, sk)" for seed rc pk sk
    using ty that unfolding mlk_typed_def by blast
  have t2: "length ct = get_ciphertext_size ?l \<and> length ss = 32"
    if "mlk_enc_derand (native E) ?l pk m = (rc, Some (ct, ss))" for pk m rc ct ss
    using ty that unfolding mlk_typed_def by blast
  have t2': "length ct = get_ciphertext_size ?l \<and> length ss = 32"
    if "snd (mlk_enc_derand (native E) ?l pk m) = Some (ct, ss)" for pk m ct ss
    using t2 [of pk m _ ct ss] that by (cases "mlk_enc_derand (native E) ?l pk m") simp
  have t3: "length ss = 32" if "mlk_dec (native E) ?l ct sk = (rc, Some ss)" for ct sk rc ss
    using ty that unfolding mlk_typed_def by blast
  let ?K = "\<lambda>keys. length (fst keys) = get_public_key_size ?l \<and> length (snd keys) = get_secret_key_size ?l"
  have kp: "wp (qudo_mlkem_keypair E ?l) (\<lambda>r t. \<forall>keys. snd r = Some keys \<longrightarrow> ?K keys) t" for t :: "'b kem_st_scheme"
    unfolding qudo_mlkem_keypair_def mlk_kem_keypair_def wp_bind
    by (rule wp_any) (auto split: prod.split dest: t1)
  have kd: "wp (qudo_mlkem_keypair_derand E ?l) (\<lambda>r t. \<forall>keys sd. snd r = Some (keys, sd) \<longrightarrow> ?K keys) t" for t :: "'b kem_st_scheme"
    unfolding qudo_mlkem_keypair_derand_def wp_bind
    by (rule wp_any) (auto split: prod.split dest: t1)
  have ks: "\<forall>keys. snd (qudo_mlkem_keypair_from_seed E ?l sd) = Some keys \<longrightarrow> ?K keys" for sd
    by (auto simp: qudo_mlkem_keypair_from_seed_def split: prod.split dest: t1)
  have en: "wp (qudo_mlkem_encaps E ?l pk) (\<lambda>r t. \<forall>o'. snd r = Some o' \<longrightarrow> length (fst o') = get_ciphertext_size ?l \<and> length (snd o') = 32) t"
    for t :: "'b kem_st_scheme" and pk
    unfolding qudo_mlkem_encaps_def mlk_kem_enc_def wp_bind
    by (rule wp_any) (auto split: prod.split dest: t2')
  show ?thesis
  proof (cases c)
    case (Kem_keypair pn sn)
    show ?thesis
      unfolding Kem_keypair kem_run.simps wp_written QUDO_KEM_keypair_def
      apply (rule service_any)
       apply (simp add: fn)
       apply (intro impI, rule wp_use [OF kp])
      subgoal for t r u by (cases "snd r"; cases r) (auto simp: z simp del: wp_bind intro!: wp_skip)
      by simp
  next
    case (Kem_keypair_derand pn sn so)
    show ?thesis
      unfolding Kem_keypair_derand kem_run.simps wp_written QUDO_KEM_keypair_derand_def
      apply (rule service_any)
       apply (simp split del: option.split)
       apply (intro impI, rule wp_use [OF kd])
      subgoal for t r u by (cases "snd r"; cases r) (auto simp: z Let_def simp del: wp_bind split: option.split intro!: wp_skip)
      by simp
  next
    case (Kem_keypair_from_seed pn sn sd)
    show ?thesis
      unfolding Kem_keypair_from_seed kem_run.simps wp_written QUDO_KEM_keypair_from_seed_def
      apply (rule service_any)
      using ks [of "the sd"]
      by (auto simp: fn z simp del: wp_bind split: option.split prod.split intro!: wp_skip)
  next
    case (Kem_encaps cn sn pk)
    show ?thesis
      unfolding Kem_encaps kem_run.simps wp_written QUDO_KEM_encaps_def
      by (rule service_any)
        (auto simp: fn split: option.split option.split_asm intro!: wp_use [OF en])
  next
    case (Kem_encaps_derand cn sn pk m)
    show ?thesis
      unfolding Kem_encaps_derand kem_run.simps wp_written QUDO_KEM_encaps_derand_def
      by (rule service_any)
        (auto simp: qudo_mlkem_encaps_derand_def split: option.split prod.split dest: t2)
  next
    case (Kem_decaps sn ct sk)
    show ?thesis
      unfolding Kem_decaps kem_run.simps wp_written QUDO_KEM_decaps_def
      by (rule service_any)
        (auto simp: fn qudo_mlkem_decaps_def split: option.split prod.split dest: t3)
  qed
qed


text \<open>
  When the pairwise test fails after a generation that reports its seed, the keys are zeroed but the
  seed they were made from stays in the caller's buffer.
\<close>

lemma keypair_derand_leaves_seed:
  assumes "kem_open E k s" "fips_module E" "kem_wf k" "no_events s" "\<And>n z. env_malloc E n z"
    and run: "g_module_state s = ST_RUNNING" and inv: "rand_inv E s"
    and rnd: "run_state (QUDO_KEM_randombytes E False 64) s = ((0, seed), u)"
    and gen: "mlk_keypair_derand (native E) (security_level k) seed = (0, pk, sk)"
    and bad: "\<not> kem_consistent E (security_level k) pk sk"
  shows "fst (run_state (QUDO_KEM_keypair_derand E (Some k) False False (Some 64)) s)
     = (QUDO_KEM_ERROR_CRYPTO, Some (zero_keys k, Some seed))"
proof -
  have wf: "known_level (security_level k)" "decaps_fn k = security_level k" "length_ciphertext k \<noteq> 0"
    using assms(3) by (auto simp: kem_wf_def known_level_def get_ciphertext_size_def)
  have lock: "lock_ok s" using assms(4) by (auto simp: no_events_def lock_ok_def)
  have u: "steady E s u" using wpD [OF randombytes_spec [OF inv lock] rnd] by simp
  then have "kem_open E k u" "no_events u" "g_module_state u = ST_RUNNING"
    using assms(1,4) run
    by (auto simp: kem_open_def no_events_def steady_def served_def svc_def config_of_def rand_rest_def)
  then have "run_state (qudo_pqc_mlkem_pct E (Some k) (Some pk) (Some sk) False) u =
      (False, qudo_audit_log QUDO_SEV_ERROR QUDO_ERR_PCT_ENCAPS_FAIL ''PCT'' ''ML-KEM PCT failed'' (tick u))"
    using pct_run [of E k u pk sk] assms(2,5) wf bad by simp
  with \<open>g_module_state u = ST_RUNNING\<close> show ?thesis
    unfolding QUDO_KEM_keypair_derand_def service_open [OF assms(1,2)]
    using assms(2) wf(1)
    by (simp add: qudo_mlkem_keypair_derand_def rnd gen kem_rc_def pct_passes_def qudo_pqc_is_self_testing_def Let_def)
qed

text \<open>
  While the module is in its self-test state, which the constructor of the library sets, the guards are
  open as soon as the generator is seeded, and a key pair is returned without the pairwise test.
\<close>

lemma selftest_keypair_untested:
  assumes "kem_open E k s" "fips_module E" "known_level (security_level k)" "g_module_state s = ST_SELFTEST"
    and "mlk_keypair_derand (native E) (security_level k) seed = (0, pk, sk)"
  shows "fst (run_state (QUDO_KEM_keypair_from_seed E (Some k) False False (Some seed)) s) = (QUDO_KEM_SUCCESS, Some (pk, sk))"
  unfolding QUDO_KEM_keypair_from_seed_def service_open [OF assms(1,2)]
  using assms(2-)
  by (simp add: qudo_mlkem_keypair_from_seed_def kem_rc_def pct_passes_def qudo_pqc_is_self_testing_def)

text \<open>Concrete instances: a backend that carries the message in the ciphertext, and two states.\<close>

definition echo_native :: mlk_native where
  "echo_native = \<lparr>mlk_keypair_derand = \<lambda>l seed. (0, replicate (get_public_key_size l) 1, replicate (get_secret_key_size l) 2),
     mlk_enc_derand = \<lambda>l pk m. (0, Some (take (get_ciphertext_size l) (m @ replicate 1568 0), take 32 (m @ replicate 1568 0))),
     mlk_dec = \<lambda>l ct sk. (0, Some (take 32 (ct @ replicate 32 0))),
     mlk_check_pk = \<lambda>_ _. 0, mlk_check_sk = \<lambda>_ _. 0\<rparr>"

definition kem_good_env :: kem_env where
  "kem_good_env = env.extend good_env (kem_env.fields False False False 0 0 0 0 False (\<lambda>_. echo_native) Combined_build)"

definition kem_up :: "mstate \<Rightarrow> bool \<Rightarrow> qudo_ctrdrbg_ctx_t \<Rightarrow> kem_st" where
  "kem_up m ready d = rand_st.extend (rand_running d\<lparr>g_module_state := m, g_fips_rand_ready := ready\<rparr>) (kem_st.fields 2 RwFree)"

lemma kem_up_simps [simp]:
  "g_module_state (kem_up m r d) = m" "g_fips_rand_ready (kem_up m r d) = r" "g_fips_drbg (kem_up m r d) = d"
  "g_self_test_lock (kem_up m r d) = RwNull" "g_min_security_level (kem_up m r d) = 1" "kem_inv (kem_up m r d)"
  "g_mlkem_init_state (kem_up m r d) = 2" "g_conditional_error_check (kem_up m r d) = 1"
  "g_fips_rand_gen_count (kem_up m r d) = 0" "\<not> g_health_failed (kem_up m r d)" "g_host_rand_provider (kem_up m r d) = None"
  "mod_inv (kem_up m r d)" "(r \<Longrightarrow> drbg_ready E d) \<Longrightarrow> rand_inv E (kem_up m r d)"
  by (simp_all add: kem_up_def rand_st.extend_def kem_st.fields_def rand_running_def rand_started_def mod_st.extend_def
      rand_st.fields_def mod_started_def kem_inv_def rand_inv_def mod_inv_def audit_inv_def notices_def All_less_Suc eval_nat_numeral)

lemma kem_good_env_simps [simp]:
  "fips_module kem_good_env" "env_malloc kem_good_env n z" "native kem_good_env = echo_native"
  "\<not> use_host_drbg kem_good_env" "kem_rand_build kem_good_env = Combined_build"
  by (simp_all add: kem_good_env_def env.extend_def kem_env.fields_def good_env_def)

lemma kem_up_states [simp]:
  "lock_ok (kem_up m r d)" "no_events (kem_up m r d)"
  "kem_open E mlkem_768_kem (kem_up m r d) \<longleftrightarrow> (m = ST_RUNNING \<or> m = ST_SELFTEST) \<and> r"
proof -
  show "lock_ok (kem_up m r d)" "no_events (kem_up m r d)" by (simp_all add: lock_ok_def no_events_def)
  have "qudo_pqc_get_security_level (Some (algorithm_name mlkem_768_kem)) = 3" by code_simp
  then show "kem_open E mlkem_768_kem (kem_up m r d) \<longleftrightarrow> (m = ST_RUNNING \<or> m = ST_SELFTEST) \<and> r"
    by (auto simp: kem_open_def)
qed

lemma echo_pair_ok: "known_level l \<Longrightarrow> mlk_pair_ok echo_native l pk sk"
  by (auto simp: mlk_pair_ok_def echo_native_def known_level_def get_ciphertext_size_def)

lemma echo_typed: "known_level l \<Longrightarrow> mlk_typed echo_native l"
  by (auto simp: mlk_typed_def echo_native_def known_level_def get_ciphertext_size_def)

lemma level_768: "security_level mlkem_768_kem = 3" "length_ciphertext mlkem_768_kem = 1088" "known_level 3"
  by (simp_all add: mlkem_768_kem_def known_level_def)

section \<open>Properties\<close>



text \<open>
  C31: Every service on an ML-KEM object, whatever its arguments and its outcome, keeps the invariants of the
  module and of its generator, the configuration and the locks; the module moves at most into the error
  state, and not when the service succeeds.
\<close>

theorem kem_services_keep:
  assumes "rand_inv E s" "mod_inv s" "idle (g_self_test_lock s)" "run_state (kem_run E kem c) s = (r, t)"
  shows "rand_inv E t \<and> mod_inv t \<and> config_of t = config_of s \<and> g_self_test_lock t = g_self_test_lock s
     \<and> g_fips_rand_ready t = g_fips_rand_ready s
     \<and> (g_module_state t = g_module_state s \<or> fst r \<noteq> QUDO_KEM_SUCCESS \<and> g_module_state t = ST_ERROR)"
proof -
  have "served E s t \<and> (fst r = 0 \<longrightarrow> steady E s t)"
    by (rule wpD [OF kem_run_keeps assms(4)]) (use assms in \<open>simp_all add: post_lock_def\<close>)
  with assms(1,2) show ?thesis by (auto simp: served_def steady_def svc_def rand_rest_def)
qed

theorem kem_services_keep_witness:
  "rand_inv kem_good_env (snd (run_state (kem_run kem_good_env None (Kem_decaps False None None)) (kem_up ST_RUNNING False drbg_cleared)))"
proof -
  obtain r t where e: "run_state (kem_run kem_good_env None (Kem_decaps False None None)) (kem_up ST_RUNNING False drbg_cleared) = (r, t)"
    by (rule prod.exhaust)
  then show ?thesis using kem_services_keep [OF _ _ _ e] by simp
qed







text \<open>
  An object the constructor returns is well formed: its sizes and functions are those of its security
  level, its name is the one asked for up to case, and the wrapper is initialised.
\<close>

theorem kem_new_wf:
  assumes "rand_inv E s" "kem_inv s" "lock_ok s" "run_state (QUDO_KEM_new E name) s = (Some k, t)"
  shows "kem_wf k \<and> (\<exists>n. name = Some n \<and> strcasecmp_eq n (algorithm_name k)) \<and> QUDO_KEM_is_initialized t \<and> kem_inv t
     \<and> (fips_module E \<longrightarrow> g_module_state s = ST_RUNNING \<or> g_module_state s = ST_SELFTEST)"
proof -
  let ?T = "case name of None \<Rightarrow> None | Some n \<Rightarrow> kem_template n"
  have wf: "kem_wf k" if "?T = Some k" for k
    using that kem_template_wf by (auto split: option.splits)
  have "run_state (kem_constructor E ?T) s = (Some k, t)"
    using assms(4) by (simp add: kem_new_constructor)
  from wpD [OF kem_constructor_spec [OF assms(1-3) wf] this] kem_template_wf show ?thesis
    by (auto simp: init_keeps_def QUDO_KEM_is_initialized_def split: option.splits)
qed

theorem kem_new_wf_witness:
  "\<exists>k. fst (run_state (QUDO_KEM_new kem_good_env (Some ''ml-kem-768'')) (kem_up ST_RUNNING False drbg_cleared)) = Some k \<and> kem_wf k"
proof -
  let ?s = "kem_up ST_RUNNING False drbg_cleared"
  have t: "kem_template ''ml-kem-768'' = Some mlkem_768_kem" by code_simp
  obtain k t where e: "run_state (QUDO_KEM_new kem_good_env (Some ''ml-kem-768'')) ?s = (Some k, t)"
    by (simp add: QUDO_KEM_new_def QUDO_FIPS_GATE_def qudo_pqc_is_running_or_selftest_def t kem_alloc_def qudo_malloc_def sizeof_QUDO_KEM_def)
  with kem_new_wf [OF _ _ _ e] show ?thesis by simp
qed

end
