(* ===== verification/Interop.thy ===== *)
theory Interop
  imports Prelude "HOL-Library.Monad_Syntax" "HOL-Library.Sublist"
begin

text \<open>
  Key formats of ML-KEM (\<open>src/qudo-pqc-lib/qudo-mlkem/src/mlkem_interop.c\<close>): base64, the length
  octets of DER, the SubjectPublicKeyInfo structure and its PEM armour.

  A pointer that runs through a buffer is the rest of the buffer behind it.  An export into a buffer
  of the caller takes the capacity of the buffer and returns the status, what was written, if
  anything, and the value left in the length.  The status codes are those of \<open>QUDO_KEM_status_t\<close>: 0 for
  success, -2 for an invalid argument, -3 for a NULL pointer, -7 for a failed decoding and -13 for a
  buffer that is too small.
\<close>

section \<open>Base64\<close>

definition mlkem_b64_alphabet :: string where
  "mlkem_b64_alphabet = ''ABCDEFGHIJKLMNOPQRSTUVWXYZabcdefghijklmnopqrstuvwxyz0123456789+/''"

definition mlkem_b64_decode_char :: "char \<Rightarrow> int" where
  "mlkem_b64_decode_char c =
     (let x = int (of_char c)
      in if 65 \<le> x \<and> x \<le> 90 then x - 65
         else if 97 \<le> x \<and> x \<le> 122 then x - 97 + 26
         else if 48 \<le> x \<and> x \<le> 57 then x - 48 + 52
         else if c = CHR ''+'' then 62
         else if c = CHR ''/'' then 63
         else -1)"

abbreviation (input) MLKEM_PEM_LINE :: nat where "MLKEM_PEM_LINE \<equiv> 64"

definition mlkem_b64_encoded_len :: "nat \<Rightarrow> nat" where
  "mlkem_b64_encoded_len bin_len =
     (let groups = (bin_len + 2) div 3;
          b64 = groups * 4;
          lines = (b64 + MLKEM_PEM_LINE - 1) div MLKEM_PEM_LINE
      in b64 + lines)"

definition b64_char :: "u32 \<Rightarrow> nat \<Rightarrow> char" where
  "b64_char v n = mlkem_b64_alphabet ! unat (drop_bit n v AND 0x3F)"

text \<open>\<open>((uint32_t)a << 16) | ((uint32_t)b << 8) | c\<close>\<close>

definition b64_word :: "u8 \<Rightarrow> u8 \<Rightarrow> u8 \<Rightarrow> u32" where
  "b64_word a b c = push_bit 16 (ucast a) OR push_bit 8 (ucast b) OR ucast c"

fun mlkem_b64_encode_wrapped :: "bytes \<Rightarrow> nat \<Rightarrow> string" where
  "mlkem_b64_encode_wrapped (a # b # c # rest) col =
     (let v = b64_word a b c;
          quad = [b64_char v 18, b64_char v 12, b64_char v 6, b64_char v 0];
          col = col + 4
      in if col \<ge> MLKEM_PEM_LINE then quad @ CHR 0x0A # mlkem_b64_encode_wrapped rest 0
         else quad @ mlkem_b64_encode_wrapped rest col)"
| "mlkem_b64_encode_wrapped [a, b] col =
     (let v = b64_word a b 0 in [b64_char v 18, b64_char v 12, b64_char v 6, CHR ''='', CHR 0x0A])"
| "mlkem_b64_encode_wrapped [a] col =
     (let v = b64_word a 0 0 in [b64_char v 18, b64_char v 12, CHR ''='', CHR ''='', CHR 0x0A])"
| "mlkem_b64_encode_wrapped [] col = (if col \<noteq> 0 then [CHR 0x0A] else [])"

text \<open>The loop of the decoder, over the rest of the input; \<open>out\<close> is what has been written.\<close>

fun b64_decode_loop :: "nat \<Rightarrow> string \<Rightarrow> bytes \<Rightarrow> u32 \<Rightarrow> nat \<Rightarrow> nat \<Rightarrow> bytes option" where
  "b64_decode_loop cap [] out buf buf_bits pad = Some out"
| "b64_decode_loop cap (c # cs) out buf buf_bits pad =
     (if c = CHR 0x0D \<or> c = CHR 0x0A \<or> c = CHR '' '' \<or> c = CHR 0x09 then b64_decode_loop cap cs out buf buf_bits pad
      else if c = CHR ''='' then b64_decode_loop cap cs out buf buf_bits (pad + 1)
      else if pad \<noteq> 0 then None
      else let v = mlkem_b64_decode_char c
           in if v < 0 then None
              else let buf = push_bit 6 buf OR of_int v; buf_bits = buf_bits + 6
                   in if buf_bits \<ge> 8
                      then let buf_bits = buf_bits - 8
                           in if length out \<ge> cap then None
                              else b64_decode_loop cap cs (out @ [ucast (drop_bit buf_bits buf AND 0xFF)])
                                     (buf AND (push_bit buf_bits 1 - 1)) buf_bits pad
                      else b64_decode_loop cap cs out buf buf_bits pad)"

definition mlkem_b64_decode :: "string \<Rightarrow> nat \<Rightarrow> bytes option" where
  "mlkem_b64_decode inp cap = b64_decode_loop cap inp [] 0 0 0"

section \<open>DER\<close>

definition OID_ML_KEM_512 :: bytes where "OID_ML_KEM_512 = [0x60, 0x86, 0x48, 0x01, 0x65, 0x03, 0x04, 0x04, 0x01]"
definition OID_ML_KEM_768 :: bytes where "OID_ML_KEM_768 = [0x60, 0x86, 0x48, 0x01, 0x65, 0x03, 0x04, 0x04, 0x02]"
definition OID_ML_KEM_1024 :: bytes where "OID_ML_KEM_1024 = [0x60, 0x86, 0x48, 0x01, 0x65, 0x03, 0x04, 0x04, 0x03]"

definition get_oid_for_key_size :: "nat \<Rightarrow> bytes option" where
  "get_oid_for_key_size key_len =
     (if key_len = 800 then Some OID_ML_KEM_512
      else if key_len = 1184 then Some OID_ML_KEM_768
      else if key_len = 1568 then Some OID_ML_KEM_1024
      else None)"

definition asn1_encode_length :: "nat \<Rightarrow> bytes" where
  "asn1_encode_length len =
     (if len < 128 then [of_nat len]
      else if len \<le> 0xFF then [0x81, of_nat len]
      else if len \<le> 0xFFFF then [0x82, of_nat (drop_bit 8 len), of_nat (len AND 0xFF)]
      else [0x83, of_nat (drop_bit 16 len), of_nat (drop_bit 8 len AND 0xFF), of_nat (len AND 0xFF)])"

fun asn1_decode_length :: "bytes \<Rightarrow> (nat \<times> bytes) option" where
  "asn1_decode_length [] = None"
| "asn1_decode_length (first # p) =
     (if first < 128 then Some (unat first, p)
      else let num_bytes = unat (first AND 0x7F)
           in if num_bytes = 0 \<or> num_bytes > 4 \<or> num_bytes > length p then None
              else Some (foldl (\<lambda>l b. push_bit 8 l OR unat b) 0 (take num_bytes p), drop num_bytes p))"

definition QUDO_KEM_export_public_key_der ::
  "bytes option \<Rightarrow> nat option \<Rightarrow> int \<times> bytes option \<times> nat option" where
  "QUDO_KEM_export_public_key_der public_key der_len =
     (case (public_key, der_len) of
        (Some pk, Some cap) \<Rightarrow>
          (case get_oid_for_key_size (length pk) of
             None \<Rightarrow> (-2, None, Some cap)
           | Some oid \<Rightarrow>
               let alg_id_content_len = 2 + length oid;
                   alg_id_total = 1 + length (asn1_encode_length alg_id_content_len) + alg_id_content_len;
                   bit_string_content_len = 1 + length pk;
                   bit_string_total = 1 + length (asn1_encode_length bit_string_content_len) + bit_string_content_len;
                   spki_content_len = alg_id_total + bit_string_total;
                   total_len = 1 + length (asn1_encode_length spki_content_len) + spki_content_len
               in if total_len > cap then (-13, None, Some total_len)
                  else let der = [0x30] @ asn1_encode_length spki_content_len
                             @ [0x30] @ asn1_encode_length alg_id_content_len
                             @ [0x06, of_nat (length oid)] @ oid
                             @ [0x03] @ asn1_encode_length bit_string_content_len
                             @ [0x00] @ pk
                       in (0, Some der, Some (length der)))
      | _ \<Rightarrow> (-3, None, der_len))"

text \<open>\<open>p >= end || *p++ != tag\<close>\<close>

fun expect :: "u8 \<Rightarrow> bytes \<Rightarrow> bytes option" where
  "expect tag [] = None"
| "expect tag (b # p) = (if b = tag then Some p else None)"

definition spki_oid :: "bytes \<Rightarrow> bytes option" where
  "spki_oid p =
     (case p of [] \<Rightarrow> None
      | b # p \<Rightarrow>
        let oid_len = unat b
        in if oid_len > length p then None
           else let oid = take oid_len p
                in if oid = OID_ML_KEM_512 \<or> oid = OID_ML_KEM_768 \<or> oid = OID_ML_KEM_1024
                   then Some (drop oid_len p) else None)"

definition spki_null :: "bytes \<Rightarrow> bytes option" where
  "spki_null p = (case p of b # q \<Rightarrow> if b = 0x05 then expect 0x00 q else Some p | [] \<Rightarrow> Some p)"

text \<open>What the import parses before it looks at the output buffer: the length of the key and its bytes.\<close>

definition spki_parse :: "bytes \<Rightarrow> (nat \<times> bytes) option" where
  "spki_parse der =
     (if length der < 10 then None
      else do {
        p \<leftarrow> expect 0x30 der;
        (_, p) \<leftarrow> asn1_decode_length p;
        p \<leftarrow> expect 0x30 p;
        (_, p) \<leftarrow> asn1_decode_length p;
        p \<leftarrow> expect 0x06 p;
        p \<leftarrow> spki_oid p;
        p \<leftarrow> spki_null p;
        p \<leftarrow> expect 0x03 p;
        (len, p) \<leftarrow> asn1_decode_length p;
        if len = 0 then None
        else do {
          p \<leftarrow> expect 0x00 p;
          (let len = len - 1
           in if len \<noteq> 800 \<and> len \<noteq> 1184 \<and> len \<noteq> 1568 then None
              else if len > length p then None
              else Some (len, p))
        }
      })"

definition QUDO_KEM_import_public_key_der ::
  "bytes option \<Rightarrow> bool \<Rightarrow> nat option \<Rightarrow> int \<times> bytes option \<times> nat option" where
  "QUDO_KEM_import_public_key_der der_buffer pk_null public_key_len =
     (case (der_buffer, public_key_len) of
        (Some der, Some cap) \<Rightarrow>
          if pk_null then (-3, None, Some cap)
          else (case spki_parse der of
                  None \<Rightarrow> (-7, None, Some cap)
                | Some (len, p) \<Rightarrow>
                    if len > cap then (-13, None, Some len) else (0, Some (take len p), Some len))
      | _ \<Rightarrow> (-3, None, public_key_len))"

section \<open>PEM\<close>

definition pem_hdr :: string where "pem_hdr = ''-----BEGIN PUBLIC KEY-----'' @ [CHR 0x0A]"
definition pem_ftr :: string where "pem_ftr = ''-----END PUBLIC KEY-----'' @ [CHR 0x0A]"
definition start_marker :: string where "start_marker = ''-----BEGIN PUBLIC KEY-----''"
definition end_marker :: string where "end_marker = ''-----END PUBLIC KEY-----''"

definition QUDO_KEM_export_public_key_pem ::
  "bytes option \<Rightarrow> bool \<Rightarrow> nat option \<Rightarrow> int \<times> string option \<times> nat option" where
  "QUDO_KEM_export_public_key_pem public_key pem_null pem_len =
     (case (public_key, pem_len) of
        (Some pk, Some cap) \<Rightarrow>
          (case QUDO_KEM_export_public_key_der (Some pk) (Some 4096) of
             (status, Some der, _) \<Rightarrow>
               let need = length pem_hdr + mlkem_b64_encoded_len (length der) + length pem_ftr + 1
               in if pem_null then (0, None, Some need)
                  else if cap < need then (-13, None, Some need)
                  else let pem = pem_hdr @ mlkem_b64_encode_wrapped der 0 @ pem_ftr
                       in (0, Some pem, Some (length pem))
           | (status, None, _) \<Rightarrow> (status, None, Some cap))
      | _ \<Rightarrow> (-3, None, pem_len))"

text \<open>\<open>strstr\<close>: the position of the first occurrence.\<close>

fun strstr :: "string \<Rightarrow> string \<Rightarrow> nat option" where
  "strstr needle [] = (if needle = [] then Some 0 else None)"
| "strstr needle (c # cs) =
     (if take (length needle) (c # cs) = needle then Some 0 else map_option Suc (strstr needle cs))"

definition QUDO_KEM_import_public_key_pem ::
  "string option \<Rightarrow> bool \<Rightarrow> nat option \<Rightarrow> int \<times> bytes option \<times> nat option" where
  "QUDO_KEM_import_public_key_pem pem_buffer pk_null public_key_len =
     (case (pem_buffer, public_key_len) of
        (Some pem, Some cap) \<Rightarrow>
          (case (strstr start_marker pem, strstr end_marker pem) of
             (Some start_pos, Some end_pos) \<Rightarrow>
               if start_pos \<ge> end_pos then (-7, None, Some cap)
               else let start_pos = start_pos + length start_marker
                    in (case mlkem_b64_decode (take (end_pos - start_pos) (drop start_pos pem)) 4096 of
                          None \<Rightarrow> (-7, None, Some cap)
                        | Some der \<Rightarrow> QUDO_KEM_import_public_key_der (Some der) pk_null (Some cap))
           | _ \<Rightarrow> (-7, None, Some cap))
      | _ \<Rightarrow> (-3, None, public_key_len))"

section \<open>Base64 decodes what it encodes\<close>

lemma alphabet_ok:
  assumes "k < 64"
  shows "mlkem_b64_decode_char (mlkem_b64_alphabet ! k) = int k"
    and "mlkem_b64_alphabet ! k \<notin> {CHR 0x0D, CHR 0x0A, CHR '' '', CHR 0x09, CHR ''='', CHR ''-''}"
proof -
  have dec: "map mlkem_b64_decode_char mlkem_b64_alphabet = [0..63]"
    by (simp add: mlkem_b64_alphabet_def mlkem_b64_decode_char_def upto.simps)
  have set: "\<forall>c\<in>set mlkem_b64_alphabet. c \<notin> {CHR 0x0D, CHR 0x0A, CHR '' '', CHR 0x09, CHR ''='', CHR ''-''}"
    by (simp add: mlkem_b64_alphabet_def)
  have len: "length mlkem_b64_alphabet = 64" by (simp add: mlkem_b64_alphabet_def)
  have "mlkem_b64_decode_char (mlkem_b64_alphabet ! k) = map mlkem_b64_decode_char mlkem_b64_alphabet ! k"
    using assms len by simp
  also have "\<dots> = int k" unfolding dec using assms by simp
  finally show "mlkem_b64_decode_char (mlkem_b64_alphabet ! k) = int k" .
  show "mlkem_b64_alphabet ! k \<notin> {CHR 0x0D, CHR 0x0A, CHR '' '', CHR 0x09, CHR ''='', CHR ''-''}"
    by (rule bspec [OF set nth_mem]) (simp add: assms len)
qed

lemma six_bits: "unat ((w::u32) AND 0x3F) < 64"
proof -
  have "w AND 0x3F \<le> 0x3F" by (rule word_and_le1)
  then show ?thesis by (simp add: word_le_nat_alt)
qed

lemma b64_char_ok:
  "mlkem_b64_decode_char (b64_char v n) = uint (drop_bit n v AND 0x3F)"
  "b64_char v n \<notin> {CHR 0x0D, CHR 0x0A, CHR '' '', CHR 0x09, CHR ''='', CHR ''-''}"
  using alphabet_ok [OF six_bits [of "drop_bit n v"]] by (simp_all add: b64_char_def)

lemma b64_step:
  "b64_decode_loop cap (b64_char v n # cs) out buf bits 0 =
     (let buf = push_bit 6 buf OR (drop_bit n v AND 0x3F); bits = bits + 6
      in if bits \<ge> 8
         then let bits = bits - 8
              in if length out \<ge> cap then None
                 else b64_decode_loop cap cs (out @ [ucast (drop_bit bits buf AND 0xFF)])
                        (buf AND (push_bit bits 1 - 1)) bits 0
         else b64_decode_loop cap cs out buf bits 0)"
  using b64_char_ok [of v n] by (simp add: Let_def del: word_of_int_uint) 

lemma and_masks:
  "(w::u32) AND 0x3F = take_bit 6 w" "w AND 0xF = take_bit 4 w" "w AND 3 = take_bit 2 w" "w AND 0xFF = take_bit 8 w"
  by (simp_all add: take_bit_eq_mask mask_eq_exp_minus_1)

lemma b64_word_bits:
  "bit (b64_word a b c) n \<longleftrightarrow> n < 8 \<and> bit c n \<or> 8 \<le> n \<and> n < 16 \<and> bit b (n - 8) \<or> 16 \<le> n \<and> n < 24 \<and> bit a (n - 16)"
  using bit_imp_le_length [of a "n - 16"] bit_imp_le_length [of b "n - 8"] bit_imp_le_length [of c n]
  by (auto simp: b64_word_def bit_simps)

lemma b64_bytes:
  fixes a b c :: u8
  defines "v \<equiv> b64_word a b c"
  defines "w1 \<equiv> push_bit 6 (drop_bit 18 v AND 0x3F) OR (drop_bit 12 v AND 0x3F)"
  defines "w2 \<equiv> push_bit 6 (w1 AND 0xF) OR (drop_bit 6 v AND 0x3F)"
  defines "w3 \<equiv> push_bit 6 (w2 AND 3) OR (v AND 0x3F)"
  shows "ucast (drop_bit 4 w1 AND 0xFF) = a" "ucast (drop_bit 2 w2 AND 0xFF) = b" "ucast (w3 AND 0xFF) = c"
proof -
  have w1: "bit w1 n \<longleftrightarrow> n < 12 \<and> bit v (n + 12)" for n
    unfolding w1_def and_masks by (auto simp: bit_simps ac_simps)
  have w2: "bit w2 n \<longleftrightarrow> n < 10 \<and> bit v (n + 6)" for n
    unfolding w2_def and_masks by (auto simp: bit_simps w1 ac_simps)
  have w3: "bit w3 n \<longleftrightarrow> n < 8 \<and> bit v n" for n
    unfolding w3_def and_masks by (auto simp: bit_simps w2 ac_simps)
  show "ucast (drop_bit 4 w1 AND 0xFF) = a" unfolding and_masks
    by (rule bit_word_eqI) (auto simp: bit_simps w1 v_def b64_word_bits)
  show "ucast (drop_bit 2 w2 AND 0xFF) = b" unfolding and_masks
    by (rule bit_word_eqI) (auto simp: bit_simps w2 v_def b64_word_bits)
  show "ucast (w3 AND 0xFF) = c" unfolding and_masks
    by (rule bit_word_eqI) (auto simp: bit_simps w3 v_def b64_word_bits)
qed

lemma b64_steps:
  "b64_decode_loop cap (b64_char v n # cs) out 0 0 0 = b64_decode_loop cap cs out (drop_bit n v AND 0x3F) 6 0"
  "b64_decode_loop cap (b64_char v n # cs) out buf 6 0 =
     (if length out \<ge> cap then None else
        let w = push_bit 6 buf OR (drop_bit n v AND 0x3F)
        in b64_decode_loop cap cs (out @ [ucast (drop_bit 4 w AND 0xFF)]) (w AND 0xF) 4 0)"
  "b64_decode_loop cap (b64_char v n # cs) out buf 4 0 =
     (if length out \<ge> cap then None else
        let w = push_bit 6 buf OR (drop_bit n v AND 0x3F)
        in b64_decode_loop cap cs (out @ [ucast (drop_bit 2 w AND 0xFF)]) (w AND 3) 2 0)"
  "b64_decode_loop cap (b64_char v n # cs) out buf 2 0 =
     (if length out \<ge> cap then None else
        let w = push_bit 6 buf OR (drop_bit n v AND 0x3F)
        in b64_decode_loop cap cs (out @ [ucast (w AND 0xFF)]) 0 0 0)"
  by (subst b64_step, simp add: Let_def)+

lemma b64_quad:
  "b64_decode_loop cap (b64_char (b64_word a b c) 18 # b64_char (b64_word a b c) 12 # b64_char (b64_word a b c) 6
       # b64_char (b64_word a b c) 0 # cs) out 0 0 0 =
     (if length out + 3 \<le> cap then b64_decode_loop cap cs (out @ [a, b, c]) 0 0 0 else None)"
  unfolding b64_steps Let_def drop_bit_0 id_apply b64_bytes [of a b c] by simp

lemma b64_triple:
  "b64_decode_loop cap (b64_char (b64_word a b 0) 18 # b64_char (b64_word a b 0) 12 # b64_char (b64_word a b 0) 6
       # CHR ''='' # CHR 0x0A # []) out 0 0 0 = (if length out + 2 \<le> cap then Some (out @ [a, b]) else None)"
  unfolding b64_steps Let_def drop_bit_0 id_apply b64_bytes [of a b 0] by simp

lemma b64_pair:
  "b64_decode_loop cap (b64_char (b64_word a 0 0) 18 # b64_char (b64_word a 0 0) 12
       # CHR ''='' # CHR ''='' # CHR 0x0A # []) out 0 0 0 = (if length out + 1 \<le> cap then Some (out @ [a]) else None)"
  unfolding b64_steps Let_def drop_bit_0 id_apply b64_bytes [of a 0 0] by simp

lemma b64_ends:
  "b64_decode_loop cap (CHR 0x0A # cs) out buf bits pad = b64_decode_loop cap cs out buf bits pad"
  "b64_decode_loop cap [] out buf bits pad = Some out"
  by simp_all

lemma b64_loop_encode:
  "length out + length xs \<le> cap \<Longrightarrow> b64_decode_loop cap (mlkem_b64_encode_wrapped xs col) out 0 0 0 = Some (out @ xs)"
  by (induction xs col arbitrary: out rule: mlkem_b64_encode_wrapped.induct)
    (simp_all add: Let_def b64_quad b64_triple b64_pair b64_ends del: b64_decode_loop.simps)

lemma b64_last_line:
  assumes "(col::nat) < 64" "4 dvd col"
  shows "(67 + col) div 64 = 1"
proof -
  obtain k where "col = 4 * k" using assms by (elim dvdE)
  with assms show ?thesis by (intro div_nat_eqI) simp_all
qed

lemma b64_encode_length:
  "col < 64 \<Longrightarrow> 4 dvd col \<Longrightarrow> length (mlkem_b64_encode_wrapped xs col)
     = 4 * ((length xs + 2) div 3) + (col + 4 * ((length xs + 2) div 3) + 63) div 64"
proof (induction xs col rule: mlkem_b64_encode_wrapped.induct)
  case (1 a b c rest col)
  define g where "g = (length rest + 2) div 3"
  have g: "(length (a # b # c # rest) + 2) div 3 = g + 1" by (simp add: g_def)
  show ?case
  proof (cases "col + 4 \<ge> 64")
    case True
    with 1 have c: "col = 60" by (auto elim!: dvdE)
    have "length (mlkem_b64_encode_wrapped rest 0) = 4 * g + (4 * g + 63) div 64"
      unfolding g_def using 1(1) [OF refl refl refl True] by simp
    then show ?thesis unfolding g by (simp add: Let_def c)
  next
    case False
    have "length (mlkem_b64_encode_wrapped rest (col + 4)) = 4 * g + (col + 4 + 4 * g + 63) div 64"
      unfolding g_def using 1(2) [OF refl refl refl False] False 1(4) by simp
    with False show ?thesis unfolding g by (simp add: Let_def add.commute add.left_commute)
  qed
next
  case (2 a b col)
  then have "(67 + col) div 64 = 1" by (rule b64_last_line)
  then show ?case by (simp add: Let_def)
next
  case (3 a col)
  then have "(67 + col) div 64 = 1" by (rule b64_last_line)
  then show ?case by (simp add: Let_def)
qed auto

lemma b64_encode_no_dash: "CHR ''-'' \<notin> set (mlkem_b64_encode_wrapped xs col)"
proof -
  have nd: "CHR ''-'' \<noteq> b64_char v n" for v n using b64_char_ok(2) [of v n] by auto
  show ?thesis by (induction xs col rule: mlkem_b64_encode_wrapped.induct) (simp_all add: Let_def nd)
qed

section \<open>DER and PEM\<close>

lemma strstr_skip:
  "needle \<noteq> [] \<Longrightarrow> hd needle \<notin> set xs \<Longrightarrow> strstr needle (xs @ ys) = map_option ((+) (length xs)) (strstr needle ys)"
proof (induction xs)
  case Nil
  then show ?case by (cases "strstr needle ys") simp_all
next
  case (Cons x xs)
  then have "take (length needle) (x # xs @ ys) \<noteq> needle" by (cases needle) auto
  with Cons show ?case by (cases "strstr needle ys") auto
qed

definition pk_len :: "nat \<Rightarrow> bool" where
  "pk_len n \<longleftrightarrow> n = 800 \<or> n = 1184 \<or> n = 1568"

definition spki_prefix :: "nat \<Rightarrow> bytes" where
  "spki_prefix n =
     (if n = 800 then [0x30, 0x82, 0x03, 0x32, 0x30, 0x0b, 0x06, 0x09] @ OID_ML_KEM_512 @ [0x03, 0x82, 0x03, 0x21, 0x00]
      else if n = 1184 then [0x30, 0x82, 0x04, 0xb2, 0x30, 0x0b, 0x06, 0x09] @ OID_ML_KEM_768 @ [0x03, 0x82, 0x04, 0xa1, 0x00]
      else [0x30, 0x82, 0x06, 0x32, 0x30, 0x0b, 0x06, 0x09] @ OID_ML_KEM_1024 @ [0x03, 0x82, 0x06, 0x21, 0x00])"

lemma export_der_run:
  assumes "pk_len (length pk)" "length pk + 22 \<le> cap"
  shows "QUDO_KEM_export_public_key_der (Some pk) (Some cap)
     = (0, Some (spki_prefix (length pk) @ pk), Some (length pk + 22))"
  using assms
  by (auto simp: pk_len_def QUDO_KEM_export_public_key_der_def get_oid_for_key_size_def asn1_encode_length_def Let_def
      spki_prefix_def OID_ML_KEM_512_def OID_ML_KEM_768_def OID_ML_KEM_1024_def)

lemma spki_parse_prefix:
  assumes "pk_len (length pk)"
  shows "spki_parse (spki_prefix (length pk) @ pk) = Some (length pk, pk)"
  using assms
  by (auto simp: pk_len_def spki_parse_def spki_prefix_def spki_oid_def spki_null_def Let_def
      OID_ML_KEM_512_def OID_ML_KEM_768_def OID_ML_KEM_1024_def)


lemma pem_markers:
  assumes "CHR ''-'' \<notin> set body"
  shows "strstr start_marker (pem_hdr @ body @ pem_ftr) = Some 0"
    and "strstr end_marker (pem_hdr @ body @ pem_ftr) = Some (27 + length body)"
proof -
  show "strstr start_marker (pem_hdr @ body @ pem_ftr) = Some 0"
    by (simp add: start_marker_def pem_hdr_def)
  have "strstr end_marker (body @ pem_ftr) = map_option ((+) (length body)) (strstr end_marker pem_ftr)"
    by (rule strstr_skip) (simp_all add: end_marker_def assms)
  also have "strstr end_marker pem_ftr = Some 0" by (simp add: end_marker_def pem_ftr_def)
  finally have b: "strstr end_marker (body @ pem_ftr) = Some (length body)" by simp
  show "strstr end_marker (pem_hdr @ body @ pem_ftr) = Some (27 + length body)"
    by (simp add: pem_hdr_def b) (simp add: end_marker_def b [unfolded end_marker_def])
qed

lemma pem_body:
  "take (27 + length body - 26) (drop 26 (pem_hdr @ body @ pem_ftr)) = CHR 0x0A # body"
  by (simp add: pem_hdr_def)

lemma b64_decode_body:
  "length der \<le> 4096 \<Longrightarrow> mlkem_b64_decode (CHR 0x0A # mlkem_b64_encode_wrapped der 0) 4096 = Some der"
  by (simp add: mlkem_b64_decode_def b64_ends b64_loop_encode del: b64_decode_loop.simps)

lemma encoded_len: "length (mlkem_b64_encode_wrapped der 0) = mlkem_b64_encoded_len (length der)"
  by (simp add: b64_encode_length mlkem_b64_encoded_len_def Let_def)

lemma spki_prefix_length [simp]: "length (spki_prefix n) = 22"
  by (simp add: spki_prefix_def OID_ML_KEM_512_def OID_ML_KEM_768_def OID_ML_KEM_1024_def)

lemma pk_len_oid: "get_oid_for_key_size n = None \<longleftrightarrow> \<not> pk_len n"
  by (simp add: get_oid_for_key_size_def pk_len_def)

text \<open>The result of every call of the DER export.\<close>

lemma export_der_cases:
  "QUDO_KEM_export_public_key_der (Some pk) (Some cap) =
     (if \<not> pk_len (length pk) then (-2, None, Some cap)
      else if cap < length pk + 22 then (-13, None, Some (length pk + 22))
      else (0, Some (spki_prefix (length pk) @ pk), Some (length pk + 22)))"
proof (cases "pk_len (length pk) \<and> cap < length pk + 22")
  case True
  then show ?thesis
    by (auto simp: pk_len_def QUDO_KEM_export_public_key_der_def get_oid_for_key_size_def asn1_encode_length_def Let_def
        OID_ML_KEM_512_def OID_ML_KEM_768_def OID_ML_KEM_1024_def)
next
  case False
  then show ?thesis
    using export_der_run [of pk cap] pk_len_oid [of "length pk"]
    by (auto simp: QUDO_KEM_export_public_key_der_def)
qed

text \<open>
  The import does not compare the object identifier with the length of the key: the identifier of
  ML-KEM-512 in front of a key of ML-KEM-768 is accepted.
\<close>

lemma import_ignores_oid:
  "QUDO_KEM_import_public_key_der (Some ([0x30, 0x82, 0x04, 0xb2, 0x30, 0x0b, 0x06, 0x09] @ OID_ML_KEM_512
       @ [0x03, 0x82, 0x04, 0xa1, 0x00] @ replicate 1184 7)) False (Some 1568) = (0, Some (replicate 1184 7), Some 1184)"
  by (simp add: QUDO_KEM_import_public_key_der_def spki_parse_def spki_oid_def spki_null_def OID_ML_KEM_512_def Let_def)

text \<open>Every step of the parser leaves a suffix of what it was given.\<close>

lemma expect_suffix: "expect tag p = Some q \<Longrightarrow> suffix q p"
  by (cases p) (auto split: if_splits intro: suffix_ConsI)

lemma decode_length_suffix: "asn1_decode_length p = Some (l, q) \<Longrightarrow> suffix q p"
  by (cases p) (auto simp: Let_def suffix_drop split: if_splits intro: suffix_ConsI)

lemma spki_oid_suffix: "spki_oid p = Some q \<Longrightarrow> suffix q p"
  by (cases p) (auto simp: spki_oid_def Let_def suffix_drop split: if_splits intro: suffix_ConsI)

lemma spki_null_suffix: "spki_null p = Some q \<Longrightarrow> suffix q p"
  by (cases p) (auto simp: spki_null_def split: if_splits intro: suffix_ConsI expect_suffix)

lemma spki_parse_suffix: "spki_parse der = Some (len, p) \<Longrightarrow> suffix p der \<and> pk_len len \<and> len \<le> length p"
  by (auto simp: spki_parse_def pk_len_def Let_def bind_eq_Some_conv split: if_splits
      dest!: expect_suffix decode_length_suffix spki_oid_suffix spki_null_suffix intro: suffix_order.trans)

section \<open>Properties\<close>

text \<open>
  C34: PEM round trip.  A public key of one of the three parameter sets, exported to PEM with enough room and
  imported again, comes back unchanged.
\<close>

theorem pem_round_trip:
  assumes "length pk = 800 \<or> length pk = 1184 \<or> length pk = 1568" "2300 \<le> cap" "length pk \<le> cap'"
  shows "\<exists>pem. QUDO_KEM_export_public_key_pem (Some pk) False (Some cap) = (0, Some pem, Some (length pem))
     \<and> QUDO_KEM_import_public_key_pem (Some pem) False (Some cap') = (0, Some pk, Some (length pk))"
proof -
  let ?der = "spki_prefix (length pk) @ pk"
  let ?body = "mlkem_b64_encode_wrapped ?der 0"
  let ?pem = "pem_hdr @ ?body @ pem_ftr"
  have pk: "pk_len (length pk)" and l: "length ?der \<le> 4096" using assms by (auto simp: pk_len_def)
  have need: "length pem_hdr + mlkem_b64_encoded_len (length ?der) + length pem_ftr + 1 \<le> cap"
    using assms(1,2) by (auto simp: mlkem_b64_encoded_len_def pem_hdr_def pem_ftr_def)
  then have 1: "QUDO_KEM_export_public_key_pem (Some pk) False (Some cap) = (0, Some ?pem, Some (length ?pem))"
    using l pk by (simp add: QUDO_KEM_export_public_key_pem_def export_der_cases Let_def)
  have s: "length start_marker = 26" by (simp add: start_marker_def)
  have "QUDO_KEM_import_public_key_pem (Some ?pem) False (Some cap') =
      QUDO_KEM_import_public_key_der (Some ?der) False (Some cap')"
    unfolding QUDO_KEM_import_public_key_pem_def
    by (simp only: option.case prod.case pem_markers [OF b64_encode_no_dash] s Let_def pem_body b64_decode_body [OF l] add_0) simp
  also have "\<dots> = (0, Some pk, Some (length pk))"
    using assms(3) by (simp add: QUDO_KEM_import_public_key_der_def spki_parse_prefix [OF pk])
  finally show ?thesis using 1 by blast
qed

theorem pem_round_trip_witness:
  "\<exists>pem. QUDO_KEM_export_public_key_pem (Some (replicate 1184 5)) False (Some 2300) = (0, Some pem, Some (length pem))
     \<and> QUDO_KEM_import_public_key_pem (Some pem) False (Some 1184) = (0, Some (replicate 1184 5), Some 1184)"
  using pem_round_trip [of "replicate 1184 5" 2300 1184] by simp





end
