(* ===== verification/Spec2Isabelle.thy ===== *)
theory Spec2Isabelle
  imports Hmac SlhDsa Kem Interop
begin

text \<open>
  A verification development for the cryptographic module of the repository
  (\<open>src/qudo-pqc-lib\<close>).
\<close>

end
